(* ===== verification/Prelude.thy ===== *)
theory Prelude
  imports Main "HOL-Library.Word" "HOL-Library.Char_ord" "HOL-Library.List_Lexorder"
    "HOL-Library.Multiset"
begin

text \<open>
  What every other theory of the development shares: the outcome type of code that may
  throw, the integer and time types, the collections of proof hints and the generic
  lemmas on lists.

  A C++ \<^verbatim>\<open>std::string\<close> is a list of bytes (\<^typ>\<open>string\<close>); \<^verbatim>\<open>operator<\<close> on strings is
  the lexicographic order of the bytes read as unsigned numbers, which is the order that
  the theories List_Lexorder and Char_ord give to \<^typ>\<open>string\<close>.
\<close>

section \<open>Outcomes of code that may throw\<close>

text \<open>
  An exception is a value: \<open>Inl e\<close> is a call that throws \<open>e\<close>, \<open>Inr x\<close> one that returns
  \<open>x\<close>. The string is what \<^verbatim>\<open>what()\<close> says. \<open>Undefined_behaviour\<close> is not an exception: it
  marks an execution to which the C++ standard gives no meaning (an empty optional that is
  dereferenced, an index past the end of a vector), and no handler catches it.
\<close>

datatype exn =
    Invalid_argument string
  | Out_of_range string
  | Runtime_error string
  | Json_error string
  | Undefined_behaviour string

type_synonym 'a throws = "exn + 'a"

fun what :: "exn \<Rightarrow> string" where
  "what (Invalid_argument m) = m"
| "what (Out_of_range m) = m"
| "what (Runtime_error m) = m"
| "what (Json_error m) = m"
| "what (Undefined_behaviour m) = m"

fun is_ub :: "exn \<Rightarrow> bool" where
  "is_ub (Undefined_behaviour m) = True"
| "is_ub _ = False"

fun bind_throws :: "'a throws \<Rightarrow> ('a \<Rightarrow> 'b throws) \<Rightarrow> 'b throws" where
  "bind_throws (Inl e) f = Inl e"
| "bind_throws (Inr x) f = f x"

text \<open>\<^verbatim>\<open>try { x } catch (...) { h }\<close>.\<close>

fun catch_all :: "'a throws \<Rightarrow> (exn \<Rightarrow> 'a throws) \<Rightarrow> 'a throws" where
  "catch_all (Inl e) h = (if is_ub e then Inl e else h e)"
| "catch_all (Inr x) h = Inr x"

lemma bind_throws_Inr_iff:
  "bind_throws m f = Inr y \<longleftrightarrow> (\<exists>x. m = Inr x \<and> f x = Inr y)"
  by (cases m) auto

lemma bind_throws_assoc:
  "bind_throws (bind_throws m f) g = bind_throws m (\<lambda>x. bind_throws (f x) g)"
  by (cases m) auto

lemma bind_throws_return [simp]: "bind_throws m Inr = m"
  by (cases m) auto

text \<open>A loop over a list whose body may throw: the first exception ends it.\<close>

fun fold_throws :: "('a \<Rightarrow> 's \<Rightarrow> 's throws) \<Rightarrow> 'a list \<Rightarrow> 's \<Rightarrow> 's throws" where
  "fold_throws f [] s = Inr s"
| "fold_throws f (x # xs) s = bind_throws (f x s) (fold_throws f xs)"

lemma fold_throws_append:
  "fold_throws f (xs @ ys) s = bind_throws (fold_throws f xs s) (fold_throws f ys)"
proof (induction xs arbitrary: s)
  case (Cons x xs)
  then show ?case by (cases "f x s") auto
qed simp

lemma fold_throws_pure:
  assumes "\<And>x s. x \<in> set xs \<Longrightarrow> f x s = Inr (g x s)"
  shows "fold_throws f xs s = Inr (fold g xs s)"
  using assms by (induction xs arbitrary: s) auto

lemma fold_throws_invariant:
  assumes "fold_throws f xs s = Inr t" and "P s"
    and "\<And>x s t. x \<in> set xs \<Longrightarrow> P s \<Longrightarrow> f x s = Inr t \<Longrightarrow> P t"
  shows "P t"
  using assms
proof (induction xs arbitrary: s)
  case Nil
  then show ?case by simp
next
  case (Cons x xs)
  from Cons.prems(1) obtain s' where s': "f x s = Inr s'" "fold_throws f xs s' = Inr t"
    by (auto simp: bind_throws_Inr_iff)
  with Cons.prems have "P s'" by auto
  with s'(2) show ?case
    by (rule Cons.IH) (use Cons.prems(3) in auto)
qed

text \<open>\<^verbatim>\<open>v.at(i)\<close> of a vector.\<close>

definition vec_at :: "'a list \<Rightarrow> nat \<Rightarrow> 'a throws" where
  "vec_at xs i = (if i < length xs then Inr (xs ! i) else Inl (Out_of_range ''vector::at''))"

lemma vec_at_in [simp]: "i < length xs \<Longrightarrow> vec_at xs i = Inr (xs ! i)"
  by (simp add: vec_at_def)

section \<open>Integers and time\<close>

text \<open>
  \<open>u64\<close> is \<^verbatim>\<open>uint64_t\<close>, and also \<^verbatim>\<open>size_t\<close> and \<^verbatim>\<open>unsigned long\<close> of the 64-bit Linux
  targets. \<open>int64\<close> reads an integer as \<^verbatim>\<open>int64_t\<close> does (two's complement).
  A \<^verbatim>\<open>Time\<close> is a \<^verbatim>\<open>system_clock::time_point\<close>: with libstdc++ a count of nanoseconds
  since the epoch, kept in an \<^verbatim>\<open>int64_t\<close>.
\<close>

type_synonym u64 = "64 word"
type_synonym time = int

definition int64 :: "int \<Rightarrow> int" where
  "int64 x = signed_take_bit 63 x"

definition is_int64 :: "int \<Rightarrow> bool" where
  "is_int64 x \<longleftrightarrow> - (2 ^ 63) \<le> x \<and> x < 2 ^ 63"

lemma int64_id: "is_int64 x \<Longrightarrow> int64 x = x"
  by (simp add: is_int64_def int64_def signed_take_bit_int_eq_self_iff)

lemma is_int64_int64: "is_int64 (int64 x)"
  unfolding is_int64_def int64_def
  using signed_take_bit_int_greater_eq_minus_exp [of 63 x] signed_take_bit_int_less_exp [of 63 x]
  by simp

lemma int64_uint_of_int: "int64 (uint (word_of_int x :: u64)) = int64 x"
proof -
  have "uint (word_of_int x :: u64) = take_bit 64 x"
    by (simp add: uint_word_of_int take_bit_eq_mod)
  then show ?thesis by (simp add: int64_def signed_take_bit_take_bit del: take_bit_int_eq_self)
qed

lemma unat_of_nat_u64: "i < 2 ^ 64 \<Longrightarrow> unat (of_nat i :: u64) = i"
  by (simp add: unat_of_nat)

lemma of_nat_u64_inject: "i < 2 ^ 64 \<Longrightarrow> j < 2 ^ 64 \<Longrightarrow> (of_nat i :: u64) = of_nat j \<Longrightarrow> i = j"
  by (metis unat_of_nat_u64)

lemma of_nat_u64_less: "i < j \<Longrightarrow> j < 2 ^ 64 \<Longrightarrow> (of_nat i :: u64) < of_nat j"
  by (simp only: word_less_nat_alt unat_of_nat_u64 order.strict_trans [of i j "2 ^ 64"])

text \<open>C++ \<^verbatim>\<open>/\<close> on signed integers truncates towards zero.\<close>

definition trunc_div :: "int \<Rightarrow> int \<Rightarrow> int" where
  "trunc_div num den =
     (let magnitude = \<bar>num\<bar> div \<bar>den\<bar>
      in if (num < 0) = (den < 0) then magnitude else - magnitude)"

lemma trunc_div_nonneg: "0 \<le> a \<Longrightarrow> 0 < b \<Longrightarrow> trunc_div a b = a div b"
  by (simp add: trunc_div_def)

lemma trunc_div_mult: "0 < b \<Longrightarrow> trunc_div (a * b) b = a"
  by (simp add: trunc_div_def Let_def abs_mult mult_less_0_iff)

section \<open>Hints and list lemmas\<close>

named_theorems codec_simps \<open>encode and decode rewrite rules\<close>
named_theorems batch_simps \<open>how the batch operations change the fields of a batch\<close>

lemma take_drop_append_chunk:
  "take n (drop k xs) @ take m (drop (k + n) xs) = take (n + m) (drop k xs)"
  by (metis add.commute drop_drop take_add)

lemma concat_map_filter_None:
  "concat (map (\<lambda>x. case f x of None \<Rightarrow> [] | Some y \<Rightarrow> g y) xs) = concat (map g (List.map_filter f xs))"
  by (induction xs) (auto simp: List.map_filter_simps split: option.splits)

lemma map_filter_map: "List.map_filter f (map g xs) = List.map_filter (\<lambda>x. f (g x)) xs"
  by (induction xs) (simp_all add: List.map_filter_simps split: option.splits)

lemma map_via_nth: "map (\<lambda>i. f (xs ! i)) [0..<length xs] = map f xs"
  by (rule nth_equalityI) auto

lemma sum_list_map_perm:
  fixes f :: "'a \<Rightarrow> nat"
  assumes "mset xs = mset ys"
  shows "sum_list (map f xs) = sum_list (map f ys)"
proof -
  have "mset (map f xs) = mset (map f ys)" by (simp only: mset_map assms)
  then show ?thesis by (simp only: sum_mset_sum_list [symmetric])
qed

lemma distinct_map_filter_fst:
  "distinct (map fst xs) \<Longrightarrow> distinct (map fst (filter P xs))"
  by (induction xs) auto

lemma mset_map_filter:
  "mset xs = mset ys \<Longrightarrow> mset (List.map_filter f xs) = mset (List.map_filter f ys)"
  by (simp add: List.map_filter_def)

lemma map_of_perm:
  assumes "distinct (map fst xs)" and "mset xs = mset ys"
  shows "map_of xs = map_of ys"
proof -
  have "distinct (map fst ys)"
    using assms by (metis mset_eq_imp_distinct_iff mset_map)
  moreover have "set xs = set ys" using assms(2) by (rule mset_eq_setD)
  ultimately show ?thesis using assms(1) map_of_inject_set by blast
qed

end
