(* ===== verification/Cpp_String.thy ===== *)
theory Cpp_String
  imports Prelude
begin

text \<open>
  The operations of \<^verbatim>\<open>std::string\<close>, \<^verbatim>\<open>std::string_view\<close>, \<^verbatim>\<open><cctype>\<close> (in the C locale) and
  \<^verbatim>\<open>std::getline\<close> that the sources use, on lists of bytes. A search returns \<open>None\<close>
  where C++ returns \<^verbatim>\<open>npos\<close>. \<^verbatim>\<open>join\<close> is \<^verbatim>\<open>fmt::join\<close> with the separator \<open>sep\<close>.
\<close>

section \<open>Character classes\<close>

definition code_of :: "char \<Rightarrow> nat" where
  "code_of c = of_char c"

definition cis_digit :: "char \<Rightarrow> bool" where
  "cis_digit c \<longleftrightarrow> 48 \<le> code_of c \<and> code_of c \<le> 57"

definition cis_upper :: "char \<Rightarrow> bool" where
  "cis_upper c \<longleftrightarrow> 65 \<le> code_of c \<and> code_of c \<le> 90"

definition cis_lower :: "char \<Rightarrow> bool" where
  "cis_lower c \<longleftrightarrow> 97 \<le> code_of c \<and> code_of c \<le> 122"

definition cis_alnum :: "char \<Rightarrow> bool" where
  "cis_alnum c \<longleftrightarrow> cis_digit c \<or> cis_upper c \<or> cis_lower c"

definition cis_space :: "char \<Rightarrow> bool" where
  "cis_space c \<longleftrightarrow> code_of c = 32 \<or> 9 \<le> code_of c \<and> code_of c \<le> 13"

definition cto_lower :: "char \<Rightarrow> char" where
  "cto_lower c = (if cis_upper c then char_of (code_of c + 32) else c)"

named_theorems char_class_simps \<open>character classes by code\<close>

lemmas [char_class_simps] =
  cis_digit_def cis_upper_def cis_lower_def cis_alnum_def cis_space_def code_of_def

lemma code_of_less [simp]: "code_of c < 256"
  by (simp add: code_of_def)

lemma code_of_char_of [simp]: "n < 256 \<Longrightarrow> code_of (char_of n) = n"
  by (simp add: code_of_def)

lemma char_of_code_of [simp]: "char_of (code_of c) = c"
  by (simp add: code_of_def)

lemma code_of_inject: "code_of a = code_of b \<longleftrightarrow> a = b"
  by (simp add: code_of_def of_char_eq_iff)

section \<open>Searching and slicing\<close>

text \<open>\<^verbatim>\<open>s.find(c, pos)\<close> and \<^verbatim>\<open>s.rfind(c)\<close>.\<close>

fun find_char :: "char \<Rightarrow> string \<Rightarrow> nat option" where
  "find_char c [] = None"
| "find_char c (x # xs) = (if x = c then Some 0 else map_option Suc (find_char c xs))"

definition find_from :: "char \<Rightarrow> string \<Rightarrow> nat \<Rightarrow> nat option" where
  "find_from c s pos = map_option (\<lambda>i. pos + i) (find_char c (drop pos s))"

definition rfind_char :: "char \<Rightarrow> string \<Rightarrow> nat option" where
  "rfind_char c s = map_option (\<lambda>i. length s - 1 - i) (find_char c (rev s))"

text \<open>\<^verbatim>\<open>s.find(pat)\<close> for a string pattern.\<close>

fun find_sub :: "string \<Rightarrow> string \<Rightarrow> nat option" where
  "find_sub p s =
     (if take (length p) s = p then Some 0
      else case s of [] \<Rightarrow> None | _ # xs \<Rightarrow> map_option Suc (find_sub p xs))"

declare find_sub.simps [simp del]

text \<open>\<^verbatim>\<open>s.substr(pos, n)\<close> and \<^verbatim>\<open>s.substr(pos)\<close> where \<open>pos\<close> is within the string.\<close>

definition substr :: "string \<Rightarrow> nat \<Rightarrow> nat \<Rightarrow> string" where
  "substr s pos n = take n (drop pos s)"

definition substr_from :: "string \<Rightarrow> nat \<Rightarrow> string" where
  "substr_from s pos = drop pos s"

definition starts_with :: "string \<Rightarrow> string \<Rightarrow> bool" where
  "starts_with s p \<longleftrightarrow> take (length p) s = p"

definition ends_with :: "string \<Rightarrow> string \<Rightarrow> bool" where
  "ends_with s p \<longleftrightarrow> length p \<le> length s \<and> drop (length s - length p) s = p"

lemma find_char_None: "find_char c s = None \<longleftrightarrow> c \<notin> set s"
  by (induction s) auto

lemma find_char_Some_less: "find_char c s = Some i \<Longrightarrow> i < length s \<and> s ! i = c"
  by (induction s arbitrary: i) (auto split: if_splits)

lemma find_char_append:
  "find_char c (xs @ ys) =
     (if c \<in> set xs then find_char c xs else map_option (\<lambda>i. length xs + i) (find_char c ys))"
  by (induction xs; cases "find_char c ys") auto

lemma find_char_first [codec_simps]:
  "c \<notin> set xs \<Longrightarrow> find_char c (xs @ c # ys) = Some (length xs)"
  by (simp add: find_char_append)

lemma find_char_absent [codec_simps]: "c \<notin> set xs \<Longrightarrow> find_char c xs = None"
  by (simp add: find_char_None)

lemma find_from_absent: "c \<notin> set (drop pos s) \<Longrightarrow> find_from c s pos = None"
  by (simp add: find_from_def find_char_None)

lemma find_from_ge: "find_from c s pos = Some i \<Longrightarrow> pos \<le> i \<and> i < length s"
  by (auto simp: find_from_def dest!: find_char_Some_less)

lemma rfind_char_last [codec_simps]:
  "c \<notin> set ys \<Longrightarrow> rfind_char c (xs @ c # ys) = Some (length xs)"
  by (simp add: rfind_char_def find_char_append)

lemma rfind_char_None: "rfind_char c s = None \<longleftrightarrow> c \<notin> set s"
  by (simp add: rfind_char_def find_char_None)

lemma starts_with_append [simp]: "starts_with (p @ s) p"
  by (simp add: starts_with_def)

lemma starts_with_iff: "starts_with s p \<longleftrightarrow> (\<exists>r. s = p @ r)"
  unfolding starts_with_def by (metis append_eq_conv_conj)

lemma substr_from_append [simp]: "substr_from (p @ s) (length p) = s"
  by (simp add: substr_from_def)

section \<open>Trimming, joining, splitting\<close>

text \<open>\<^verbatim>\<open>getline(stream, item, delim)\<close> until it fails: no item for an empty rest.\<close>

fun getlines :: "char \<Rightarrow> string \<Rightarrow> string list" where
  "getlines d [] = []"
| "getlines d (c # cs) =
     (if c = d then [] # getlines d cs
      else case getlines d cs of [] \<Rightarrow> [[c]] | l # ls \<Rightarrow> (c # l) # ls)"

fun join :: "string \<Rightarrow> string list \<Rightarrow> string" where
  "join sep [] = []"
| "join sep [x] = x"
| "join sep (x # y # ys) = x @ sep @ join sep (y # ys)"

lemma join_Cons: "join sep (x # xs) = x @ (if xs = [] then [] else sep @ join sep xs)"
  by (cases xs) auto

lemma join_append:
  "xs \<noteq> [] \<Longrightarrow> ys \<noteq> [] \<Longrightarrow> join sep (xs @ ys) = join sep xs @ sep @ join sep ys"
  by (induction sep xs rule: join.induct) (auto simp: join_Cons)

lemma getlines_no_delim: "d \<notin> set xs \<Longrightarrow> xs \<noteq> [] \<Longrightarrow> getlines d xs = [xs]"
proof (induction xs)
  case (Cons c cs)
  then show ?case by (cases cs) auto
qed simp

lemma getlines_append:
  "d \<notin> set xs \<Longrightarrow> getlines d (xs @ d # ys) = xs # getlines d ys"
  by (induction xs) auto

text \<open>Splitting undoes joining when no item holds the delimiter and the last is not empty.\<close>

lemma getlines_join:
  assumes "\<forall>x \<in> set xs. d \<notin> set x" and "xs = [] \<or> last xs \<noteq> []"
  shows "getlines d (join [d] xs) = xs"
  using assms
proof (induction "[d]" xs rule: join.induct)
  case (2 x)
  then show ?case by (simp add: getlines_no_delim)
next
  case (3 x y ys)
  then show ?case by (simp add: getlines_append)
qed simp

lemma set_join: "set (join sep xs) \<subseteq> set sep \<union> (\<Union>x\<in>set xs. set x)"
  by (induction sep xs rule: join.induct) auto

end
