(* ===== verification/Cpp_Number.thy ===== *)
theory Cpp_Number
  imports Cpp_String
begin

text \<open>
  Numbers as text: \<^verbatim>\<open>std::to_string\<close> and the \<^verbatim>\<open>{}\<close> and \<^verbatim>\<open>{:02X}\<close> fields of a format string
  on integers, and the \<^verbatim>\<open>strtol\<close> family behind \<^verbatim>\<open>std::stoi\<close>, \<^verbatim>\<open>std::stoul\<close>, \<^verbatim>\<open>std::stoull\<close> and
  \<^verbatim>\<open>std::stoll\<close>: white space is skipped, a sign is allowed even for the unsigned ones (the value
  is then negated modulo \<open>2 ^ 64\<close>), in base 16 a prefix \<^verbatim>\<open>0x\<close> is allowed, and what follows the
  last digit is ignored. No digit is \<^verbatim>\<open>invalid_argument\<close>, a value that does not fit
  \<^verbatim>\<open>out_of_range\<close>. Widths are those of 64-bit Linux (\<^verbatim>\<open>long\<close> has 64 bits, \<^verbatim>\<open>int\<close> 32).
\<close>

section \<open>Printing\<close>

definition digit_char :: "nat \<Rightarrow> char" where
  "digit_char d = char_of (if d < 10 then 48 + d else 55 + d)"

fun show_nat :: "nat \<Rightarrow> string" where
  "show_nat n = (if n < 10 then [digit_char n] else show_nat (n div 10) @ [digit_char (n mod 10)])"

declare show_nat.simps [simp del]

definition show_int :: "int \<Rightarrow> string" where
  "show_int i = (if i < 0 then CHR ''-'' # show_nat (nat (- i)) else show_nat (nat i))"

definition hex2 :: "char \<Rightarrow> string" where
  "hex2 c = [digit_char (code_of c div 16), digit_char (code_of c mod 16)]"

section \<open>Reading\<close>

definition digit_value :: "char \<Rightarrow> nat" where
  "digit_value c =
     (if cis_digit c then code_of c - 48
      else if cis_upper c then code_of c - 55
      else if cis_lower c then code_of c - 87
      else 255)"

fun skip_space :: "string \<Rightarrow> string" where
  "skip_space [] = []"
| "skip_space (c # cs) = (if cis_space c then skip_space cs else c # cs)"

fun take_sign :: "string \<Rightarrow> bool \<times> string" where
  "take_sign [] = (False, [])"
| "take_sign (c # cs) =
     (if c = CHR ''-'' then (True, cs) else if c = CHR ''+'' then (False, cs) else (False, c # cs))"

fun skip_0x :: "string \<Rightarrow> string" where
  "skip_0x (a # b # c # cs) =
     (if a = CHR ''0'' \<and> (b = CHR ''x'' \<or> b = CHR ''X'') \<and> digit_value c < 16
      then c # cs else a # b # c # cs)"
| "skip_0x s = s"

fun read_digits :: "nat \<Rightarrow> nat \<Rightarrow> string \<Rightarrow> nat" where
  "read_digits base acc [] = acc"
| "read_digits base acc (c # cs) =
     (if digit_value c < base then read_digits base (acc * base + digit_value c) cs else acc)"

text \<open>The sign and the magnitude, or \<open>None\<close> when there is no digit to convert.\<close>

definition strto :: "nat \<Rightarrow> string \<Rightarrow> (bool \<times> nat) option" where
  "strto base s =
     (let (neg, s1) = take_sign (skip_space s);
          s2 = (if base = 16 then skip_0x s1 else s1)
      in case s2 of
           [] \<Rightarrow> None
         | c # cs \<Rightarrow> if digit_value c < base then Some (neg, read_digits base 0 s2) else None)"

definition signed_of :: "bool \<times> nat \<Rightarrow> int" where
  "signed_of p = (if fst p then - int (snd p) else int (snd p))"

definition read_unsigned :: "string \<Rightarrow> string \<Rightarrow> u64 throws" where
  "read_unsigned fn s =
     (case strto 10 s of
        None \<Rightarrow> Inl (Invalid_argument fn)
      | Some (neg, n) \<Rightarrow>
          if 2 ^ 64 \<le> n then Inl (Out_of_range fn)
          else Inr (if neg then - of_nat n else of_nat n))"

definition stoull :: "string \<Rightarrow> u64 throws" where
  "stoull s = read_unsigned ''stoull'' s"

definition stoul :: "string \<Rightarrow> u64 throws" where
  "stoul s = read_unsigned ''stoul'' s"

definition stoll :: "string \<Rightarrow> int throws" where
  "stoll s =
     (case strto 10 s of
        None \<Rightarrow> Inl (Invalid_argument ''stoll'')
      | Some p \<Rightarrow> if is_int64 (signed_of p) then Inr (signed_of p) else Inl (Out_of_range ''stoll''))"

definition stoi :: "nat \<Rightarrow> string \<Rightarrow> int throws" where
  "stoi base s =
     (case strto base s of
        None \<Rightarrow> Inl (Invalid_argument ''stoi'')
      | Some p \<Rightarrow>
          if - (2 ^ 31) \<le> signed_of p \<and> signed_of p < 2 ^ 31 then Inr (signed_of p)
          else Inl (Out_of_range ''stoi''))"

section \<open>Digits\<close>

lemma code_of_digit_char: "d < 10 \<Longrightarrow> code_of (digit_char d) = 48 + d"
  by (simp add: digit_char_def)

lemma code_of_hex_char: "d < 16 \<Longrightarrow> code_of (digit_char d) = (if d < 10 then 48 + d else 55 + d)"
  by (simp add: digit_char_def)

lemma digit_value_digit_char [simp]: "d < 16 \<Longrightarrow> digit_value (digit_char d) = d"
  by (auto simp: digit_value_def cis_digit_def cis_upper_def code_of_hex_char)

lemma cis_digit_digit_char [simp]: "d < 10 \<Longrightarrow> cis_digit (digit_char d)"
  by (simp add: cis_digit_def code_of_digit_char)

lemma digit_value_lt_10: "digit_value c < 10 \<longleftrightarrow> cis_digit c"
  by (auto simp: digit_value_def cis_digit_def cis_upper_def cis_lower_def)

lemma show_nat_digits: "\<forall>c \<in> set (show_nat n). cis_digit c"
proof (induction n rule: show_nat.induct)
  case (1 n)
  then show ?case by (subst show_nat.simps) auto
qed

lemma show_nat_not_Nil [simp]: "show_nat n \<noteq> []"
  by (subst show_nat.simps) simp

lemma show_nat_no_char: "\<not> cis_digit c \<Longrightarrow> c \<notin> set (show_nat n)"
  using show_nat_digits by blast

lemma read_digits_append:
  "\<forall>c \<in> set ds. digit_value c < base \<Longrightarrow>
     read_digits base acc (ds @ rest) = read_digits base (read_digits base acc ds) rest"
  by (induction ds arbitrary: acc) auto

lemma read_digits_show_nat: "read_digits 10 0 (show_nat n) = n"
proof (induction n rule: show_nat.induct)
  case (1 n)
  show ?case
  proof (cases "n < 10")
    case True
    then show ?thesis by (subst show_nat.simps) simp
  next
    case False
    have "\<forall>c \<in> set (show_nat (n div 10)). digit_value c < 10"
      using show_nat_digits by (simp add: digit_value_lt_10)
    with False 1 show ?thesis
      by (subst show_nat.simps) (simp add: read_digits_append)
  qed
qed

text \<open>No rest that a printed number can be followed by continues it.\<close>

definition no_digit_first :: "string \<Rightarrow> bool" where
  "no_digit_first s \<longleftrightarrow> s = [] \<or> \<not> cis_digit (hd s)"

lemma read_digits_stop: "no_digit_first rest \<Longrightarrow> read_digits 10 acc rest = acc"
  by (cases rest) (auto simp: no_digit_first_def digit_value_lt_10)

lemma show_nat_hd: obtains c cs where "show_nat n = c # cs" and "cis_digit c"
  using show_nat_digits [of n] by (cases "show_nat n") auto

lemma digit_not_space_sign:
  "cis_digit c \<Longrightarrow> \<not> cis_space c \<and> c \<noteq> CHR ''-'' \<and> c \<noteq> CHR ''+''"
  by (auto simp: cis_digit_def cis_space_def code_of_def)

lemma strto_show_nat:
  assumes "no_digit_first rest"
  shows "strto 10 (show_nat n @ rest) = Some (False, n)"
proof -
  obtain c cs where c: "show_nat n = c # cs" "cis_digit c"
    by (rule show_nat_hd)
  have "\<forall>c \<in> set (show_nat n). digit_value c < 10"
    using show_nat_digits by (simp add: digit_value_lt_10)
  then have "read_digits 10 0 (show_nat n @ rest) = n"
    using assms by (simp add: read_digits_append read_digits_show_nat read_digits_stop)
  with c show ?thesis
    by (simp add: strto_def digit_not_space_sign digit_value_lt_10)
qed

lemma stoull_show_nat [codec_simps]:
  "n < 2 ^ 64 \<Longrightarrow> stoull (show_nat n) = Inr (of_nat n)"
  using strto_show_nat [of "[]" n] by (simp add: stoull_def read_unsigned_def no_digit_first_def)

lemma stoul_show_nat [codec_simps]:
  "n < 2 ^ 64 \<Longrightarrow> stoul (show_nat n) = Inr (of_nat n)"
  using strto_show_nat [of "[]" n] by (simp add: stoul_def read_unsigned_def no_digit_first_def)

lemma stoll_show_nat [codec_simps]:
  "n < 2 ^ 63 \<Longrightarrow> stoll (show_nat n) = Inr (int n)"
  using strto_show_nat [of "[]" n]
  by (simp add: stoll_def no_digit_first_def signed_of_def is_int64_def)

lemma unat_u64_less [simp]: "unat (w :: u64) < 18446744073709551616"
  using unsigned_less [of w, where 'a = nat] by simp

lemma stoull_show_u64 [codec_simps]: "stoull (show_nat (unat w)) = Inr w"
  by (simp add: stoull_show_nat)

lemma stoul_show_u64 [codec_simps]: "stoul (show_nat (unat w)) = Inr w"
  by (simp add: stoul_show_nat)

lemma stoi_hex2: "stoi 16 (hex2 c) = Inr (int (code_of c))"
proof -
  let ?a = "digit_char (code_of c div 16)" and ?b = "digit_char (code_of c mod 16)"
  have lt: "code_of c div 16 < 16" by (rule less_mult_imp_div_less) simp
  then have "code_of ?a = (if code_of c div 16 < 10 then 48 + code_of c div 16 else 55 + code_of c div 16)"
    by (rule code_of_hex_char)
  then have "\<not> cis_space ?a" and "?a \<noteq> CHR ''-''" and "?a \<noteq> CHR ''+''"
    using lt by (auto simp: cis_space_def code_of_def split: if_splits)
  moreover have "int (code_of c) < 2 ^ 31"
    by (rule less_trans [of _ 256]) (simp_all flip: of_nat_less_iff)
  ultimately show ?thesis
    using lt by (simp add: stoi_def strto_def hex2_def signed_of_def)
qed

text \<open>A printed \<^verbatim>\<open>int\<close> is read back, whatever follows it, as long as that is no digit.\<close>

lemma strto_show_int:
  assumes "no_digit_first rest"
  shows "strto 10 (show_int i @ rest) = Some (i < 0, nat \<bar>i\<bar>)"
proof (cases "i < 0")
  case True
  obtain c cs where c: "show_nat (nat (- i)) = c # cs" "cis_digit c"
    by (rule show_nat_hd)
  moreover have "\<not> cis_space (CHR ''-'')" by (simp add: cis_space_def code_of_def)
  ultimately show ?thesis
    using True strto_show_nat [OF assms, of "nat (- i)"] digit_not_space_sign [OF c(2)]
    by (auto simp: show_int_def strto_def split: if_splits)
next
  case False
  with strto_show_nat [OF assms, of "nat i"] show ?thesis
    by (simp add: show_int_def)
qed

lemma stoi_show_int [codec_simps]:
  "- (2 ^ 31) \<le> i \<Longrightarrow> i < 2 ^ 31 \<Longrightarrow> stoi 10 (show_int i) = Inr i"
  using strto_show_int [of "[]" i] by (auto simp: stoi_def no_digit_first_def signed_of_def)

lemma show_int_not_Nil [simp]: "show_int i \<noteq> []"
  by (simp add: show_int_def)

lemma show_int_no_char: "\<not> cis_digit c \<Longrightarrow> c \<noteq> CHR ''-'' \<Longrightarrow> c \<notin> set (show_int i)"
  by (simp add: show_int_def show_nat_no_char)

section \<open>Numbers of the same length are ordered as their texts\<close>

lemma lex_snoc:
  "length xs = length ys \<Longrightarrow> xs @ [x] < ys @ [y] \<longleftrightarrow> xs < ys \<or> xs = ys \<and> x < (y :: 'a::order)"
  by (induction xs ys rule: list_induct2) (auto simp: list_less_def)

lemma digit_char_less: "d < 10 \<Longrightarrow> e < 10 \<Longrightarrow> digit_char d < digit_char e \<longleftrightarrow> d < e"
  using code_of_digit_char [of d] code_of_digit_char [of e] by (simp add: code_of_def less_char_def)

lemma show_nat_eq_iff [simp]: "show_nat m = show_nat n \<longleftrightarrow> m = n"
  by (metis read_digits_show_nat)

lemma less_by_digits:
  "r < 10 \<Longrightarrow> s < 10 \<Longrightarrow> a * 10 + r < b * 10 + s \<longleftrightarrow> a < b \<or> a = b \<and> r < (s :: nat)"
  by auto

lemma show_nat_less:
  "length (show_nat m) = length (show_nat n) \<Longrightarrow> show_nat m < show_nat n \<longleftrightarrow> m < n"
proof (induction m arbitrary: n rule: show_nat.induct)
  case (1 m)
  have small: "show_nat k = [digit_char k]" if "k < 10" for k
    using that by (subst show_nat.simps) simp
  have big: "show_nat k = show_nat (k div 10) @ [digit_char (k mod 10)]" if "\<not> k < 10" for k
    using that by (subst show_nat.simps) simp
  show ?case
  proof (cases "m < 10")
    case True
    have "n < 10"
    proof (rule ccontr)
      assume "\<not> n < 10"
      from 1(2) [unfolded small [OF True] big [OF this]] show False by simp
    qed
    with True lex_snoc [of "[]" "[]" "digit_char m" "digit_char n"] show ?thesis
      by (simp add: small digit_char_less)
  next
    case False
    have n: "\<not> n < 10"
    proof
      assume "n < 10"
      from 1(2) [unfolded small [OF this] big [OF False]] show False by simp
    qed
    have len: "length (show_nat (m div 10)) = length (show_nat (n div 10))"
      using 1(2) unfolding big [OF False] big [OF n] by simp
    have "show_nat m < show_nat n \<longleftrightarrow> m div 10 < n div 10 \<or> m div 10 = n div 10 \<and> m mod 10 < n mod 10"
      unfolding big [OF False] big [OF n] lex_snoc [OF len] 1(1) [OF False len]
      by (simp add: digit_char_less)
    also have "\<dots> \<longleftrightarrow> m div 10 * 10 + m mod 10 < n div 10 * 10 + n mod 10"
      by (rule less_by_digits [symmetric]) simp_all
    also have "\<dots> \<longleftrightarrow> m < n" by (simp only: div_mult_mod_eq)
    finally show ?thesis .
  qed
qed

lemma stoi_show_nat: "n < 2 ^ 31 \<Longrightarrow> stoi 10 (show_nat n) = Inr (int n)"
  using stoi_show_int [of "int n"] by (simp add: show_int_def)

end
