(* ===== verification/Entry_Codec.thy ===== *)
theory Entry_Codec
  imports Cpp_Number
begin

text \<open>
  How entry names travel in the headers of batch protocol v2 (batch_v2.cc): the
  percent-encoding of a name, its decoding, and the comma-separated list of encoded names.
\<close>

section \<open>Definitions\<close>

definition kept_char :: "char \<Rightarrow> bool" where
  "kept_char ch \<longleftrightarrow> cis_alnum ch \<or>
     ch \<in> set [CHR ''!'', CHR ''#'', CHR ''$'', CHR ''%'', CHR ''&'', CHR 0x27, CHR ''*'', CHR ''+'',
       CHR ''-'', CHR ''.'', CHR ''^'', CHR ''_'', CHR 0x60, CHR ''|'', CHR ''~'']"

fun encode_entry_name :: "string \<Rightarrow> string" where
  "encode_entry_name [] = []"
| "encode_entry_name (ch # entry) =
     (if kept_char ch then [ch] else CHR ''%'' # hex2 ch) @ encode_entry_name entry"

definition is_blank :: "char \<Rightarrow> bool" where
  "is_blank c \<longleftrightarrow> c = CHR '' '' \<or> c = CHR 0x09"

definition trim :: "string \<Rightarrow> string" where
  "trim s = rev (dropWhile is_blank (rev (dropWhile is_blank s)))"

fun decode_entry_name :: "string \<Rightarrow> string option" where
  "decode_entry_name [] = Some []"
| "decode_entry_name (ch # cs) =
     (if ch = CHR ''%'' then
        case cs of
          a # b # rest \<Rightarrow>
            (case stoi 16 [a, b] of
               Inl e \<Rightarrow> None
             | Inr v \<Rightarrow> map_option (\<lambda>d. char_of (nat (v mod 256)) # d) (decode_entry_name rest))
        | _ \<Rightarrow> None
      else map_option ((#) ch) (decode_entry_name cs))"

definition parse_encoded_list :: "string \<Rightarrow> string list" where
  "parse_encoded_list raw =
     List.map_filter (\<lambda>item. let item' = trim item in
       if item' = [] then None else decode_entry_name item') (getlines (CHR '','') raw)"

section \<open>Lemmas\<close>

text \<open>The bytes that end an item of the list or are trimmed from it.\<close>

definition is_separator :: "char \<Rightarrow> bool" where
  "is_separator c \<longleftrightarrow> c = CHR '','' \<or> is_blank c"

lemma kept_char_no_separator: "kept_char c \<Longrightarrow> \<not> is_separator c"
  by (auto simp: kept_char_def is_separator_def is_blank_def char_class_simps)

lemma hex_char_no_separator:
  assumes "d < 16" shows "\<not> is_separator (digit_char d)"
proof -
  have "code_of (digit_char d) \<ge> 48"
    using assms by (simp add: code_of_hex_char)
  then show ?thesis by (auto simp: is_separator_def is_blank_def code_of_def)
qed

lemma encode_no_separator: "c \<in> set (encode_entry_name s) \<Longrightarrow> \<not> is_separator c"
proof (induction s)
  case (Cons ch s)
  have "code_of ch div 16 < 16" by (rule less_mult_imp_div_less) simp
  moreover have "\<not> is_separator (CHR ''%'')" by (simp add: is_separator_def is_blank_def)
  ultimately show ?case
    using Cons by (auto simp: kept_char_no_separator hex2_def hex_char_no_separator split: if_splits)
qed simp

lemma encode_Nil [simp]: "encode_entry_name s = [] \<longleftrightarrow> s = []"
  by (cases s) auto

lemma dropWhile_none: "\<forall>c \<in> set s. \<not> P c \<Longrightarrow> dropWhile P s = s"
  by (cases s) auto

lemma trim_no_blank: "\<forall>c \<in> set s. \<not> is_blank c \<Longrightarrow> trim s = s"
  by (simp add: trim_def dropWhile_none)

lemma decode_hex2: "decode_entry_name (CHR ''%'' # hex2 c @ cs) = map_option ((#) c) (decode_entry_name cs)"
proof -
  have "int (code_of c) mod 256 = int (code_of c)"
    using code_of_less [of c] by (intro mod_pos_pos_trivial) (simp_all flip: of_nat_less_iff)
  then show ?thesis
    using stoi_hex2 [of c] by (simp add: hex2_def)
qed

lemma decode_encode:
  "CHR ''%'' \<notin> set s \<Longrightarrow> decode_entry_name (encode_entry_name s @ t) = map_option ((@) s) (decode_entry_name t)"
proof (induction s)
  case Nil
  then show ?case by (simp add: option.map_ident)
next
  case (Cons c s)
  then have IH: "decode_entry_name (encode_entry_name s @ t) = map_option ((@) s) (decode_entry_name t)"
    and c: "c \<noteq> CHR ''%''" by auto
  show ?case
  proof (cases "kept_char c")
    case True
    with IH c show ?thesis by (cases "decode_entry_name t") simp_all
  next
    case False
    then have "encode_entry_name (c # s) @ t = CHR ''%'' # hex2 c @ encode_entry_name s @ t" by simp
    with IH show ?thesis
      by (cases "decode_entry_name t") (simp_all only: decode_hex2 option.map append_Cons)
  qed
qed

lemma map_filter_Some: "(\<And>x. x \<in> set xs \<Longrightarrow> f x = Some (g x)) \<Longrightarrow> List.map_filter f xs = map g xs"
  by (induction xs) (auto simp: List.map_filter_simps)

definition entry_ok :: "string \<Rightarrow> bool" where
  "entry_ok s \<longleftrightarrow> s \<noteq> [] \<and> CHR ''%'' \<notin> set s"

lemma decode_encode_ok: "entry_ok s \<Longrightarrow> decode_entry_name (encode_entry_name s) = Some s"
  using decode_encode [of s "[]"] by (simp add: entry_ok_def)

lemma parse_encoded_join [codec_simps]:
  assumes "\<forall>s \<in> set entries. entry_ok s"
  shows "parse_encoded_list (join '','' (map encode_entry_name entries)) = entries"
proof -
  have "getlines (CHR '','') (join '','' (map encode_entry_name entries)) = map encode_entry_name entries"
  proof (rule getlines_join)
    show "\<forall>x \<in> set (map encode_entry_name entries). CHR '','' \<notin> set x"
      using encode_no_separator by (auto simp: is_separator_def)
    show "map encode_entry_name entries = [] \<or> last (map encode_entry_name entries) \<noteq> []"
      using assms by (auto simp: last_map entry_ok_def)
  qed
  moreover have "trim (encode_entry_name s) = encode_entry_name s" for s
    using encode_no_separator by (intro trim_no_blank) (auto simp: is_separator_def)
  ultimately show ?thesis
    using assms
    by (simp add: parse_encoded_list_def map_filter_map)
      (subst map_filter_Some [where g = "\<lambda>s. s"]; simp add: decode_encode_ok entry_ok_def)
qed

text \<open>What a percent sign in a name does: the two bytes after it are decoded.\<close>

lemma decode_percent_41:
  "CHR ''%'' \<notin> set rest \<Longrightarrow> decode_entry_name (encode_entry_name (''%41'' @ rest)) = Some (''A'' @ rest)"
proof -
  assume rest: "CHR ''%'' \<notin> set rest"
  have "kept_char (CHR ''%'')" "kept_char (CHR ''4'')" "kept_char (CHR ''1'')"
    by (simp_all add: kept_char_def char_class_simps)
  then have enc: "encode_entry_name (''%41'' @ rest) = ''%41'' @ encode_entry_name rest"
    by simp
  have "stoi 16 ''41'' = Inr 65"
    by (simp add: stoi_def strto_def signed_of_def digit_value_def char_class_simps)
  then show ?thesis
    unfolding enc using decode_encode [OF rest, of "[]"] by (simp add: char_of_def bit_simps)
qed

end
