(* ===== verification/Containers.thy ===== *)
theory Containers
  imports Prelude
begin

text \<open>
  The two map types of the sources. \<^verbatim>\<open>std::map\<close> is a list of pairs sorted by key (iteration
  is in key order, so the list is the order in which a loop sees it). \<^verbatim>\<open>std::unordered_map\<close> is
  a list of pairs with distinct keys: the list is one iteration order, which the standard
  leaves open, so a statement that depends on the order is made for every order.
  The locale \<open>cpp_map\<close> is the interface that the clients use: \<^verbatim>\<open>find\<close>, \<^verbatim>\<open>operator[]\<close>
  assignment, \<^verbatim>\<open>emplace\<close> (which keeps an existing element) and \<^verbatim>\<open>erase\<close>.
\<close>

section \<open>The interface\<close>

locale cpp_map =
  fixes lookup :: "'m \<Rightarrow> 'k \<Rightarrow> 'v option"
    and assign :: "'k \<Rightarrow> 'v \<Rightarrow> 'm \<Rightarrow> 'm"
    and emplace :: "'k \<Rightarrow> 'v \<Rightarrow> 'm \<Rightarrow> 'm"
    and erase :: "'k \<Rightarrow> 'm \<Rightarrow> 'm"
    and ok :: "'m \<Rightarrow> bool"
  assumes lookup_assign: "ok m \<Longrightarrow> lookup (assign k v m) = (lookup m)(k \<mapsto> v)"
    and lookup_emplace:
      "ok m \<Longrightarrow> lookup (emplace k v m) = (if lookup m k = None then (lookup m)(k \<mapsto> v) else lookup m)"
    and lookup_erase: "ok m \<Longrightarrow> lookup (erase k m) = (lookup m)(k := None)"
    and ok_assign: "ok m \<Longrightarrow> ok (assign k v m)"
    and ok_emplace: "ok m \<Longrightarrow> ok (emplace k v m)"
    and ok_erase: "ok m \<Longrightarrow> ok (erase k m)"
begin

text \<open>Loops that fill a map: a later assignment wins, an earlier emplace wins.\<close>

lemma assign_all:
  "ok m \<Longrightarrow> ok (fold (\<lambda>(k, v). assign k v) xs m) \<and>
     lookup (fold (\<lambda>(k, v). assign k v) xs m) = lookup m ++ map_of (rev xs)"
proof (induction xs arbitrary: m)
  case (Cons x xs)
  then show ?case
    by (cases x) (simp add: ok_assign lookup_assign map_add_upd_left map_add_def fun_eq_iff
        split: option.splits)
qed simp

lemma emplace_all:
  "ok m \<Longrightarrow> ok (fold (\<lambda>(k, v). emplace k v) xs m) \<and>
     lookup (fold (\<lambda>(k, v). emplace k v) xs m) = map_of xs ++ lookup m"
proof (induction xs arbitrary: m)
  case (Cons x xs)
  then show ?case
    by (cases x) (auto simp: ok_emplace lookup_emplace map_add_def fun_eq_iff split: option.splits)
qed simp

text \<open>A list of edits, each of which sets a key or removes it.\<close>

lemma edit_all:
  "ok m \<Longrightarrow>
     ok (fold (\<lambda>(k, ov) m. case ov of Some v \<Rightarrow> assign k v m | None \<Rightarrow> erase k m) ops m) \<and>
     lookup (fold (\<lambda>(k, ov) m. case ov of Some v \<Rightarrow> assign k v m | None \<Rightarrow> erase k m) ops m) =
       fold (\<lambda>(k, ov) f. f(k := ov)) ops (lookup m)"
proof (induction ops arbitrary: m)
  case (Cons x ops)
  obtain k ov where "x = (k, ov)" by (cases x)
  with Cons show ?case
    by (cases ov) (simp_all add: ok_assign ok_erase lookup_assign lookup_erase)
qed simp

end

section \<open>std::map\<close>

type_synonym ('k, 'v) omap = "('k \<times> 'v) list"

definition omap_ok :: "('k::linorder, 'v) omap \<Rightarrow> bool" where
  "omap_ok m \<longleftrightarrow> sorted_wrt (<) (map fst m)"

fun omap_assign :: "'k::linorder \<Rightarrow> 'v \<Rightarrow> ('k, 'v) omap \<Rightarrow> ('k, 'v) omap" where
  "omap_assign k v [] = [(k, v)]"
| "omap_assign k v ((a, b) # m) =
     (if a < k then (a, b) # omap_assign k v m
      else if a = k then (k, v) # m else (k, v) # (a, b) # m)"

definition omap_emplace :: "'k::linorder \<Rightarrow> 'v \<Rightarrow> ('k, 'v) omap \<Rightarrow> ('k, 'v) omap" where
  "omap_emplace k v m = (case map_of m k of None \<Rightarrow> omap_assign k v m | Some _ \<Rightarrow> m)"

definition omap_erase :: "'k::linorder \<Rightarrow> ('k, 'v) omap \<Rightarrow> ('k, 'v) omap" where
  "omap_erase k m = filter (\<lambda>p. fst p \<noteq> k) m"

definition omap_of_list :: "('k::linorder \<times> 'v) list \<Rightarrow> ('k, 'v) omap" where
  "omap_of_list xs = fold (\<lambda>(k, v). omap_emplace k v) xs []"

lemma omap_ok_Nil [simp]: "omap_ok []"
  by (simp add: omap_ok_def)

lemma omap_ok_Cons: "omap_ok ((a, b) # m) \<longleftrightarrow> (\<forall>k \<in> fst ` set m. a < k) \<and> omap_ok m"
  by (auto simp: omap_ok_def)

lemma fst_omap_assign: "fst ` set (omap_assign k v m) = insert k (fst ` set m)"
  by (induction k v m rule: omap_assign.induct) auto

lemma omap_ok_assign: "omap_ok m \<Longrightarrow> omap_ok (omap_assign k v m)"
  by (induction k v m rule: omap_assign.induct) (auto simp: omap_ok_Cons fst_omap_assign)

lemma map_of_omap_assign: "map_of (omap_assign k v m) = (map_of m)(k \<mapsto> v)"
  by (induction k v m rule: omap_assign.induct) auto

lemma map_of_omap_erase: "map_of (omap_erase k m) = (map_of m)(k := None)"
  by (induction m) (auto simp: omap_erase_def)

lemma omap_ok_erase: "omap_ok m \<Longrightarrow> omap_ok (omap_erase k m)"
  by (induction m) (auto simp: omap_erase_def omap_ok_def)

lemma omap_distinct: "omap_ok m \<Longrightarrow> distinct (map fst m)"
  using strict_sorted_iff by (auto simp: omap_ok_def)

interpretation omap: cpp_map map_of omap_assign omap_emplace omap_erase omap_ok
  by unfold_locales
    (auto simp: map_of_omap_assign map_of_omap_erase omap_ok_assign omap_ok_erase
      omap_emplace_def split: option.splits)

text \<open>A sorted list is determined by its lookup function.\<close>

lemma omap_ext:
  assumes "omap_ok m" and "omap_ok m'" and "map_of m = map_of m'"
  shows "m = m'"
proof -
  have keys: "map fst m = map fst m'"
    using assms by (intro strict_sorted_equal) (auto simp: omap_ok_def simp flip: dom_map_of_conv_image_fst)
  have "m = map (\<lambda>k. (k, the (map_of m k))) (map fst m)" if "omap_ok m" for m :: "('a, 'b) omap"
  proof -
    have "map (\<lambda>p. (fst p, the (map_of m (fst p)))) m = m"
      using omap_distinct [OF that] by (intro map_idI) auto
    then show ?thesis by (simp add: comp_def)
  qed
  with assms keys show ?thesis by metis
qed

lemma omap_of_list_ok: "omap_ok (omap_of_list xs)"
  and map_of_omap_of_list: "map_of (omap_of_list xs) = map_of xs"
  using omap.emplace_all [of "[]" xs] by (simp_all add: omap_of_list_def)

lemma omap_of_list_id: "omap_ok xs \<Longrightarrow> omap_of_list xs = xs"
  by (intro omap_ext) (simp_all add: omap_of_list_ok map_of_omap_of_list)

text \<open>Copying a map entry by entry.\<close>

lemma omap_assign_all: "omap_ok m \<Longrightarrow> fold (\<lambda>(k, v). omap_assign k v) m [] = m"
proof (rule omap_ext)
  assume ok: "omap_ok m"
  then have "map_of (rev m) = map_of m"
    by (intro map_of_perm) (simp_all add: omap_distinct rev_map [symmetric])
  then show "map_of (fold (\<lambda>(k, v). omap_assign k v) m []) = map_of m"
    using omap.assign_all [of "[]" m] by simp
  show "omap_ok (fold (\<lambda>(k, v). omap_assign k v) m [])"
    using omap.assign_all [of "[]" m] by simp
qed

text \<open>Filtering by key commutes with filling.\<close>

lemma omap_ok_filter: "omap_ok m \<Longrightarrow> omap_ok (filter P m)"
  by (induction m) (auto simp: omap_ok_def)

lemma map_of_filter_key: "map_of (filter (\<lambda>p. P (fst p)) xs) k = (if P k then map_of xs k else None)"
  by (induction xs) auto

lemma omap_of_list_filter:
  "filter (\<lambda>p. P (fst p)) (omap_of_list xs) = omap_of_list (filter (\<lambda>p. P (fst p)) xs)"
  by (intro omap_ext)
    (auto simp: omap_ok_filter omap_of_list_ok map_of_omap_of_list map_of_filter_key fun_eq_iff)

text \<open>A list that is sorted by key is what any permutation of it fills a map with.\<close>

lemma omap_of_list_sorted:
  assumes "omap_ok ys" and "mset xs = mset ys"
  shows "omap_of_list xs = ys"
proof -
  have "distinct (map fst xs)"
    using assms omap_distinct by (metis mset_eq_imp_distinct_iff mset_map)
  then show ?thesis
    using assms by (intro omap_ext) (simp_all add: omap_of_list_ok map_of_omap_of_list map_of_perm)
qed

text \<open>Two lists with distinct keys and the same elements fill a map alike.\<close>

lemma length_omap_of_list:
  assumes "distinct (map fst xs)" shows "length (omap_of_list xs) = length xs"
proof -
  have len: "length ys = card (dom (map_of ys))" if "distinct (map fst ys)" for ys :: "('k \<times> 'v) list"
    using that by (metis distinct_card dom_map_of_conv_image_fst length_map set_map)
  have "distinct (map fst (omap_of_list xs))" using omap_of_list_ok by (rule omap_distinct)
  from len [OF this] len [OF assms] show ?thesis by (simp add: map_of_omap_of_list)
qed

lemma omap_of_list_perm:
  "distinct (map fst xs) \<Longrightarrow> mset xs = mset ys \<Longrightarrow> omap_of_list xs = omap_of_list ys"
  by (intro omap_ext) (simp_all add: omap_of_list_ok map_of_omap_of_list map_of_perm)

section \<open>std::unordered_map\<close>

type_synonym ('k, 'v) umap = "('k \<times> 'v) list"

definition umap_ok :: "('k, 'v) umap \<Rightarrow> bool" where
  "umap_ok m \<longleftrightarrow> distinct (map fst m)"

definition umap_emplace :: "'k \<Rightarrow> 'v \<Rightarrow> ('k, 'v) umap \<Rightarrow> ('k, 'v) umap" where
  "umap_emplace k v m = (case map_of m k of None \<Rightarrow> m @ [(k, v)] | Some _ \<Rightarrow> m)"

definition umap_assign :: "'k \<Rightarrow> 'v \<Rightarrow> ('k, 'v) umap \<Rightarrow> ('k, 'v) umap" where
  "umap_assign k v m =
     (case map_of m k of
        None \<Rightarrow> m @ [(k, v)]
      | Some _ \<Rightarrow> map (\<lambda>p. if fst p = k then (k, v) else p) m)"

definition umap_erase :: "'k \<Rightarrow> ('k, 'v) umap \<Rightarrow> ('k, 'v) umap" where
  "umap_erase k m = filter (\<lambda>p. fst p \<noteq> k) m"

text \<open>\<^verbatim>\<open>m[k]\<close> read as a value: a missing key gives the empty string.\<close>

definition umap_get :: "('k, string) umap \<Rightarrow> 'k \<Rightarrow> string" where
  "umap_get m k = (case map_of m k of None \<Rightarrow> [] | Some v \<Rightarrow> v)"

lemma map_of_append_new: "map_of m k = None \<Longrightarrow> map_of (m @ [(k, v)]) = (map_of m)(k \<mapsto> v)"
  by (auto simp: fun_eq_iff map_add_def split: option.splits)

lemma map_of_replace:
  "map_of (map (\<lambda>p. if fst p = k then (k, v) else p) m) j =
     (if j = k then map_option (\<lambda>_. v) (map_of m k) else map_of m j)"
  by (induction m) auto

lemma map_fst_replace:
  "map fst (map (\<lambda>p. if fst p = k then (k, v) else p) m) = map fst m"
  by (induction m) auto

interpretation umap: cpp_map map_of umap_assign umap_emplace umap_erase umap_ok
proof unfold_locales
  fix m :: "('a, 'b) umap" and k v
  assume ok: "umap_ok m"
  show "map_of (umap_assign k v m) = (map_of m)(k \<mapsto> v)"
    by (auto simp: umap_assign_def map_of_append_new map_of_replace fun_eq_iff
        simp del: map_of_append split: option.splits)
  show "map_of (umap_emplace k v m) = (if map_of m k = None then (map_of m)(k \<mapsto> v) else map_of m)"
    by (auto simp: umap_emplace_def map_of_append_new simp del: map_of_append split: option.splits)
  show "map_of (umap_erase k m) = (map_of m)(k := None)"
    by (induction m) (auto simp: umap_erase_def)
  show "umap_ok (umap_assign k v m)" "umap_ok (umap_emplace k v m)"
    using ok by (auto simp: umap_ok_def umap_assign_def umap_emplace_def map_fst_replace
        map_of_eq_None_iff simp del: map_map split: option.splits)
  show "umap_ok (umap_erase k m)"
    using ok by (simp add: umap_ok_def umap_erase_def distinct_map_filter_fst)
qed

text \<open>A loop that emplaces new, distinct keys appends them.\<close>

lemma umap_emplace_new:
  "distinct (map fst xs) \<Longrightarrow> (\<And>k. k \<in> fst ` set xs \<Longrightarrow> map_of m k = None) \<Longrightarrow>
     fold (\<lambda>(k, v). umap_emplace k v) xs m = m @ xs"
proof (induction xs arbitrary: m)
  case (Cons x xs)
  obtain k v where x: "x = (k, v)" by (cases x)
  with Cons.prems have "umap_emplace k v m = m @ [x]"
    by (simp add: umap_emplace_def)
  moreover have "fold (\<lambda>(k, v). umap_emplace k v) xs (m @ [x]) = (m @ [x]) @ xs"
  proof (rule Cons.IH)
    show "distinct (map fst xs)" using Cons.prems(1) by simp
    fix j assume j: "j \<in> fst ` set xs"
    with Cons.prems x have "j \<noteq> k" "map_of m j = None" by auto
    with x show "map_of (m @ [x]) j = None" by simp
  qed
  ultimately show ?case using x by simp
qed simp

lemma umap_emplace_fresh:
  "distinct (map fst (m @ xs)) \<Longrightarrow> fold (\<lambda>(k, v). umap_emplace k v) xs m = m @ xs"
  by (rule umap_emplace_new) (auto simp: map_of_eq_None_iff)

end
