(* ===== verification/Headers.thy ===== *)
theory Headers
  imports Containers Cpp_String
begin

text \<open>
  The names of the HTTP headers (headers.h) and the header map that
  \<^verbatim>\<open>IHttpClient::Headers\<close> is.
\<close>

type_synonym headers = "(string, string) umap"

definition kHeaderPrefix :: string where "kHeaderPrefix = ''x-reduct-''"
definition kHeaderError :: string where "kHeaderError = ''x-reduct-error''"
definition kHeaderErrorPrefix :: string where "kHeaderErrorPrefix = ''x-reduct-error-''"
definition kHeaderApi :: string where "kHeaderApi = ''x-reduct-api''"
definition kHeaderQueryId :: string where "kHeaderQueryId = ''x-reduct-query-id''"
definition kHeaderTime :: string where "kHeaderTime = ''x-reduct-time''"
definition kHeaderTimePrefix :: string where "kHeaderTimePrefix = ''x-reduct-time-''"
definition kHeaderLast :: string where "kHeaderLast = ''x-reduct-last''"
definition kHeaderLabelPrefix :: string where "kHeaderLabelPrefix = ''x-reduct-label-''"
definition kHeaderEntries :: string where "kHeaderEntries = ''x-reduct-entries''"
definition kHeaderStartTs :: string where "kHeaderStartTs = ''x-reduct-start-ts''"
definition kHeaderLabels :: string where "kHeaderLabels = ''x-reduct-labels''"

lemmas header_names =
  kHeaderPrefix_def kHeaderError_def kHeaderErrorPrefix_def kHeaderApi_def kHeaderQueryId_def
  kHeaderTime_def kHeaderTimePrefix_def kHeaderLast_def kHeaderLabelPrefix_def kHeaderEntries_def
  kHeaderStartTs_def kHeaderLabels_def

text \<open>A header whose suffix starts with a digit is none of the named ones.\<close>

lemma digit_suffix_not_error:
  "s \<noteq> [] \<Longrightarrow> cis_digit (hd s) \<Longrightarrow> \<not> starts_with (kHeaderPrefix @ s) kHeaderErrorPrefix"
  by (cases s) (auto simp: header_names starts_with_def cis_digit_def code_of_def)

lemma digit_suffix_not_named:
  assumes "s \<noteq> []" and "cis_digit (hd s)"
  shows "kHeaderPrefix @ s \<noteq> kHeaderEntries" "kHeaderPrefix @ s \<noteq> kHeaderStartTs"
    "kHeaderPrefix @ s \<noteq> kHeaderLabels" "kHeaderPrefix @ s \<noteq> kHeaderLast"
  using assms by (cases s; auto simp: header_names cis_digit_def code_of_def)+

end
