(* ===== verification/Result.thy ===== *)
theory Result
  imports Cpp_Number
begin

text \<open>
  \<^verbatim>\<open>struct Error\<close> (error.h, error.cc) and \<^verbatim>\<open>struct Result\<close> (result.h): an error is a code
  (0 for success, the HTTP status, or -1 for a communication error) and a message; a result
  carries a value and an error side by side.
\<close>

record error =
  err_code :: int
  err_message :: string

definition kOk :: error where
  "kOk = \<lparr>err_code = 0, err_message = []\<rparr>"

text \<open>\<^verbatim>\<open>Error::operator bool\<close>: there is an error.\<close>

definition is_error :: "error \<Rightarrow> bool" where
  "is_error e \<longleftrightarrow> err_code e \<noteq> 0"

definition error_to_string :: "error \<Rightarrow> string" where
  "error_to_string e = ''['' @ show_int (err_code e) @ ''] '' @ err_message e"

definition mk_error :: "int \<Rightarrow> string \<Rightarrow> error" where
  "mk_error c m = \<lparr>err_code = c, err_message = m\<rparr>"

record 'a result =
  res_value :: 'a
  res_error :: error

definition ok_result :: "'a \<Rightarrow> 'a result" where
  "ok_result x = \<lparr>res_value = x, res_error = kOk\<rparr>"

definition err_result :: "'a \<Rightarrow> error \<Rightarrow> 'a result" where
  "err_result x e = \<lparr>res_value = x, res_error = e\<rparr>"

lemma is_error_simps [simp]:
  "\<not> is_error kOk" "is_error (mk_error c m) \<longleftrightarrow> c \<noteq> 0"
  by (simp_all add: is_error_def kOk_def mk_error_def)

lemma result_simps [simp]:
  "res_value (ok_result x) = x" "res_error (ok_result x) = kOk"
  "res_value (err_result x e) = x" "res_error (err_result x e) = e"
  by (simp_all add: ok_result_def err_result_def)

text \<open>The defaulted \<^verbatim>\<open>operator<=>\<close> compares the members in order.\<close>

definition error_less_eq :: "('a :: linorder) error_scheme \<Rightarrow> 'a error_scheme \<Rightarrow> bool" where
  "error_less_eq x y \<longleftrightarrow> err_code x < err_code y \<or> err_code x = err_code y \<and>
     (err_message x < err_message y \<or> err_message x = err_message y \<and> error.more x \<le> error.more y)"

instantiation error_ext :: (linorder) linorder
begin

definition less_eq_error_ext :: "'a error_scheme \<Rightarrow> 'a error_scheme \<Rightarrow> bool" where
  "x \<le> y \<longleftrightarrow> error_less_eq x y"

definition less_error_ext :: "'a error_scheme \<Rightarrow> 'a error_scheme \<Rightarrow> bool" where
  "x < y \<longleftrightarrow> x \<le> y \<and> \<not> y \<le> (x :: 'a error_scheme)"

instance
  by intro_classes
    (auto simp: less_eq_error_ext_def less_error_ext_def error_less_eq_def intro: error.equality)

end

text \<open>\<^verbatim>\<open>ToString\<close> prints the code so that it can be read back from the brackets.\<close>

lemma error_to_string_code:
  "0 \<le> err_code e \<Longrightarrow>
     strto 10 (tl (error_to_string e)) = Some (False, nat (err_code e))"
  using strto_show_nat [of "''] '' @ err_message e" "nat (err_code e)"]
  by (simp add: error_to_string_def show_int_def no_digit_first_def cis_digit_def code_of_def)

end
