(* ===== verification/Batch.thy ===== *)
theory Batch
  imports Result Containers
begin

text \<open>
  \<^verbatim>\<open>class IBucket::Batch\<close> (bucket.h): the records of a request in the order they were
  added, the payloads they point to and the running byte count. A payload is shared
  (\<^verbatim>\<open>shared_ptr<const string>\<close>) and immutable, so it is modelled by its value; the counter
  \<^verbatim>\<open>size_\<close> is the \<^verbatim>\<open>uint64_t\<close> it is in the code. \<^verbatim>\<open>Slice\<close> is the reader that the HTTP client
  pulls the request body from.
\<close>

type_synonym label_map = "(string, string) omap"

record batch_record =
  br_entry :: string
  br_timestamp :: time
  br_size :: nat
  br_content_type :: string
  br_labels :: label_map
  br_data_index :: "nat option"

record batch =
  batch_records :: "batch_record list"
  batch_body :: "string list"
  batch_size :: u64

definition empty_batch :: batch where
  "empty_batch = \<lparr>batch_records = [], batch_body = [], batch_size = 0\<rparr>"

section \<open>Adding records\<close>

text \<open>The overload that takes a shared pointer; \<open>None\<close> is a null pointer.\<close>

definition add_record_shared ::
  "string \<Rightarrow> time \<Rightarrow> string option \<Rightarrow> string \<Rightarrow> label_map \<Rightarrow> batch \<Rightarrow> batch" where
  "add_record_shared entry ts data content_type labels b =
     (let d = (case data of None \<Rightarrow> [] | Some x \<Rightarrow> x);
          index = length (batch_body b);
          data_size = length d
      in b\<lparr>batch_body := batch_body b @ [d],
           batch_size := batch_size b + of_nat data_size,
           batch_records := batch_records b @
             [\<lparr>br_entry = entry, br_timestamp = ts, br_size = data_size,
               br_content_type = content_type, br_labels = labels, br_data_index = Some index\<rparr>]\<rparr>)"

definition add_record ::
  "string \<Rightarrow> time \<Rightarrow> string \<Rightarrow> string \<Rightarrow> label_map \<Rightarrow> batch \<Rightarrow> batch" where
  "add_record entry ts data content_type labels =
     add_record_shared entry ts (Some data) content_type labels"

definition add_record_at :: "time \<Rightarrow> string \<Rightarrow> string \<Rightarrow> label_map \<Rightarrow> batch \<Rightarrow> batch" where
  "add_record_at ts data content_type labels = add_record [] ts data content_type labels"

definition push_record :: "batch_record \<Rightarrow> batch \<Rightarrow> batch" where
  "push_record r b = b\<lparr>batch_records := batch_records b @ [r]\<rparr>"

definition add_empty :: "string \<Rightarrow> time \<Rightarrow> batch \<Rightarrow> batch" where
  "add_empty entry ts =
     push_record \<lparr>br_entry = entry, br_timestamp = ts, br_size = 0, br_content_type = [],
       br_labels = [], br_data_index = None\<rparr>"

definition add_empty_at :: "time \<Rightarrow> batch \<Rightarrow> batch" where
  "add_empty_at ts =
     push_record \<lparr>br_entry = [], br_timestamp = ts, br_size = 0, br_content_type = [],
       br_labels = [], br_data_index = None\<rparr>"

definition add_only_labels :: "string \<Rightarrow> time \<Rightarrow> label_map \<Rightarrow> batch \<Rightarrow> batch" where
  "add_only_labels entry ts labels =
     push_record \<lparr>br_entry = entry, br_timestamp = ts, br_size = 0, br_content_type = [],
       br_labels = labels, br_data_index = None\<rparr>"

definition add_only_labels_at :: "time \<Rightarrow> label_map \<Rightarrow> batch \<Rightarrow> batch" where
  "add_only_labels_at ts labels = add_only_labels [] ts labels"

section \<open>Slicing the body\<close>

text \<open>
  The lambda \<^verbatim>\<open>process_data\<close> with the variables it captures by reference: the offset still to
  skip, the bytes still wanted and the result so far.
\<close>

type_synonym slice_state = "nat \<times> nat \<times> string"

fun process_data :: "string \<Rightarrow> slice_state \<Rightarrow> slice_state" where
  "process_data data (offset, sz, res) =
     (if offset < length data then
        let n = min sz (length data - offset)
        in (0, sz - n, res @ substr data offset n)
      else (offset - length data, sz, res))"

primrec slice_ordered :: "batch \<Rightarrow> nat list \<Rightarrow> slice_state \<Rightarrow> string throws" where
  "slice_ordered b [] st = Inr (snd (snd st))"
| "slice_ordered b (idx # order) st =
     bind_throws (vec_at (batch_records b) idx) (\<lambda>record.
       case br_data_index record of
         None \<Rightarrow> slice_ordered b order st
       | Some di \<Rightarrow>
           bind_throws (vec_at (batch_body b) di) (\<lambda>data.
             let st' = process_data data st
             in if fst (snd st') = 0 then Inr (snd (snd st')) else slice_ordered b order st'))"

primrec slice_unordered :: "string list \<Rightarrow> slice_state \<Rightarrow> string" where
  "slice_unordered [] st = snd (snd st)"
| "slice_unordered (data # body) st =
     (let st' = process_data data st
      in if fst (snd st') = 0 then snd (snd st') else slice_unordered body st')"

definition slice :: "nat list option \<Rightarrow> batch \<Rightarrow> nat \<Rightarrow> nat \<Rightarrow> string throws" where
  "slice order b offset sz =
     (if unat (batch_size b) \<le> offset then Inr []
      else case order of
             Some idxs \<Rightarrow> slice_ordered b idxs (offset, sz, [])
           | None \<Rightarrow> Inr (slice_unordered (batch_body b) (offset, sz, [])))"

section \<open>The invariant\<close>

text \<open>
  The payload pointers of the records run through the body in order, a record's size is
  that of its payload, and the counter is the number of bytes (modulo \<open>2 ^ 64\<close>).
\<close>

definition record_ok :: "string list \<Rightarrow> batch_record \<Rightarrow> bool" where
  "record_ok body r \<longleftrightarrow>
     (case br_data_index r of
        None \<Rightarrow> br_size r = 0
      | Some i \<Rightarrow> i < length body \<and> br_size r = length (body ! i))"

definition total_bytes :: "batch \<Rightarrow> nat" where
  "total_bytes b = sum_list (map length (batch_body b))"

definition batch_ok :: "batch \<Rightarrow> bool" where
  "batch_ok b \<longleftrightarrow>
     list_all (record_ok (batch_body b)) (batch_records b) \<and>
     List.map_filter br_data_index (batch_records b) = [0..<length (batch_body b)] \<and>
     batch_size b = of_nat (total_bytes b)"

lemma record_ok_append: "record_ok body r \<Longrightarrow> record_ok (body @ ds) r"
  by (auto simp: record_ok_def nth_append split: option.splits)

lemma map_filter_append: "List.map_filter f (xs @ ys) = List.map_filter f xs @ List.map_filter f ys"
  by (induction xs) (auto simp: List.map_filter_simps split: option.splits)

lemma empty_batch_ok: "batch_ok empty_batch"
  by (simp add: batch_ok_def empty_batch_def total_bytes_def List.map_filter_simps)

lemma add_record_shared_fields [batch_simps]:
  "batch_body (add_record_shared e ts d ct ls b) =
     batch_body b @ [case d of None \<Rightarrow> [] | Some x \<Rightarrow> x]"
  "batch_size (add_record_shared e ts d ct ls b) =
     batch_size b + of_nat (length (case d of None \<Rightarrow> [] | Some x \<Rightarrow> x))"
  "batch_records (add_record_shared e ts d ct ls b) =
     batch_records b @ [\<lparr>br_entry = e, br_timestamp = ts,
       br_size = length (case d of None \<Rightarrow> [] | Some x \<Rightarrow> x), br_content_type = ct, br_labels = ls,
       br_data_index = Some (length (batch_body b))\<rparr>]"
  by (simp_all add: add_record_shared_def Let_def)

lemma push_record_fields [batch_simps]:
  "batch_body (push_record r b) = batch_body b"
  "batch_size (push_record r b) = batch_size b"
  "batch_records (push_record r b) = batch_records b @ [r]"
  by (simp_all add: push_record_def)

lemma add_record_shared_ok: "batch_ok b \<Longrightarrow> batch_ok (add_record_shared e ts d ct ls b)"
  by (auto simp: batch_ok_def batch_simps total_bytes_def map_filter_append List.map_filter_simps
      list_all_iff record_ok_append) (auto simp: record_ok_def nth_append)

lemma push_record_ok:
  "batch_ok b \<Longrightarrow> br_data_index r = None \<Longrightarrow> br_size r = 0 \<Longrightarrow> batch_ok (push_record r b)"
  by (auto simp: batch_ok_def batch_simps total_bytes_def map_filter_append List.map_filter_simps
      record_ok_def)

lemmas add_ops_defs =
  add_record_def add_record_at_def add_empty_def add_empty_at_def
  add_only_labels_def add_only_labels_at_def

text \<open>A batch is whatever a callback makes of the empty one with the public operations.\<close>

inductive built :: "batch \<Rightarrow> bool" where
  built_empty: "built empty_batch"
| built_shared: "built b \<Longrightarrow> built (add_record_shared e ts d ct ls b)"
| built_record: "built b \<Longrightarrow> built (add_record e ts data ct ls b)"
| built_record_at: "built b \<Longrightarrow> built (add_record_at ts data ct ls b)"
| built_empty_record: "built b \<Longrightarrow> built (add_empty e ts b)"
| built_empty_record_at: "built b \<Longrightarrow> built (add_empty_at ts b)"
| built_labels: "built b \<Longrightarrow> built (add_only_labels e ts ls b)"
| built_labels_at: "built b \<Longrightarrow> built (add_only_labels_at ts ls b)"

lemma built_ok: "built b \<Longrightarrow> batch_ok b"
  by (induction rule: built.induct)
    (simp_all add: empty_batch_ok add_record_shared_ok push_record_ok add_ops_defs)

section \<open>What a slice holds\<close>

definition record_payload :: "batch \<Rightarrow> batch_record \<Rightarrow> string" where
  "record_payload b r = (case br_data_index r of None \<Rightarrow> [] | Some i \<Rightarrow> batch_body b ! i)"

definition ordered_payload :: "batch \<Rightarrow> nat list \<Rightarrow> string" where
  "ordered_payload b order = concat (map (\<lambda>i. record_payload b (batch_records b ! i)) order)"

lemma record_payload_length:
  "record_ok (batch_body b) r \<Longrightarrow> length (record_payload b r) = br_size r"
  by (auto simp: record_ok_def record_payload_def split: option.splits)

text \<open>
  The step keeps the slice: what is still to be taken from the rest of the payloads,
  appended to what was taken, is the slice of the whole.
\<close>

lemma process_data_spec:
  assumes "process_data d (off, sz, res) = (off', sz', res')"
  shows "res @ take sz (drop off (d @ rest)) = res' @ take sz' (drop off' rest)"
    and "sz' = 0 \<Longrightarrow> res' = res @ take sz (drop off (d @ rest))"
  using assms by (auto simp: Let_def substr_def min_def split: if_splits)

lemma slice_ordered_spec:
  assumes "batch_ok b" and "\<forall>i \<in> set order. i < length (batch_records b)"
  shows "slice_ordered b order (off, sz, res) = Inr (res @ take sz (drop off (ordered_payload b order)))"
  using assms(2)
proof (induction order arbitrary: off sz res)
  case Nil
  then show ?case by (simp add: ordered_payload_def)
next
  case (Cons i order)
  let ?r = "batch_records b ! i"
  from Cons.prems have i: "i < length (batch_records b)" by simp
  then have r: "record_ok (batch_body b) ?r"
    using assms(1) by (simp add: batch_ok_def list_all_iff)
  show ?case
  proof (cases "br_data_index ?r")
    case None
    with i Cons show ?thesis by (simp add: ordered_payload_def record_payload_def)
  next
    case (Some di)
    with r have di: "di < length (batch_body b)" by (simp add: record_ok_def)
    let ?d = "batch_body b ! di"
    obtain off' sz' res' where st: "process_data ?d (off, sz, res) = (off', sz', res')"
      by (metis prod_cases3)
    have payload: "ordered_payload b (i # order) = ?d @ ordered_payload b order"
      using Some by (simp add: ordered_payload_def record_payload_def)
    show ?thesis
      using i di Some st Cons.IH [of off' sz' res'] Cons.prems
        process_data_spec [OF st, of "ordered_payload b order"]
      by (simp add: payload Let_def del: process_data.simps)
  qed
qed

lemma slice_unordered_spec:
  "slice_unordered body (off, sz, res) = res @ take sz (drop off (concat body))"
proof (induction body arbitrary: off sz res)
  case (Cons d body)
  obtain off' sz' res' where st: "process_data d (off, sz, res) = (off', sz', res')"
    by (metis prod_cases3)
  show ?case
    using Cons.IH [of off' sz' res'] process_data_spec [OF st, of "concat body"] st
    by (simp add: Let_def del: process_data.simps)
qed simp

lemma ordered_payload_append:
  "ordered_payload b (xs @ ys) = ordered_payload b xs @ ordered_payload b ys"
  by (simp add: ordered_payload_def)

lemma ordered_payload_length:
  assumes "batch_ok b" and "\<forall>i \<in> set order. i < length (batch_records b)"
  shows "length (ordered_payload b order) = sum_list (map (\<lambda>i. br_size (batch_records b ! i)) order)"
  using assms
  by (simp add: ordered_payload_def length_concat comp_def batch_ok_def list_all_iff
      record_payload_length cong: map_cong)

text \<open>Every payload occurs once, so an order that is a permutation carries them all.\<close>

lemma payload_in_order:
  assumes "batch_ok b"
  shows "ordered_payload b [0..<length (batch_records b)] = concat (batch_body b)"
proof -
  have "ordered_payload b [0..<length (batch_records b)] =
      concat (map (\<lambda>r. case br_data_index r of None \<Rightarrow> [] | Some i \<Rightarrow> batch_body b ! i) (batch_records b))"
    unfolding ordered_payload_def record_payload_def by (subst map_via_nth) (rule refl)
  also have "\<dots> = concat (map (\<lambda>i. batch_body b ! i) [0..<length (batch_body b)])"
    using assms by (simp add: concat_map_filter_None batch_ok_def)
  finally show ?thesis by (simp add: map_nth)
qed

lemma ordered_payload_total:
  assumes "batch_ok b" and "mset order = mset [0..<length (batch_records b)]"
  shows "length (ordered_payload b order) = total_bytes b"
proof -
  have "set order = {0..<length (batch_records b)}"
    using assms(2) by (metis mset_eq_setD set_upt)
  then have "length (ordered_payload b order) =
      sum_list (map (\<lambda>i. br_size (batch_records b ! i)) order)"
    by (intro ordered_payload_length assms(1)) simp
  also have "\<dots> = sum_list (map (\<lambda>i. br_size (batch_records b ! i)) [0..<length (batch_records b)])"
    using assms(2) by (rule sum_list_map_perm)
  also have "\<dots> = length (ordered_payload b [0..<length (batch_records b)])"
    by (intro ordered_payload_length [symmetric] assms(1)) simp
  finally show ?thesis
    using assms(1) by (simp add: payload_in_order total_bytes_def length_concat)
qed

lemma unat_batch_size:
  "batch_ok b \<Longrightarrow> total_bytes b < 2 ^ 64 \<Longrightarrow> unat (batch_size b) = total_bytes b"
  by (simp add: batch_ok_def unat_of_nat)

end
