(* ===== verification/Sort_Spec.thy ===== *)
theory Sort_Spec
  imports Prelude
begin

text \<open>
  The contract of \<^verbatim>\<open>std::sort\<close> as an interface: for a comparator that is a strict weak
  ordering the result is a sorted permutation. Nothing is said of the order of equivalent
  elements, since \<^verbatim>\<open>std::sort\<close> is not stable. The functions of the model that sort take the
  sorting routine as an argument; what they promise holds for every routine that meets the
  contract. Insertion sort meets it and is what the witnesses evaluate.
\<close>

definition strict_weak_order :: "('a \<Rightarrow> 'a \<Rightarrow> bool) \<Rightarrow> bool" where
  "strict_weak_order lt \<longleftrightarrow>
     (\<forall>x. \<not> lt x x) \<and> (\<forall>x y z. lt x y \<longrightarrow> lt y z \<longrightarrow> lt x z) \<and>
     (\<forall>x y z. lt x z \<longrightarrow> lt x y \<or> lt y z)"

text \<open>A comparator that compares a key by a linear order is one.\<close>

lemma strict_weak_order_key: "strict_weak_order (\<lambda>x y. (f x :: 'k::linorder) < f y)"
  by (auto simp: strict_weak_order_def)

locale std_sort =
  fixes srt :: "('a \<Rightarrow> 'a \<Rightarrow> bool) \<Rightarrow> 'a list \<Rightarrow> 'a list"
  assumes sort_perm: "strict_weak_order lt \<Longrightarrow> mset (srt lt xs) = mset xs"
    and sort_sorted: "strict_weak_order lt \<Longrightarrow> sorted_wrt (\<lambda>x y. \<not> lt y x) (srt lt xs)"
begin

lemma sort_set: "strict_weak_order lt \<Longrightarrow> set (srt lt xs) = set xs"
  by (metis sort_perm set_mset_mset)

lemma sort_length: "strict_weak_order lt \<Longrightarrow> length (srt lt xs) = length xs"
  by (metis sort_perm size_mset)

lemma sort_distinct: "strict_weak_order lt \<Longrightarrow> distinct (srt lt xs) = distinct xs"
  by (metis sort_perm mset_eq_imp_distinct_iff)

end

text \<open>Two sorted permutations agree when the comparator tells all the elements apart.\<close>

definition separates :: "('a \<Rightarrow> 'a \<Rightarrow> bool) \<Rightarrow> 'a set \<Rightarrow> bool" where
  "separates lt A \<longleftrightarrow> (\<forall>x \<in> A. \<forall>y \<in> A. x \<noteq> y \<longrightarrow> lt x y \<or> lt y x)"

lemma sorted_perm_unique:
  assumes "strict_weak_order lt" and "separates lt (set xs)"
    and "mset xs = mset ys"
    and "sorted_wrt (\<lambda>x y. \<not> lt y x) xs" and "sorted_wrt (\<lambda>x y. \<not> lt y x) ys"
  shows "xs = ys"
  using assms
proof (induction xs arbitrary: ys)
  case Nil
  then show ?case by simp
next
  case (Cons x xs)
  from Cons.prems(3) obtain y ys' where ys: "ys = y # ys'"
    by (cases ys) auto
  have "x = y"
  proof (rule ccontr)
    assume "x \<noteq> y"
    with Cons.prems(3) ys have "y \<in> set xs" "x \<in> set ys'"
      by (metis list.set_intros(1) mset_eq_setD set_ConsD)+
    with Cons.prems(4,5) ys have "\<not> lt y x" "\<not> lt x y" by auto
    with \<open>y \<in> set xs\<close> \<open>x \<noteq> y\<close> Cons.prems(2) show False by (auto simp: separates_def)
  qed
  with Cons.prems ys have "xs = ys'"
    by (intro Cons.IH) (auto simp: separates_def)
  with ys \<open>x = y\<close> show ?case by simp
qed

lemma std_sort_unique:
  assumes "std_sort s" and "std_sort t" and "strict_weak_order lt"
    and "separates lt (set xs)" and "mset xs = mset ys"
  shows "s lt xs = t lt ys"
proof (rule sorted_perm_unique [OF assms(3)])
  show "separates lt (set (s lt xs))"
    using assms by (simp add: std_sort.sort_set)
  show "mset (s lt xs) = mset (t lt ys)"
    using assms by (simp add: std_sort.sort_perm)
  show "sorted_wrt (\<lambda>x y. \<not> lt y x) (s lt xs)" "sorted_wrt (\<lambda>x y. \<not> lt y x) (t lt ys)"
    using assms by (simp_all add: std_sort.sort_sorted)
qed

lemma sorted_wrt_separates: "sorted_wrt lt xs \<Longrightarrow> separates lt (set xs)"
  by (induction xs) (auto simp: separates_def)

text \<open>A strictly sorted list is what any sorting routine makes of its permutations.\<close>

lemma std_sort_strictly_sorted:
  assumes "std_sort s" and "strict_weak_order lt" and "sorted_wrt lt ys" and "mset xs = mset ys"
  shows "s lt xs = ys"
proof (rule sorted_perm_unique [OF assms(2)])
  have "set (s lt xs) = set ys"
    using assms by (metis std_sort.sort_set mset_eq_setD)
  then show "separates lt (set (s lt xs))"
    using sorted_wrt_separates [OF assms(3)] by simp
  show "mset (s lt xs) = mset ys"
    using assms by (simp add: std_sort.sort_perm)
  show "sorted_wrt (\<lambda>x y. \<not> lt y x) (s lt xs)"
    using assms by (simp add: std_sort.sort_sorted)
  show "sorted_wrt (\<lambda>x y. \<not> lt y x) ys"
    using assms(2,3) unfolding strict_weak_order_def
    by (elim sorted_wrt_mono_rel [rotated]) blast
qed

section \<open>Insertion sort meets the contract\<close>

fun insert_by :: "('a \<Rightarrow> 'a \<Rightarrow> bool) \<Rightarrow> 'a \<Rightarrow> 'a list \<Rightarrow> 'a list" where
  "insert_by lt x [] = [x]"
| "insert_by lt x (y # ys) = (if lt y x then y # insert_by lt x ys else x # y # ys)"

fun isort :: "('a \<Rightarrow> 'a \<Rightarrow> bool) \<Rightarrow> 'a list \<Rightarrow> 'a list" where
  "isort lt [] = []"
| "isort lt (x # xs) = insert_by lt x (isort lt xs)"

lemma mset_insert_by: "mset (insert_by lt x ys) = add_mset x (mset ys)"
  by (induction ys) auto

lemma set_insert_by: "set (insert_by lt x ys) = insert x (set ys)"
  by (induction ys) auto

lemma sorted_insert_by:
  assumes "strict_weak_order lt" and "sorted_wrt (\<lambda>x y. \<not> lt y x) ys"
  shows "sorted_wrt (\<lambda>x y. \<not> lt y x) (insert_by lt x ys)"
  using assms(2)
proof (induction ys)
  case (Cons y ys)
  then show ?case
    using assms(1) unfolding strict_weak_order_def
    by (simp add: set_insert_by) blast
qed simp

interpretation isort: std_sort isort
proof unfold_locales
  fix lt :: "'a \<Rightarrow> 'a \<Rightarrow> bool" and xs
  show "mset (isort lt xs) = mset xs"
    by (induction xs) (auto simp: mset_insert_by)
  assume "strict_weak_order lt"
  then show "sorted_wrt (\<lambda>x y. \<not> lt y x) (isort lt xs)"
    by (induction xs) (auto simp: sorted_insert_by)
qed

end
