(* ===== verification/Records.thy ===== *)
theory Records
  imports Batch Sort_Spec
begin

text \<open>
  The helpers that both batch protocols use (the first part of batch_v1.cc): the conversions
  between a time point and microseconds, the entry a record goes to, the text of a label
  map, and the order in which the records of a batch are sent.
\<close>

section \<open>Time points\<close>

text \<open>
  \<^verbatim>\<open>duration_cast\<close> truncates towards zero. \<^verbatim>\<open>Time() + microseconds(n)\<close> reads the unsigned
  number as signed and scales it to nanoseconds; where that overflows, which C++ leaves
  undefined, the value wraps as it does on the targets.
\<close>

definition to_microseconds :: "time \<Rightarrow> int" where
  "to_microseconds ts = trunc_div ts 1000"

definition time_of_us :: "int \<Rightarrow> time" where
  "time_of_us n = int64 (int64 n * 1000)"

definition from_microseconds :: "string \<Rightarrow> time throws" where
  "from_microseconds s = bind_throws (stoul s) (\<lambda>u. Inr (time_of_us (uint u)))"

text \<open>A time point that microseconds can represent.\<close>

definition us_time :: "time \<Rightarrow> bool" where
  "us_time ts \<longleftrightarrow> is_int64 ts \<and> 1000 dvd ts"

definition us_word :: "time \<Rightarrow> u64" where
  "us_word ts = word_of_int (to_microseconds ts)"

lemma to_microseconds_mult [simp]: "to_microseconds (n * 1000) = n"
  by (simp add: to_microseconds_def trunc_div_mult)

lemma time_of_us_word: "us_time ts \<Longrightarrow> time_of_us (uint (us_word ts)) = ts"
proof -
  assume "us_time ts"
  then obtain n where n: "ts = n * 1000" and "is_int64 ts"
    by (auto simp: us_time_def mult.commute)
  then have "is_int64 n" by (auto simp: is_int64_def)
  with n \<open>is_int64 ts\<close> show ?thesis
    by (simp add: time_of_us_def us_word_def int64_uint_of_int int64_id)
qed

lemma us_word_less:
  assumes "us_time x" and "us_time y" and "0 \<le> x" and "x < y"
  shows "us_word x < us_word y"
proof -
  from assms obtain m n where mn: "x = m * 1000" "y = n * 1000"
    by (auto simp: us_time_def dvd_def mult.commute)
  with assms have "0 \<le> m" "m < n" "n < 2 ^ 64"
    by (auto simp: us_time_def is_int64_def)
  with mn show ?thesis
    by (simp add: us_word_def word_less_def uint_word_of_int)
qed

lemma unat_us_word: "is_int64 ts \<Longrightarrow> 0 \<le> ts \<Longrightarrow> unat (us_word ts) = nat (to_microseconds ts)"
proof -
  assume ts: "is_int64 ts" "0 \<le> ts"
  then have "0 \<le> ts div 1000" "ts div 1000 < 2 ^ 64"
    by (auto simp: is_int64_def)
  then have "uint (word_of_int (ts div 1000) :: u64) = ts div 1000"
    by (simp add: uint_word_of_int)
  with ts show ?thesis
    by (simp add: us_word_def to_microseconds_def trunc_div_nonneg unat_eq_nat_uint)
qed

lemma from_microseconds_show:
  "from_microseconds (show_nat (unat (w :: u64))) = Inr (time_of_us (uint w))"
  by (simp add: from_microseconds_def stoul_show_u64)

section \<open>Entries and labels\<close>

definition record_entry :: "batch_record \<Rightarrow> string \<Rightarrow> string" where
  "record_entry r default_entry = (if br_entry r = [] then default_entry else br_entry r)"

definition format_label :: "string \<times> string \<Rightarrow> string" where
  "format_label kv =
     (case kv of (key, v) \<Rightarrow>
        let v' = (if find_char (CHR '','') v \<noteq> None then [CHR 0x22] @ v @ [CHR 0x22] else v)
        in key @ ''='' @ v')"

definition format_labels :: "label_map \<Rightarrow> string" where
  "format_labels labels = join '','' (map format_label labels)"

lemma format_labels_Nil [simp]: "format_labels [] = []"
  by (simp add: format_labels_def)

lemma format_label_not_Nil [simp]: "format_label kv \<noteq> []"
  by (cases kv) (simp add: format_label_def)

lemma format_labels_eq_Nil [simp]: "format_labels ls = [] \<longleftrightarrow> ls = []"
  by (cases ls) (simp_all add: format_labels_def join_Cons)

section \<open>The order of the records\<close>

text \<open>The comparator of \<^verbatim>\<open>SortRecords\<close>, on indices into the records.\<close>

definition record_less :: "batch \<Rightarrow> string \<Rightarrow> bool \<Rightarrow> nat \<Rightarrow> nat \<Rightarrow> bool" where
  "record_less b default_entry sort_by_entry lhs rhs =
     (let left = batch_records b ! lhs;
          right = batch_records b ! rhs;
          left_entry = record_entry left default_entry;
          right_entry = record_entry right default_entry
      in if sort_by_entry \<and> left_entry \<noteq> right_entry then left_entry < right_entry
         else if br_timestamp left = br_timestamp right then left_entry < right_entry
         else br_timestamp left < br_timestamp right)"

definition sort_records ::
  "((nat \<Rightarrow> nat \<Rightarrow> bool) \<Rightarrow> nat list \<Rightarrow> nat list) \<Rightarrow> batch \<Rightarrow> string \<Rightarrow> bool \<Rightarrow> nat list" where
  "sort_records srt b default_entry sort_by_entry =
     srt (record_less b default_entry sort_by_entry) [0..<length (batch_records b)]"

text \<open>The comparator is a strict weak ordering, which \<^verbatim>\<open>std::sort\<close> requires.\<close>

lemma record_less_order: "strict_weak_order (record_less b d by_entry)"
  unfolding strict_weak_order_def record_less_def Let_def
  by (intro conjI allI impI) (auto split: if_splits)

lemma sort_records_perm:
  "std_sort srt \<Longrightarrow> mset (sort_records srt b d by_entry) = mset [0..<length (batch_records b)]"
  by (simp only: sort_records_def std_sort.sort_perm [OF _ record_less_order])

lemma sort_records_set:
  "std_sort srt \<Longrightarrow> set (sort_records srt b d by_entry) = {0..<length (batch_records b)}"
  by (metis sort_records_perm mset_eq_setD set_upt)

lemma sort_records_valid:
  "std_sort srt \<Longrightarrow> \<forall>i \<in> set (sort_records srt b d by_entry). i < length (batch_records b)"
  by (simp add: sort_records_set)

lemma sort_records_sorted:
  "std_sort srt \<Longrightarrow>
     sorted_wrt (\<lambda>i j. \<not> record_less b d by_entry j i) (sort_records srt b d by_entry)"
  by (simp only: sort_records_def std_sort.sort_sorted [OF _ record_less_order])

lemma sort_records_Nil:
  "std_sort srt \<Longrightarrow> sort_records srt b d by_entry = [] \<longleftrightarrow> batch_records b = []"
  by (metis sort_records_set atLeastLessThan_empty_iff2 length_0_conv not_gr_zero set_empty2)

text \<open>The sorted records carry the whole body.\<close>

lemma sort_records_payload_length:
  "std_sort srt \<Longrightarrow> batch_ok b \<Longrightarrow>
     length (ordered_payload b (sort_records srt b d by_entry)) = total_bytes b"
  by (intro ordered_payload_total sort_records_perm)

lemma slice_sorted:
  assumes "std_sort srt" and "batch_ok b" and "total_bytes b < 2 ^ 64"
  shows "slice (Some (sort_records srt b d by_entry)) b off sz =
    Inr (take sz (drop off (ordered_payload b (sort_records srt b d by_entry))))"
proof (cases "total_bytes b \<le> off")
  case True
  with assms show ?thesis
    by (simp add: slice_def unat_batch_size sort_records_payload_length)
next
  case False
  with assms show ?thesis
    by (simp add: slice_def unat_batch_size slice_ordered_spec sort_records_valid)
qed

end
