(* ===== verification/Readable.thy ===== *)
theory Readable
  imports Records
begin

text \<open>
  \<^verbatim>\<open>struct IBucket::ReadableRecord\<close> (bucket.h): the metadata of a received record and the
  function that receives its content. The function is a closure over the shared queue of
  chunks; the model keeps what it captures by value, and the theory Reader gives its steps.
\<close>

datatype read_fn =
    Read_batched_v1 int bool   \<comment> \<open>the \<^verbatim>\<open>long long\<close> size and the head flag\<close>
  | Read_batched_v2 u64 bool   \<comment> \<open>the content length and the head flag\<close>
  | Read_single bool           \<comment> \<open>the head flag\<close>

record readable_record =
  rr_entry :: string
  rr_timestamp :: time
  rr_size :: u64
  rr_last :: bool
  rr_labels :: label_map
  rr_content_type :: string
  rr_read :: read_fn

text \<open>\<^verbatim>\<open>records.back().last = true\<close> on a vector that is not empty.\<close>

definition set_back_last :: "readable_record list \<Rightarrow> readable_record list" where
  "set_back_last rs = butlast rs @ [(last rs)\<lparr>rr_last := True\<rparr>]"

lemma length_set_back_last: "rs \<noteq> [] \<Longrightarrow> length (set_back_last rs) = length rs"
  by (simp add: set_back_last_def)

text \<open>The list whose last record is marked when the server says that no other follows.\<close>

definition mark_last :: "bool \<Rightarrow> readable_record list \<Rightarrow> readable_record list" where
  "mark_last flag rs = (if flag \<and> rs \<noteq> [] then set_back_last rs else rs)"

lemma mark_last_reads: "map rr_read (mark_last flag rs) = map rr_read rs"
proof (cases "rs = []")
  case False
  then have "map rr_read rs = map rr_read (butlast rs) @ [rr_read (last rs)]"
    by (metis append_butlast_last_id list.simps(8,9) map_append)
  then show ?thesis by (simp add: mark_last_def set_back_last_def)
qed (simp add: mark_last_def)

lemma length_mark_last [simp]: "length (mark_last flag rs) = length rs"
  by (simp add: mark_last_def length_set_back_last)

lemma mark_last_False [simp]: "mark_last False rs = rs"
  by (simp add: mark_last_def)

lemma last_mark_last: "rs \<noteq> [] \<Longrightarrow> rr_last (last (mark_last True rs))"
  by (simp add: mark_last_def set_back_last_def)

end
