(* ===== verification/Batch_V2_Parse.thy ===== *)
theory Batch_V2_Parse
  imports Entry_Codec Headers Readable
begin

text \<open>
  The receiving half of batch protocol v2 (batch_v2.cc): label deltas, record headers that
  inherit from the previous record of the same entry, and the records of a response in the
  order of their entry index and time.
\<close>

section \<open>Header names\<close>

definition parse_batched_header_name_v2 :: "string \<Rightarrow> (u64 \<times> u64) option" where
  "parse_batched_header_name_v2 name =
     (if \<not> starts_with name kHeaderPrefix \<or> starts_with name kHeaderErrorPrefix then None
      else
        let suffix = substr_from name (length kHeaderPrefix)
        in case rfind_char (CHR ''-'') suffix of
             None \<Rightarrow> None
           | Some dash \<Rightarrow>
               let entry_str = substr suffix 0 dash;
                   delta_str = substr_from suffix (dash + 1)
               in case stoul entry_str of
                    Inl e \<Rightarrow> None
                  | Inr entry_idx \<Rightarrow>
                      (case stoull delta_str of
                         Inl e \<Rightarrow> None
                       | Inr delta \<Rightarrow> Some (entry_idx, delta)))"

section \<open>Label deltas\<close>

text \<open>A key of digits is an index into the label names, when it is in range.\<close>

definition resolve_label_key :: "string list option \<Rightarrow> string \<Rightarrow> string throws" where
  "resolve_label_key label_names key =
     (case label_names of
        None \<Rightarrow> Inr key
      | Some names \<Rightarrow>
          if key \<noteq> [] \<and> list_all cis_digit key then
            bind_throws (stoul key) (\<lambda>idx.
              if unat idx < length names then vec_at names (unat idx) else Inr key)
          else Inr key)"

text \<open>
  The value after the equals sign and what follows it: a quoted value ends at the next
  quote (\<open>None\<close>, the \<^verbatim>\<open>break\<close>, when there is none), an unquoted one at the next comma; an
  unquoted value that is blank asks for the label's removal.
\<close>

definition label_value :: "string \<Rightarrow> (string option \<times> string) option" where
  "label_value s =
     (if s \<noteq> [] \<and> hd s = CHR 0x22 then
        case find_char (CHR 0x22) (tl s) of
          None \<Rightarrow> None
        | Some quote \<Rightarrow> Some (Some (take quote (tl s)), drop (quote + 1) (tl s))
      else
        let comma = find_char (CHR '','') s;
            slice = (case comma of None \<Rightarrow> s | Some c \<Rightarrow> take c s);
            trimmed = trim slice
        in Some (if trimmed = [] then None else Some trimmed,
                 case comma of None \<Rightarrow> [] | Some c \<Rightarrow> drop c s))"

definition skip_separator :: "string \<Rightarrow> string" where
  "skip_separator s = dropWhile cis_space (if s \<noteq> [] \<and> hd s = CHR '','' then tl s else s)"

lemma label_value_length: "label_value s = Some (v, rest) \<Longrightarrow> length rest \<le> length s"
  by (auto simp: label_value_def Let_def split: if_splits option.splits)

lemma skip_separator_length: "length (skip_separator s) \<le> length s"
  unfolding skip_separator_def by (rule order_trans [OF length_dropWhile_le]) simp

text \<open>The loop, on the text from the position \<^verbatim>\<open>pos\<close> on.\<close>

function parse_label_delta_ops ::
  "string list option \<Rightarrow> string \<Rightarrow> (string \<times> string option) list throws" where
  "parse_label_delta_ops label_names raw =
     (if raw = [] then Inr []
      else case find_char (CHR ''='') raw of
          None \<Rightarrow> Inr []
        | Some eq \<Rightarrow>
            bind_throws (resolve_label_key label_names (trim (take eq raw))) (\<lambda>key.
              case label_value (drop (eq + 1) raw) of
                None \<Rightarrow> Inr []
              | Some (v, rest) \<Rightarrow>
                  bind_throws (parse_label_delta_ops label_names (skip_separator rest)) (\<lambda>ops.
                    Inr ((key, v) # ops))))"
  by pat_completeness auto
termination
proof (relation "measure (\<lambda>(names, raw). length raw)", goal_cases)
  case (2 label_names raw eq key p v rest)
  then have "length (skip_separator rest) \<le> length (drop (eq + 1) raw)"
    using skip_separator_length [of rest] label_value_length [of "drop (eq + 1) raw" v rest] by simp
  moreover have "eq < length raw" using 2 find_char_Some_less by blast
  ultimately show ?case by simp
qed simp

declare parse_label_delta_ops.simps [simp del]

definition apply_label_op :: "string \<times> string option \<Rightarrow> label_map \<Rightarrow> label_map" where
  "apply_label_op op labels =
     (case op of (key, v) \<Rightarrow>
        case v of Some x \<Rightarrow> omap_assign key x labels | None \<Rightarrow> omap_erase key labels)"

definition apply_label_delta ::
  "string \<Rightarrow> label_map \<Rightarrow> string list option \<Rightarrow> label_map throws" where
  "apply_label_delta raw base label_names =
     bind_throws (parse_label_delta_ops label_names raw) (\<lambda>ops. Inr (fold apply_label_op ops base))"

section \<open>Record headers\<close>

record record_header =
  rh_content_length :: u64
  rh_content_type :: string
  rh_labels :: label_map

definition parse_record_header_v2 ::
  "string \<Rightarrow> record_header option \<Rightarrow> string list option \<Rightarrow> record_header option throws" where
  "parse_record_header_v2 raw previous label_names =
     (let first_comma = find_char (CHR '','') raw;
          length_str = trim (case first_comma of None \<Rightarrow> raw | Some c \<Rightarrow> substr raw 0 c)
      in if length_str = [] then Inr None
         else case stoull length_str of
             Inl e \<Rightarrow> Inr None
           | Inr content_length \<Rightarrow>
               let (content_type, labels_raw) =
                     (case first_comma of
                        None \<Rightarrow> ([], None)
                      | Some c \<Rightarrow>
                          let rest = substr_from raw (c + 1)
                          in case find_char (CHR '','') rest of
                               None \<Rightarrow> (trim rest, None)
                             | Some c2 \<Rightarrow> (trim (substr rest 0 c2), Some (substr_from rest (c2 + 1))));
                   content_type' =
                     (if content_type = [] then
                        case previous of
                          Some p \<Rightarrow> rh_content_type p
                        | None \<Rightarrow> ''application/octet-stream''
                      else content_type);
                   labels = (case previous of Some p \<Rightarrow> rh_labels p | None \<Rightarrow> [])
               in bind_throws
                    (case labels_raw of
                       None \<Rightarrow> Inr labels
                     | Some lr \<Rightarrow> apply_label_delta lr labels label_names)
                    (\<lambda>labels'. Inr (Some \<lparr>rh_content_length = content_length,
                       rh_content_type = content_type', rh_labels = labels'\<rparr>)))"

section \<open>The records of a response\<close>

type_synonym parsed_header = "u64 \<times> u64 \<times> string"

definition parsed_header_less :: "parsed_header \<Rightarrow> parsed_header \<Rightarrow> bool" where
  "parsed_header_less lhs rhs =
     (if fst lhs = fst rhs then fst (snd lhs) < fst (snd rhs) else fst lhs < fst rhs)"

definition parse_header_names :: "headers \<Rightarrow> parsed_header list" where
  "parse_header_names hs =
     List.map_filter (\<lambda>(key, v).
       case parse_batched_header_name_v2 key of
         None \<Rightarrow> None
       | Some (entry_idx, delta) \<Rightarrow> Some (entry_idx, delta, v)) hs"

definition make_record_v2 :: "bool \<Rightarrow> string \<Rightarrow> u64 \<Rightarrow> record_header \<Rightarrow> readable_record" where
  "make_record_v2 head entry ts h =
     \<lparr>rr_entry = entry, rr_timestamp = time_of_us (uint ts), rr_size = rh_content_length h,
      rr_last = False, rr_labels = rh_labels h, rr_content_type = rh_content_type h,
      rr_read = Read_batched_v2 (rh_content_length h) head\<rparr>"

text \<open>One iteration over the sorted headers; the state is \<^verbatim>\<open>last_header\<close> and \<^verbatim>\<open>records\<close>.\<close>

definition build_record_step ::
  "bool \<Rightarrow> string list \<Rightarrow> u64 \<Rightarrow> string list option \<Rightarrow> parsed_header \<Rightarrow>
   record_header option list \<times> readable_record list \<Rightarrow>
   (record_header option list \<times> readable_record list) throws" where
  "build_record_step head entries start_ts label_names ph st =
     (case ph of (entry_idx, delta, v) \<Rightarrow> case st of (last_header, records) \<Rightarrow>
        let i = unat entry_idx
        in if length entries \<le> i then Inr st
           else bind_throws (parse_record_header_v2 v (last_header ! i) label_names) (\<lambda>header.
             case header of
               None \<Rightarrow> Inr st
             | Some h \<Rightarrow>
                 Inr (last_header[i := Some h],
                      records @ [make_record_v2 head (entries ! i) (start_ts + delta) h])))"

definition parse_and_build_batched_records_v2 ::
  "((parsed_header \<Rightarrow> parsed_header \<Rightarrow> bool) \<Rightarrow> parsed_header list \<Rightarrow> parsed_header list) \<Rightarrow>
   bool \<Rightarrow> headers \<Rightarrow> readable_record list throws" where
  "parse_and_build_batched_records_v2 srt head hs =
     (case (map_of hs kHeaderEntries, map_of hs kHeaderStartTs) of
        (Some entries_raw, Some start_ts_raw) \<Rightarrow>
          let entries = parse_encoded_list entries_raw
          in if entries = [] then Inr []
             else case stoull start_ts_raw of
                 Inl e \<Rightarrow> Inr []
               | Inr start_ts \<Rightarrow>
                   let label_names = map_option parse_encoded_list (map_of hs kHeaderLabels);
                       parsed = srt parsed_header_less (parse_header_names hs)
                   in bind_throws
                        (fold_throws (build_record_step head entries start_ts label_names) parsed
                           (replicate (length entries) None, []))
                        (\<lambda>(last_header, records).
                          Inr (if records \<noteq> [] \<and> umap_get hs kHeaderLast = ''true''
                               then set_back_last records else records))
      | _ \<Rightarrow> Inr [])"

end
