(* ===== verification/Batch_Type.thy ===== *)
theory Batch_Type
  imports Result Containers
begin

text \<open>
  What both batch protocols share beyond the helpers of Records: the kind of request
  (batch_v1.h) and the map of errors by time (\<^verbatim>\<open>IBucket::BatchErrors\<close>, bucket.h).
\<close>

datatype batch_type = kWrite | kUpdate | kRemove

type_synonym batch_errors = "(time, error) omap"

end
