(* ===== verification/Batch_V2_Build.thy ===== *)
theory Batch_V2_Build
  imports Batch_V2_Parse Batch_Type
begin

text \<open>
  The sending half of batch protocol v2 (batch_v2.cc): the header of one record, and the
  request built from a batch, with the list of entries, the smallest timestamp and one
  header per record in the order in which the payloads follow each other in the body.
\<close>

section \<open>The request\<close>

definition build_header_value_v2 :: "batch_record \<Rightarrow> batch_type \<Rightarrow> string" where
  "build_header_value_v2 r type =
     (case type of
        kRemove \<Rightarrow> []
      | kUpdate \<Rightarrow>
          let labels = format_labels (br_labels r)
          in if labels = [] then ''0'' else ''0,,'' @ labels
      | kWrite \<Rightarrow>
          let labels = format_labels (br_labels r)
          in if labels = [] then show_nat (br_size r) @ '','' @ br_content_type r
             else show_nat (br_size r) @ '','' @ br_content_type r @ '','' @ labels)"

record batch_v2_request =
  bq_ordered :: "nat list"
  bq_entries :: "string list"
  bq_start_ts :: u64
  bq_headers :: headers

definition empty_request :: batch_v2_request where
  "empty_request = \<lparr>bq_ordered = [], bq_entries = [], bq_start_ts = 0, bq_headers = []\<rparr>"

text \<open>The first loop: the smallest timestamp and the entries in order of appearance.\<close>

type_synonym collect_state = "u64 \<times> (string, nat) umap \<times> string list"

primrec collect_entries ::
  "batch \<Rightarrow> string \<Rightarrow> bool \<Rightarrow> nat list \<Rightarrow> collect_state \<Rightarrow> error + collect_state" where
  "collect_entries b default_entry require_entry [] st = Inr st"
| "collect_entries b default_entry require_entry (idx # order) st =
     (let record = batch_records b ! idx;
          entry = record_entry record default_entry
      in if require_entry \<and> entry = [] then Inl (mk_error 400 ''Entry name is required'')
         else case st of (start_ts, entry_indices, entries) \<Rightarrow>
           let start_ts' = min start_ts (us_word (br_timestamp record))
           in collect_entries b default_entry require_entry order
                (case map_of entry_indices entry of
                   None \<Rightarrow> (start_ts', umap_assign entry (length entries) entry_indices, entries @ [entry])
                 | Some _ \<Rightarrow> (start_ts', entry_indices, entries)))"

definition header_key_v2 :: "nat \<Rightarrow> u64 \<Rightarrow> string" where
  "header_key_v2 entry_idx delta = kHeaderPrefix @ show_nat entry_idx @ ''-'' @ show_nat (unat delta)"

text \<open>The header of the record with index \<open>idx\<close>, the body of the second loop.\<close>

definition record_header_v2 ::
  "batch \<Rightarrow> string \<Rightarrow> batch_type \<Rightarrow> (string, nat) umap \<Rightarrow> u64 \<Rightarrow> nat \<Rightarrow> string \<times> string" where
  "record_header_v2 b default_entry type entry_indices start_ts idx =
     (let record = batch_records b ! idx;
          entry = record_entry record default_entry;
          entry_idx = (case map_of entry_indices entry of None \<Rightarrow> 0 | Some i \<Rightarrow> i);
          delta = us_word (br_timestamp record) - start_ts
      in (header_key_v2 entry_idx delta, build_header_value_v2 record type))"

definition build_batch_v2_request ::
  "((nat \<Rightarrow> nat \<Rightarrow> bool) \<Rightarrow> nat list \<Rightarrow> nat list) \<Rightarrow> string \<Rightarrow> batch \<Rightarrow> batch_type \<Rightarrow> bool \<Rightarrow>
   batch_v2_request result" where
  "build_batch_v2_request srt default_entry b type require_entry =
     (let ordered = sort_records srt b default_entry True
      in if ordered = [] then ok_result (empty_request\<lparr>bq_ordered := ordered\<rparr>)
         else case collect_entries b default_entry require_entry ordered (- 1, [], []) of
             Inl e \<Rightarrow> err_result empty_request e
           | Inr (start_ts, entry_indices, entries) \<Rightarrow>
               let h1 = umap_emplace kHeaderEntries (join '','' (map encode_entry_name entries)) [];
                   h2 = umap_emplace kHeaderStartTs (show_nat (unat start_ts)) h1;
                   hs = fold (\<lambda>idx. case record_header_v2 b default_entry type entry_indices start_ts idx
                          of (k, v) \<Rightarrow> umap_emplace k v) ordered h2
               in ok_result \<lparr>bq_ordered = ordered, bq_entries = entries, bq_start_ts = start_ts,
                    bq_headers = hs\<rparr>)"

section \<open>Labels survive the trip\<close>

text \<open>The labels that the text format can carry.\<close>

definition label_key_ok :: "string \<Rightarrow> bool" where
  "label_key_ok k \<longleftrightarrow> CHR ''='' \<notin> set k \<and> trim k = k \<and> (k = [] \<or> \<not> cis_space (hd k))"

definition label_value_ok :: "string \<Rightarrow> bool" where
  "label_value_ok v \<longleftrightarrow>
     (if CHR '','' \<in> set v then CHR 0x22 \<notin> set v
      else v \<noteq> [] \<and> trim v = v \<and> hd v \<noteq> CHR 0x22)"

definition labels_ok :: "label_map \<Rightarrow> bool" where
  "labels_ok ls \<longleftrightarrow> omap_ok ls \<and> (\<forall>(k, v) \<in> set ls. label_key_ok k \<and> label_value_ok v)"

text \<open>What a label in a header asks for: a label without a value is removed.\<close>

definition label_op :: "string \<times> string \<Rightarrow> string \<times> string option" where
  "label_op kv = (fst kv, if snd kv = [] then None else Some (snd kv))"

lemma label_value_format:
  assumes "v = [] \<or> label_value_ok v" and "rest = [] \<or> hd rest = CHR '',''"
  shows "label_value ((if CHR '','' \<in> set v then [CHR 0x22] @ v @ [CHR 0x22] else v) @ rest) =
    Some (snd (label_op (k, v)), rest)"
proof (cases "v = [] \<or> CHR '','' \<in> set v")
  case True
  with assms show ?thesis
    by (cases rest) (auto simp: label_value_def label_value_ok_def label_op_def find_char_first find_char_absent
        trim_def)
next
  case False
  with assms(1) have v: "v \<noteq> []" "trim v = v" "hd v \<noteq> CHR 0x22"
    by (simp_all add: label_value_ok_def)
  show ?thesis
  proof (cases rest)
    case Nil
    with False v show ?thesis by (simp add: label_value_def label_op_def find_char_absent)
  next
    case (Cons c cs)
    with False v assms(2) show ?thesis by (simp add: label_value_def label_op_def find_char_first Let_def)
  qed
qed

lemma skip_separator_join:
  assumes "\<forall>(k, v) \<in> set ls. label_key_ok k"
  shows "skip_separator (if ls = [] then [] else CHR '','' # join '','' (map format_label ls)) =
    join '','' (map format_label ls)"
proof (cases ls)
  case Nil
  then show ?thesis by (simp add: skip_separator_def)
next
  case (Cons kv ls')
  obtain k v where kv: "kv = (k, v)" by (cases kv)
  let ?t = "join '','' (map format_label ls)"
  have "?t \<noteq> []" "hd ?t = (if k = [] then CHR ''='' else hd k)"
    using Cons kv by (simp_all add: join_Cons format_label_def)
  moreover have "\<not> cis_space (hd ?t)"
    using assms Cons kv calculation(2) by (auto simp: label_key_ok_def cis_space_def code_of_def)
  ultimately show ?thesis
    using Cons by (cases ?t) (simp_all add: skip_separator_def)
qed

lemma parse_format_labels:
  "\<forall>(k, v) \<in> set ls. label_key_ok k \<and> (v = [] \<or> label_value_ok v) \<Longrightarrow>
     parse_label_delta_ops None (format_labels ls) = Inr (map label_op ls)"
proof (induction ls)
  case Nil
  then show ?case by (simp add: parse_label_delta_ops.simps)
next
  case (Cons kv ls)
  obtain k v where kv: "kv = (k, v)" by (cases kv)
  let ?v = "if CHR '','' \<in> set v then [CHR 0x22] @ v @ [CHR 0x22] else v"
  let ?rest = "if ls = [] then [] else CHR '','' # join '','' (map format_label ls)"
  have fmt: "format_labels (kv # ls) = k @ CHR ''='' # ?v @ ?rest"
    by (simp add: kv format_labels_def join_Cons format_label_def find_char_None Let_def)
  have ok: "CHR ''='' \<notin> set k" "trim k = k" "v = [] \<or> label_value_ok v"
    using Cons.prems by (auto simp: kv label_key_ok_def)
  have "label_value (?v @ ?rest) = Some (snd (label_op (k, v)), ?rest)"
    by (rule label_value_format [OF ok(3)]) simp
  moreover have "skip_separator ?rest = format_labels ls"
    unfolding format_labels_def by (rule skip_separator_join) (use Cons.prems in auto)
  moreover have "parse_label_delta_ops None (format_labels ls) = Inr (map label_op ls)"
    using Cons by simp
  ultimately show ?case
    unfolding fmt
    by (subst parse_label_delta_ops.simps)
      (simp only: find_char_first [OF ok(1)], simp add: resolve_label_key_def ok(2) kv label_op_def)
qed

text \<open>A record's labels overwrite those it inherits.\<close>

definition merge_labels :: "label_map \<Rightarrow> label_map \<Rightarrow> label_map" where
  "merge_labels base ls = fold (\<lambda>(k, v). omap_assign k v) ls base"

lemma merge_labels_lookup:
  "omap_ok base \<Longrightarrow> omap_ok ls \<Longrightarrow> map_of (merge_labels base ls) = map_of base ++ map_of ls"
proof -
  assume "omap_ok base" "omap_ok ls"
  then have "map_of (rev ls) = map_of ls"
    by (intro map_of_perm) (simp_all add: omap_distinct rev_map [symmetric])
  with \<open>omap_ok base\<close> show ?thesis
    using omap.assign_all [of base ls] by (simp add: merge_labels_def)
qed

lemma merge_labels_ok: "omap_ok base \<Longrightarrow> omap_ok (merge_labels base ls)"
  using omap.assign_all [of base ls] by (simp add: merge_labels_def)

lemma merge_labels_empty: "omap_ok ls \<Longrightarrow> merge_labels [] ls = ls"
  by (intro omap_ext) (simp_all add: merge_labels_ok merge_labels_lookup)

lemma merge_labels_Nil [simp]: "merge_labels base [] = base"
  by (simp add: merge_labels_def)

lemma merge_labels_same_keys:
  "omap_ok base \<Longrightarrow> omap_ok ls \<Longrightarrow> fst ` set base \<subseteq> fst ` set ls \<Longrightarrow> merge_labels base ls = ls"
proof (intro omap_ext ext)
  fix k assume ok: "omap_ok base" "omap_ok ls" and sub: "fst ` set base \<subseteq> fst ` set ls"
  show "map_of (merge_labels base ls) k = map_of ls k"
  proof (cases "map_of ls k")
    case None
    with sub have "map_of base k = None" by (auto simp: map_of_eq_None_iff)
    with ok None show ?thesis by (simp add: merge_labels_lookup map_add_def)
  next
    case (Some v)
    with ok show ?thesis by (simp add: merge_labels_lookup map_add_def)
  qed
qed (simp_all add: merge_labels_ok)

text \<open>The labels of an update: those with a value are set, those without one removed.\<close>

definition label_updates_ok :: "label_map \<Rightarrow> bool" where
  "label_updates_ok ls \<longleftrightarrow> omap_ok ls \<and> (\<forall>(k, v) \<in> set ls. label_key_ok k \<and> (v = [] \<or> label_value_ok v))"

definition update_labels :: "label_map \<Rightarrow> label_map \<Rightarrow> label_map" where
  "update_labels base ls = fold apply_label_op (map label_op ls) base"

lemma apply_label_updates:
  "label_updates_ok ls \<Longrightarrow> apply_label_delta (format_labels ls) base None = Inr (update_labels base ls)"
  by (simp add: apply_label_delta_def parse_format_labels label_updates_ok_def update_labels_def)

lemma labels_ok_updates: "labels_ok ls \<Longrightarrow> label_updates_ok ls"
  by (auto simp: labels_ok_def label_updates_ok_def)

lemma update_labels_merge: "\<forall>(k, v) \<in> set ls. v \<noteq> [] \<Longrightarrow> update_labels base ls = merge_labels base ls"
  by (induction ls arbitrary: base) (auto simp: update_labels_def merge_labels_def label_op_def apply_label_op_def)

lemma apply_label_delta_format:
  assumes "labels_ok ls" shows "apply_label_delta (format_labels ls) base None = Inr (merge_labels base ls)"
proof -
  have "\<forall>(k, v) \<in> set ls. v \<noteq> []" using assms by (auto simp: labels_ok_def label_value_ok_def split: if_splits)
  then show ?thesis by (simp add: apply_label_updates labels_ok_updates [OF assms] update_labels_merge)
qed

section \<open>One record header survives the trip\<close>

definition record_text_ok :: "batch_record \<Rightarrow> bool" where
  "record_text_ok r \<longleftrightarrow> labels_ok (br_labels r) \<and> br_size r < 2 ^ 64 \<and>
     CHR '','' \<notin> set (br_content_type r) \<and> trim (br_content_type r) = br_content_type r"

text \<open>What a receiver makes of a written record after the previous one of its entry.\<close>

definition written_header :: "record_header option \<Rightarrow> batch_record \<Rightarrow> record_header" where
  "written_header prev r =
     \<lparr>rh_content_length = of_nat (br_size r),
      rh_content_type =
        (if br_content_type r = [] then
           case prev of Some p \<Rightarrow> rh_content_type p | None \<Rightarrow> ''application/octet-stream''
         else br_content_type r),
      rh_labels = merge_labels (case prev of Some p \<Rightarrow> rh_labels p | None \<Rightarrow> []) (br_labels r)\<rparr>"

lemma digit_not_blank: "cis_digit c \<Longrightarrow> \<not> is_blank c"
  by (auto simp: cis_digit_def is_blank_def code_of_def)

lemma trim_show_nat: "trim (show_nat n) = show_nat n"
  using show_nat_digits digit_not_blank by (intro trim_no_blank) blast

lemma comma_not_in_show_nat: "CHR '','' \<notin> set (show_nat n)"
  by (rule show_nat_no_char) (simp add: cis_digit_def code_of_def)

lemma parse_written_header:
  assumes "record_text_ok r"
  shows "parse_record_header_v2 (build_header_value_v2 r kWrite) prev None = Inr (Some (written_header prev r))"
proof -
  have ls: "labels_ok (br_labels r)" and sz: "br_size r < 2 ^ 64"
    and ct: "CHR '','' \<notin> set (br_content_type r)" "trim (br_content_type r) = br_content_type r"
    using assms by (simp_all add: record_text_ok_def)
  show ?thesis
  proof (cases "br_labels r = []")
    case True
    with sz ct show ?thesis
      by (simp add: build_header_value_v2_def parse_record_header_v2_def Let_def written_header_def
          find_char_first find_char_absent comma_not_in_show_nat substr_def substr_from_def
          trim_show_nat stoull_show_nat)
  next
    case False
    with sz ct ls show ?thesis
      by (simp add: build_header_value_v2_def parse_record_header_v2_def Let_def written_header_def
          find_char_first comma_not_in_show_nat substr_def substr_from_def
          trim_show_nat stoull_show_nat apply_label_delta_format)
  qed
qed

end
