(* ===== verification/Batch_V2_Roundtrip.thy ===== *)
theory Batch_V2_Roundtrip
  imports Batch_V2_Build
begin

text \<open>
  What a receiver that reads the headers of a v2 write request by the rules of the same
  protocol gets back: every record, with its entry, its time, its size and its labels, in
  the order in which the payloads follow each other in the body, whatever the iteration
  order of the header map and whichever sorting routine is used.
\<close>

section \<open>The specification\<close>

text \<open>
  The records a receiver should see, from the records in body order. \<open>prev\<close> is the last
  header seen for each entry, from which an omitted content type and the labels are inherited.
\<close>

fun delivered ::
  "bool \<Rightarrow> string \<Rightarrow> (string \<Rightarrow> record_header option) \<Rightarrow> batch_record list \<Rightarrow> readable_record list" where
  "delivered head d prev [] = []"
| "delivered head d prev (r # rs) =
     (let e = record_entry r d; h = written_header (prev e) r
      in make_record_v2 head e (us_word (br_timestamp r)) h # delivered head d (prev(e \<mapsto> h)) rs)"

text \<open>
  The batches whose records the headers can name, one by one, and those of them whose records the
  text format can carry.
\<close>

definition addressable :: "string \<Rightarrow> batch \<Rightarrow> bool" where
  "addressable d b \<longleftrightarrow>
     length (batch_records b) < 2 ^ 64 \<and>
     (\<forall>r \<in> set (batch_records b). us_time (br_timestamp r) \<and> 0 \<le> br_timestamp r \<and> entry_ok (record_entry r d)) \<and>
     distinct (map (\<lambda>r. (record_entry r d, br_timestamp r)) (batch_records b))"

definition sendable :: "string \<Rightarrow> batch \<Rightarrow> bool" where
  "sendable d b \<longleftrightarrow> addressable d b \<and> (\<forall>r \<in> set (batch_records b). record_text_ok r)"

abbreviation entry_of :: "batch \<Rightarrow> string \<Rightarrow> nat \<Rightarrow> string" where
  "entry_of b d i \<equiv> record_entry (batch_records b ! i) d"

abbreviation word_of :: "batch \<Rightarrow> nat \<Rightarrow> u64" where
  "word_of b i \<equiv> us_word (br_timestamp (batch_records b ! i))"

section \<open>Header keys\<close>

lemma header_key_parse:
  assumes "i < 2 ^ 64"
  shows "parse_batched_header_name_v2 (header_key_v2 i delta) = Some (of_nat i, delta)"
proof -
  let ?s = "show_nat i @ CHR ''-'' # show_nat (unat delta)"
  obtain c cs where c: "show_nat i = c # cs" "cis_digit c" by (rule show_nat_hd)
  then have "\<not> starts_with (kHeaderPrefix @ ?s) kHeaderErrorPrefix"
    by (intro digit_suffix_not_error) simp_all
  moreover have "CHR ''-'' \<notin> set (show_nat (unat delta))"
    by (rule show_nat_no_char) (simp add: cis_digit_def code_of_def)
  then have "rfind_char (CHR ''-'') ?s = Some (length (show_nat i))"
    by (rule rfind_char_last)
  ultimately show ?thesis
    using assms
    by (simp add: parse_batched_header_name_v2_def header_key_v2_def substr_def substr_from_def
        stoul_show_nat stoull_show_u64)
qed

lemma header_key_inj:
  "i < 2 ^ 64 \<Longrightarrow> j < 2 ^ 64 \<Longrightarrow> header_key_v2 i x = header_key_v2 j y \<Longrightarrow> i = j \<and> x = y"
  using header_key_parse [of i x] header_key_parse [of j y]
  by (metis Pair_inject option.inject of_nat_u64_inject)

lemma header_key_not_named:
  "header_key_v2 i x \<noteq> kHeaderEntries" "header_key_v2 i x \<noteq> kHeaderStartTs"
  "header_key_v2 i x \<noteq> kHeaderLabels" "header_key_v2 i x \<noteq> kHeaderLast"
proof -
  obtain c cs where c: "show_nat i = c # cs" "cis_digit c" by (rule show_nat_hd)
  then have "show_nat i @ ''-'' @ show_nat (unat x) \<noteq> []" "cis_digit (hd (show_nat i @ ''-'' @ show_nat (unat x)))"
    by simp_all
  from digit_suffix_not_named [OF this]
  show "header_key_v2 i x \<noteq> kHeaderEntries" "header_key_v2 i x \<noteq> kHeaderStartTs"
    "header_key_v2 i x \<noteq> kHeaderLabels" "header_key_v2 i x \<noteq> kHeaderLast"
    by (simp_all add: header_key_v2_def)
qed

lemma named_headers_skipped:
  "parse_batched_header_name_v2 kHeaderEntries = None"
  "parse_batched_header_name_v2 kHeaderStartTs = None"
  by (simp_all add: parse_batched_header_name_v2_def header_names starts_with_def substr_def
      substr_from_def rfind_char_def stoul_def read_unsigned_def strto_def digit_value_def char_class_simps)

section \<open>The entries of the request\<close>

definition indices_ok :: "(string, nat) umap \<Rightarrow> string list \<Rightarrow> bool" where
  "indices_ok indices es \<longleftrightarrow> umap_ok indices \<and> distinct es \<and>
     (\<forall>e i. map_of indices e = Some i \<longleftrightarrow> i < length es \<and> es ! i = e)"

lemma indices_ok_Nil: "indices_ok [] []"
  by (simp add: indices_ok_def umap_ok_def)

lemma indices_ok_lookup:
  "indices_ok indices es \<Longrightarrow> e \<in> set es \<Longrightarrow> \<exists>i. map_of indices e = Some i \<and> i < length es \<and> es ! i = e"
  by (auto simp: indices_ok_def in_set_conv_nth)

lemma indices_ok_None: "indices_ok indices es \<Longrightarrow> map_of indices e = None \<longleftrightarrow> e \<notin> set es"
  unfolding indices_ok_def in_set_conv_nth by (metis not_None_eq)

lemma indices_ok_add:
  assumes "indices_ok indices es" and "e \<notin> set es"
  shows "indices_ok (umap_assign e (length es) indices) (es @ [e])"
proof -
  have ok: "umap_ok indices" "distinct es" using assms(1) by (simp_all add: indices_ok_def)
  have "map_of (umap_assign e (length es) indices) x = Some i \<longleftrightarrow>
      i < length (es @ [e]) \<and> (es @ [e]) ! i = x" for x i
  proof (cases "x = e")
    case True
    with assms(2) show ?thesis
      by (auto simp: umap.lookup_assign [OF ok(1)] nth_append in_set_conv_nth less_Suc_eq)
  next
    case False
    with assms(1) show ?thesis
      by (auto simp: umap.lookup_assign [OF ok(1)] indices_ok_def nth_append less_Suc_eq)
  qed
  with ok assms(2) show ?thesis by (simp add: indices_ok_def umap.ok_assign)
qed

lemma collect_entries_spec:
  assumes "indices_ok indices es" and "sorted es" and "sorted (map (entry_of b d) order)"
    and "\<forall>e \<in> set es. \<forall>i \<in> set order. e \<le> entry_of b d i"
    and "\<forall>i \<in> set order. entry_of b d i \<noteq> []"
  shows "\<exists>s' indices' es'.
    collect_entries b d req order (s, indices, es) = Inr (s', indices', es') \<and>
    indices_ok indices' es' \<and> sorted es' \<and> set es' = set es \<union> entry_of b d ` set order \<and>
    length es' \<le> length es + length order \<and>
    s' \<le> s \<and> (\<forall>i \<in> set order. s' \<le> word_of b i)"
  using assms
proof (induction order arbitrary: s indices es)
  case Nil
  then show ?case by simp
next
  case (Cons i order)
  let ?e = "entry_of b d i" and ?s = "min s (word_of b i)"
  define st where "st = (case map_of indices ?e of
      None \<Rightarrow> (umap_assign ?e (length es) indices, es @ [?e]) | Some _ \<Rightarrow> (indices, es))"
  obtain indices1 es1 where st1: "st = (indices1, es1)" by (cases st)
  have unfold: "collect_entries b d req (i # order) (s, indices, es) =
      collect_entries b d req order (?s, indices1, es1)"
    using Cons.prems(5) st1 by (auto simp: st_def Let_def split: option.splits)
  have "indices_ok indices1 es1" "sorted es1" "set es1 = insert ?e (set es)" "length es1 \<le> Suc (length es)"
    using Cons.prems(1,2,4) st1 indices_ok_None [OF Cons.prems(1), of ?e]
    by (auto simp: st_def indices_ok_add sorted_append split: option.splits)
  moreover from this have "\<exists>s' indices' es'.
      collect_entries b d req order (?s, indices1, es1) = Inr (s', indices', es') \<and>
      indices_ok indices' es' \<and> sorted es' \<and> set es' = set es1 \<union> entry_of b d ` set order \<and>
      length es' \<le> length es1 + length order \<and>
      s' \<le> ?s \<and> (\<forall>i \<in> set order. s' \<le> word_of b i)"
    using Cons.prems by (intro Cons.IH) auto
  ultimately show ?case
    unfolding unfold by fastforce
qed

section \<open>The order of the headers\<close>

lemma word_diff_less: "(s :: u64) \<le> x \<Longrightarrow> s \<le> y \<Longrightarrow> x < y \<Longrightarrow> x - s < y - s"
  by (simp add: word_less_nat_alt word_le_nat_alt unat_sub)

lemma addressable_in:
  "addressable d b \<Longrightarrow> i < length (batch_records b) \<Longrightarrow>
     us_time (br_timestamp (batch_records b ! i)) \<and> 0 \<le> br_timestamp (batch_records b ! i) \<and> entry_ok (entry_of b d i)"
  by (simp add: addressable_def)

lemma sendable_addressable: "sendable d b \<Longrightarrow> addressable d b"
  by (simp add: sendable_def)

lemma sendable_in: "sendable d b \<Longrightarrow> i < length (batch_records b) \<Longrightarrow> record_text_ok (batch_records b ! i)"
  by (simp add: sendable_def)

lemma addressable_distinct:
  assumes "addressable d b" and "i < length (batch_records b)" "j < length (batch_records b)"
    and "entry_of b d i = entry_of b d j"
    and "br_timestamp (batch_records b ! i) = br_timestamp (batch_records b ! j)"
  shows "i = j"
  using assms by (auto simp: addressable_def distinct_conv_nth)

text \<open>The parsed header of a record: its entry index, its delta and its value.\<close>

definition parsed_of ::
  "batch \<Rightarrow> string \<Rightarrow> batch_type \<Rightarrow> (string, nat) umap \<Rightarrow> u64 \<Rightarrow> nat \<Rightarrow> parsed_header" where
  "parsed_of b d type indices s i =
     (of_nat (the (map_of indices (entry_of b d i))), word_of b i - s,
      build_header_value_v2 (batch_records b ! i) type)"

lemma parsed_header_less_order: "strict_weak_order parsed_header_less"
  unfolding strict_weak_order_def parsed_header_less_def by (intro conjI allI impI) (auto split: if_splits)

lemma parsed_of_less:
  assumes "addressable d b" and "indices_ok indices es" and "sorted es" and "length es < 2 ^ 64"
    and "entry_of b d i \<in> set es" "entry_of b d j \<in> set es"
    and "i < length (batch_records b)" "j < length (batch_records b)" "i \<noteq> j"
    and "s \<le> word_of b i" "s \<le> word_of b j"
    and "\<not> record_less b d True j i"
  shows "parsed_header_less (parsed_of b d type indices s i) (parsed_of b d type indices s j)"
proof -
  obtain m where m: "map_of indices (entry_of b d i) = Some m" "m < length es" "es ! m = entry_of b d i"
    using indices_ok_lookup [OF assms(2,5)] by blast
  obtain n where n: "map_of indices (entry_of b d j) = Some n" "n < length es" "es ! n = entry_of b d j"
    using indices_ok_lookup [OF assms(2,6)] by blast
  show ?thesis
  proof (cases "entry_of b d i = entry_of b d j")
    case True
    with addressable_distinct [OF assms(1,7,8)] assms(9)
    have "br_timestamp (batch_records b ! i) \<noteq> br_timestamp (batch_records b ! j)" by blast
    with True assms(12) have "br_timestamp (batch_records b ! i) < br_timestamp (batch_records b ! j)"
      by (simp add: record_less_def Let_def split: if_splits)
    then have "word_of b i < word_of b j"
      using addressable_in [OF assms(1)] assms(7,8) by (intro us_word_less) auto
    then have "word_of b i - s < word_of b j - s"
      using assms(10,11) by (intro word_diff_less)
    with True show ?thesis by (simp add: parsed_header_less_def parsed_of_def)
  next
    case False
    with assms(12) have "entry_of b d i < entry_of b d j"
      by (auto simp: record_less_def Let_def split: if_splits)
    then have "m < n"
      using m n assms(3) by (metis leD not_less sorted_iff_nth_mono)
    then have "(of_nat m :: u64) < of_nat n"
      using n(2) assms(4) by (intro of_nat_u64_less) auto
    with m n show ?thesis
      by (auto simp: parsed_header_less_def parsed_of_def)
  qed
qed

section \<open>The request and its headers\<close>

text \<open>The facts about a request that the reader needs, for the order \<open>order\<close>.\<close>

definition request_facts ::
  "batch \<Rightarrow> string \<Rightarrow> nat list \<Rightarrow> (string, nat) umap \<Rightarrow> string list \<Rightarrow> u64 \<Rightarrow> bool" where
  "request_facts b d order indices es s \<longleftrightarrow>
     indices_ok indices es \<and> sorted es \<and> length es < 2 ^ 64 \<and>
     set es = entry_of b d ` set order \<and> (\<forall>i \<in> set order. s \<le> word_of b i)"

definition named_headers :: "string list \<Rightarrow> u64 \<Rightarrow> headers" where
  "named_headers es s =
     [(kHeaderEntries, join '','' (map encode_entry_name es)), (kHeaderStartTs, show_nat (unat s))]"

lemma parsed_list_sorted:
  assumes "addressable d b" and "request_facts b d order indices es s"
    and "sorted_wrt (\<lambda>i j. \<not> record_less b d True j i) order" and "distinct order"
    and "\<forall>i \<in> set order. i < length (batch_records b)"
  shows "sorted_wrt parsed_header_less (map (parsed_of b d type indices s) order)"
  unfolding sorted_wrt_iff_nth_less
proof (intro allI impI, goal_cases)
  case (1 k l)
  then have "order ! k \<in> set order" "order ! l \<in> set order" "order ! k \<noteq> order ! l"
    "\<not> record_less b d True (order ! l) (order ! k)"
    using assms(3,4) by (auto simp: sorted_wrt_iff_nth_less distinct_conv_nth)
  with 1 show ?case
    using assms by (simp, intro parsed_of_less) (auto simp: request_facts_def)
qed

lemma record_header_v2_eq:
  assumes "request_facts b d order indices es s" and "i \<in> set order"
  shows "\<exists>m < 2 ^ 64. map_of indices (entry_of b d i) = Some m \<and>
    record_header_v2 b d type indices s i =
      (header_key_v2 m (word_of b i - s), build_header_value_v2 (batch_records b ! i) type)"
proof -
  have "entry_of b d i \<in> set es" using assms by (auto simp: request_facts_def)
  then obtain m where "map_of indices (entry_of b d i) = Some m" "m < length es"
    using assms(1) indices_ok_lookup unfolding request_facts_def by blast
  with assms(1) show ?thesis
    by (intro exI [of _ m]) (simp add: request_facts_def record_header_v2_def Let_def)
qed

lemma record_headers_parsed:
  assumes "request_facts b d order indices es s"
  shows "parse_header_names (named_headers es s @ map (record_header_v2 b d type indices s) order) =
    map (parsed_of b d type indices s) order"
proof -
  have "parse_header_names (map (record_header_v2 b d type indices s) order) =
      map (parsed_of b d type indices s) order"
    unfolding parse_header_names_def map_filter_map
    by (rule map_filter_Some, drule record_header_v2_eq [where type = type, OF assms])
      (auto simp: header_key_parse parsed_of_def)
  then show ?thesis
    by (simp add: parse_header_names_def named_headers_def named_headers_skipped List.map_filter_simps)
qed

lemma parsed_of_inj:
  assumes "sorted_wrt parsed_header_less (map (parsed_of b d type indices s) order)"
  shows "distinct (map (\<lambda>i. (fst (parsed_of b d type indices s i), fst (snd (parsed_of b d type indices s i)))) order)"
  using assms by (induction order) (force simp: parsed_header_less_def split: if_splits)+

lemma record_headers_distinct:
  assumes "request_facts b d order indices es s"
    and "sorted_wrt parsed_header_less (map (parsed_of b d type indices s) order)"
  shows "distinct (map fst (named_headers es s @ map (record_header_v2 b d type indices s) order))"
proof -
  have "inj_on (\<lambda>i. fst (record_header_v2 b d type indices s i)) (set order)"
  proof (rule inj_onI)
    fix i j assume ij: "i \<in> set order" "j \<in> set order"
      and eq: "fst (record_header_v2 b d type indices s i) = fst (record_header_v2 b d type indices s j)"
    obtain m where m: "m < 2 ^ 64" "map_of indices (entry_of b d i) = Some m"
      "fst (record_header_v2 b d type indices s i) = header_key_v2 m (word_of b i - s)"
      using record_header_v2_eq [where type = type, OF assms(1) ij(1)] by auto
    obtain n where n: "n < 2 ^ 64" "map_of indices (entry_of b d j) = Some n"
      "fst (record_header_v2 b d type indices s j) = header_key_v2 n (word_of b j - s)"
      using record_header_v2_eq [where type = type, OF assms(1) ij(2)] by auto
    have "m = n \<and> word_of b i - s = word_of b j - s"
      using eq m(3) n(3) by (intro header_key_inj [OF m(1) n(1)]) simp
    then have "(fst (parsed_of b d type indices s i), fst (snd (parsed_of b d type indices s i))) =
        (fst (parsed_of b d type indices s j), fst (snd (parsed_of b d type indices s j)))"
      using m(2) n(2) by (simp add: parsed_of_def)
    with parsed_of_inj [OF assms(2)] ij show "i = j"
      by (simp only: distinct_map inj_on_def)
  qed
  moreover have "distinct order"
    using parsed_of_inj [OF assms(2)] by (simp add: distinct_map)
  ultimately have "distinct (map (\<lambda>i. fst (record_header_v2 b d type indices s i)) order)"
    by (simp add: distinct_map)
  moreover have "kHeaderEntries \<noteq> fst (record_header_v2 b d type indices s i)"
    "kHeaderStartTs \<noteq> fst (record_header_v2 b d type indices s i)" for i
    by (simp_all add: record_header_v2_def Let_def header_key_not_named [symmetric])
  moreover have "kHeaderEntries \<noteq> kHeaderStartTs" by (simp add: header_names)
  ultimately show ?thesis by (auto simp: named_headers_def comp_def)
qed

text \<open>The whole request, in closed form.\<close>

lemma build_request_eq:
  assumes "std_sort srt" and "addressable d b" and "batch_records b \<noteq> []"
    and order: "order = sort_records srt b d True"
  shows "\<exists>indices es s. request_facts b d order indices es s \<and>
    sorted_wrt parsed_header_less (map (parsed_of b d type indices s) order) \<and>
    build_batch_v2_request srt d b type req =
      ok_result \<lparr>bq_ordered = order, bq_entries = es, bq_start_ts = s,
        bq_headers = named_headers es s @ map (record_header_v2 b d type indices s) order\<rparr>"
proof -
  have valid: "\<forall>i \<in> set order. i < length (batch_records b)"
    and sorted: "sorted_wrt (\<lambda>i j. \<not> record_less b d True j i) order"
    and perm: "mset order = mset [0..<length (batch_records b)]"
    and ne: "order \<noteq> []"
    unfolding order using sort_records_valid [OF assms(1)] sort_records_sorted [OF assms(1)]
      sort_records_perm [OF assms(1)] sort_records_Nil [OF assms(1)] assms(3) by blast+
  have dist: "distinct order" using perm by (metis distinct_upt mset_eq_imp_distinct_iff)
  have "length order = length (batch_records b)" using perm by (metis size_mset length_upt diff_zero)
  have "sorted (map (entry_of b d) order)"
    using sorted unfolding sorted_map
    by (rule sorted_wrt_mono_rel [rotated]) (auto simp: record_less_def Let_def split: if_splits)
  then obtain s indices es where collect:
      "collect_entries b d req order (- 1, [], []) = Inr (s, indices, es)"
    and facts: "indices_ok indices es" "sorted es" "set es = entry_of b d ` set order"
      "length es \<le> length order" "\<forall>i \<in> set order. s \<le> word_of b i"
    using collect_entries_spec [OF indices_ok_Nil, of b d order req "- 1"] valid
      addressable_in [OF assms(2)] by (auto simp: entry_ok_def)
  have rf: "request_facts b d order indices es s"
    using facts assms(2) \<open>length order = length (batch_records b)\<close>
    by (simp add: request_facts_def addressable_def)
  have strict: "sorted_wrt parsed_header_less (map (parsed_of b d type indices s) order)"
    by (rule parsed_list_sorted [OF assms(2) rf sorted dist valid])
  let ?hs = "map (record_header_v2 b d type indices s) order"
  have "umap_emplace kHeaderStartTs (show_nat (unat s))
      (umap_emplace kHeaderEntries (join '','' (map encode_entry_name es)) []) = named_headers es s"
    by (simp add: named_headers_def umap_emplace_def header_names)
  moreover have "fold (\<lambda>(k, v). umap_emplace k v) ?hs (named_headers es s) = named_headers es s @ ?hs"
    by (rule umap_emplace_fresh [OF record_headers_distinct [OF rf strict]])
  ultimately have "build_batch_v2_request srt d b type req =
      ok_result \<lparr>bq_ordered = order, bq_entries = es, bq_start_ts = s,
        bq_headers = named_headers es s @ ?hs\<rparr>"
    using ne collect by (simp add: build_batch_v2_request_def Let_def order [symmetric] fold_map comp_def)
  with rf strict show ?thesis by blast
qed

section \<open>Reading the request back\<close>

lemma build_steps_delivered:
  assumes facts: "request_facts b d order indices es s" and sendable: "sendable d b"
    and "set rest \<subseteq> set order" and "\<forall>i \<in> set order. i < length (batch_records b)"
    and "length lh = length es"
    and "\<forall>e \<in> set es. lh ! the (map_of indices e) = prev e"
  shows "\<exists>lh'. fold_throws (build_record_step head es s None) (map (parsed_of b d kWrite indices s) rest) (lh, recs) =
    Inr (lh', recs @ delivered head d prev (map ((!) (batch_records b)) rest))"
  using assms(3,5,6)
proof (induction rest arbitrary: lh prev recs)
  case Nil
  then show ?case by simp
next
  case (Cons i rest)
  let ?r = "batch_records b ! i" and ?e = "entry_of b d i"
  have i: "i \<in> set order" "i < length (batch_records b)" using Cons.prems(1) assms(4) by auto
  have ok: "indices_ok indices es" "length es < 2 ^ 64" and e: "?e \<in> set es"
    using facts i by (auto simp: request_facts_def)
  obtain m where m: "map_of indices ?e = Some m" "m < length es" "es ! m = ?e"
    using indices_ok_lookup [OF ok(1) e] by blast
  then have um: "unat (of_nat m :: u64) = m" using ok(2) by (intro unat_of_nat_u64) simp
  let ?h = "written_header (prev ?e) ?r"
  have "lh ! m = prev ?e" using Cons.prems(3) e m by fastforce
  moreover have "record_text_ok ?r" using sendable_in [OF sendable i(2)] by simp
  ultimately have step: "build_record_step head es s None (parsed_of b d kWrite indices s i) (lh, recs) =
      Inr (lh[m := Some ?h], recs @ [make_record_v2 head ?e (word_of b i) ?h])"
    using m um by (simp add: build_record_step_def parsed_of_def Let_def parse_written_header)
  have "\<forall>e \<in> set es. lh[m := Some ?h] ! the (map_of indices e) = (prev(?e \<mapsto> ?h)) e"
  proof
    fix e assume e': "e \<in> set es"
    then obtain n where "map_of indices e = Some n" "n < length es" "es ! n = e"
      using indices_ok_lookup [OF ok(1)] by blast
    with e' m Cons.prems(2,3) show "lh[m := Some ?h] ! the (map_of indices e) = (prev(?e \<mapsto> ?h)) e"
      by (cases "n = m") auto
  qed
  then have "\<exists>lh'. fold_throws (build_record_step head es s None) (map (parsed_of b d kWrite indices s) rest)
      (lh[m := Some ?h], recs @ [make_record_v2 head ?e (word_of b i) ?h]) =
    Inr (lh', (recs @ [make_record_v2 head ?e (word_of b i) ?h]) @
      delivered head d (prev(?e \<mapsto> ?h)) (map ((!) (batch_records b)) rest))"
    using Cons.prems by (intro Cons.IH) auto
  then show ?case by (simp add: step Let_def)
qed

text \<open>The headers that the reader looks at, \<^verbatim>\<open>x-reduct-last\<close> apart. A response has others beside them.\<close>

definition is_v2_header :: "string \<times> string \<Rightarrow> bool" where
  "is_v2_header kv \<longleftrightarrow>
     fst kv \<in> {kHeaderEntries, kHeaderStartTs, kHeaderLabels} \<or> parse_batched_header_name_v2 (fst kv) \<noteq> None"

lemma map_of_filter_pair: "(\<And>v. P (k, v)) \<Longrightarrow> map_of (filter P xs) k = map_of xs k"
  by (induction xs) auto

lemma parse_names_filter: "parse_header_names (filter is_v2_header hs) = parse_header_names hs"
  by (induction hs) (auto simp: parse_header_names_def is_v2_header_def List.map_filter_simps split: option.splits)

text \<open>What is found in the headers of a request, in whatever order they arrive and among others.\<close>

lemma request_lookups:
  assumes "request_facts b d order indices es s"
    and "sorted_wrt parsed_header_less (map (parsed_of b d type indices s) order)"
    and "mset (filter is_v2_header hs) = mset (named_headers es s @ map (record_header_v2 b d type indices s) order)"
  shows "map_of hs kHeaderLabels = None"
    and "map_of hs kHeaderStartTs = Some (show_nat (unat s))"
    and "map_of hs kHeaderEntries = Some (join '','' (map encode_entry_name es))"
proof -
  let ?hs = "named_headers es s @ map (record_header_v2 b d type indices s) order"
  have "map_of (filter is_v2_header hs) = map_of ?hs"
    using map_of_perm [OF record_headers_distinct [OF assms(1,2)] assms(3) [symmetric]] by simp
  then have lookup: "map_of hs k = map_of ?hs k" if "\<And>v. is_v2_header (k, v)" for k
    using map_of_filter_pair [of is_v2_header k hs] that by simp
  have "map_of ?hs kHeaderLabels = None"
    "map_of ?hs kHeaderStartTs = Some (show_nat (unat s))"
    "map_of ?hs kHeaderEntries = Some (join '','' (map encode_entry_name es))"
    by (auto simp: map_of_eq_None_iff named_headers_def header_names record_header_v2_def Let_def
        header_key_not_named [unfolded header_names, symmetric])
  then show "map_of hs kHeaderLabels = None"
    "map_of hs kHeaderStartTs = Some (show_nat (unat s))"
    "map_of hs kHeaderEntries = Some (join '','' (map encode_entry_name es))"
    by (simp_all add: lookup is_v2_header_def)
qed

lemma request_names_sorted:
  assumes "std_sort srt" and "request_facts b d order indices es s"
    and "sorted_wrt parsed_header_less (map (parsed_of b d type indices s) order)"
    and "mset (filter is_v2_header hs) = mset (named_headers es s @ map (record_header_v2 b d type indices s) order)"
  shows "srt parsed_header_less (parse_header_names hs) = map (parsed_of b d type indices s) order"
proof (rule std_sort_strictly_sorted [OF assms(1) parsed_header_less_order assms(3)])
  show "mset (parse_header_names hs) = mset (map (parsed_of b d type indices s) order)"
    unfolding parse_names_filter [of hs, symmetric] record_headers_parsed [OF assms(2), symmetric]
    unfolding parse_header_names_def by (rule mset_map_filter [OF assms(4)])
qed

lemma request_headers_v2:
  assumes "std_sort srt" and "addressable d b" and "batch_records b \<noteq> []"
  shows "filter is_v2_header (bq_headers (res_value (build_batch_v2_request srt d b type req))) =
    bq_headers (res_value (build_batch_v2_request srt d b type req))"
proof -
  obtain indices es s where rf: "request_facts b d (sort_records srt b d True) indices es s"
    and req: "bq_headers (res_value (build_batch_v2_request srt d b type req)) =
      named_headers es s @ map (record_header_v2 b d type indices s) (sort_records srt b d True)"
    using build_request_eq [OF assms refl, of type req] by force
  have "is_v2_header (record_header_v2 b d type indices s i)" if "i \<in> set (sort_records srt b d True)" for i
    using record_header_v2_eq [where type = type, OF rf that] by (auto simp: is_v2_header_def header_key_parse)
  then show ?thesis by (simp add: req named_headers_def is_v2_header_def)
qed

lemma v2_request_read_back:
  assumes "std_sort srt" and "std_sort srt'" and "sendable d b" and "batch_records b \<noteq> []"
    and "mset (filter is_v2_header hs) = mset (bq_headers (res_value (build_batch_v2_request srt d b kWrite req)))"
  shows "res_error (build_batch_v2_request srt d b kWrite req) = kOk \<and>
    parse_and_build_batched_records_v2 srt' head hs =
      Inr (mark_last (umap_get hs kHeaderLast = ''true'')
        (delivered head d Map.empty (map ((!) (batch_records b)) (sort_records srt b d True))))"
proof -
  define order where "order = sort_records srt b d True"
  obtain indices es s where rf: "request_facts b d order indices es s"
    and strict: "sorted_wrt parsed_header_less (map (parsed_of b d kWrite indices s) order)"
    and req: "build_batch_v2_request srt d b kWrite req =
      ok_result \<lparr>bq_ordered = order, bq_entries = es, bq_start_ts = s,
        bq_headers = named_headers es s @ map (record_header_v2 b d kWrite indices s) order\<rparr>"
    using build_request_eq [OF assms(1) sendable_addressable [OF assms(3)] assms(4) order_def] by blast
  have sent: "mset (filter is_v2_header hs) = mset (named_headers es s @ map (record_header_v2 b d kWrite indices s) order)"
    using assms(5) req by simp
  note hs = request_lookups [OF rf strict sent]
  have valid: "\<forall>i \<in> set order. i < length (batch_records b)"
    unfolding order_def by (rule sort_records_valid [OF assms(1)])
  have es: "\<forall>e \<in> set es. entry_ok e" "es \<noteq> []"
    using rf valid addressable_in [OF sendable_addressable [OF assms(3)]] sort_records_Nil [OF assms(1)] assms(4)
    by (auto simp: request_facts_def order_def)
  have "\<forall>e \<in> set es. replicate (length es) None ! the (map_of indices e) = Map.empty e"
    using rf indices_ok_lookup by (fastforce simp: request_facts_def)
  then obtain lh' where "fold_throws (build_record_step head es s None)
      (map (parsed_of b d kWrite indices s) order) (replicate (length es) None, []) =
    Inr (lh', [] @ delivered head d Map.empty (map ((!) (batch_records b)) order))"
    using build_steps_delivered [OF rf assms(3) subset_refl valid, of "replicate (length es) None" Map.empty]
    by (metis length_replicate)
  then have steps: "fold_throws (build_record_step head es s None) (srt' parsed_header_less (parse_header_names hs))
      (replicate (length es) None, []) =
    Inr (lh', delivered head d Map.empty (map ((!) (batch_records b)) order))"
    by (simp only: request_names_sorted [OF assms(2) rf strict sent] append_Nil)
  have "parse_encoded_list (join '','' (map encode_entry_name es)) = es"
    by (rule parse_encoded_join [OF es(1)])
  then have "parse_and_build_batched_records_v2 srt' head hs =
      Inr (mark_last (umap_get hs kHeaderLast = ''true'')
        (delivered head d Map.empty (map ((!) (batch_records b)) order)))"
    by (simp add: parse_and_build_batched_records_v2_def hs es(2) stoull_show_u64 steps Let_def mark_last_def)
  then show ?thesis unfolding req order_def by simp
qed


definition sample_batch :: batch where
  "sample_batch =
     add_record ''b'' 3000 ''xyz'' ''text/plain'' [(''k'', ''v'')]
       (add_record_at 2000 ''hi'' [] [] (add_record [] 1000 ''abc'' [] [(''k'', ''1,2'')] empty_batch))"

lemma sample_batch_sendable: "sendable ''a'' sample_batch" "batch_records sample_batch \<noteq> []"
  by (simp_all add: sendable_def addressable_def sample_batch_def add_ops_defs batch_simps record_text_ok_def labels_ok_def
      label_key_ok_def label_value_ok_def us_time_def is_int64_def entry_ok_def record_entry_def
      empty_batch_def omap_ok_def trim_def is_blank_def char_class_simps)

lemma not_v2_headers: "\<not> is_v2_header (''content-type'', v)" "\<not> is_v2_header (kHeaderLast, v)"
  by (simp_all add: is_v2_header_def parse_batched_header_name_v2_def header_names starts_with_def substr_def
      substr_from_def rfind_char_def stoul_def read_unsigned_def strto_def digit_value_def char_class_simps)

definition sample_answer :: headers where
  "sample_answer = (''content-type'', ''text/plain'') # (kHeaderLast, ''true'') #
     rev (bq_headers (res_value (build_batch_v2_request isort ''a'' sample_batch kWrite False)))"

lemma sample_answer_headers:
  "mset (filter is_v2_header sample_answer) =
     mset (bq_headers (res_value (build_batch_v2_request isort ''a'' sample_batch kWrite False)))"
  using request_headers_v2 [OF isort.std_sort_axioms sendable_addressable [OF sample_batch_sendable(1)] sample_batch_sendable(2)]
  by (simp add: sample_answer_def not_v2_headers rev_filter [symmetric])


end
