(* ===== verification/Effects.thy ===== *)
theory Effects
  imports Prelude
begin

text \<open>
  Code that reads and changes a state and may throw: a function from the state to an
  exception or to a value with the new state. The methods of the client are \<^verbatim>\<open>noexcept\<close>;
  there an exception that is not caught inside calls \<^verbatim>\<open>std::terminate\<close>, so \<open>Inl\<close> as the
  outcome of such a method is the end of the program.
\<close>

type_synonym ('s, 'a) io = "'s \<Rightarrow> ('a \<times> 's) throws"

definition ret_io :: "'a \<Rightarrow> ('s, 'a) io" where
  "ret_io x = (\<lambda>s. Inr (x, s))"

definition bind_io :: "('s, 'a) io \<Rightarrow> ('a \<Rightarrow> ('s, 'b) io) \<Rightarrow> ('s, 'b) io" where
  "bind_io m f = (\<lambda>s. bind_throws (m s) (\<lambda>(x, s'). f x s'))"

definition throws_io :: "'a throws \<Rightarrow> ('s, 'a) io" where
  "throws_io t = (\<lambda>s. bind_throws t (\<lambda>x. Inr (x, s)))"

definition get_io :: "('s \<Rightarrow> 'a) \<Rightarrow> ('s, 'a) io" where
  "get_io f = (\<lambda>s. Inr (f s, s))"

named_theorems io_simps \<open>running the effects\<close>

lemma bind_ret [io_simps]: "bind_io (ret_io x) f = f x"
  by (simp add: bind_io_def ret_io_def)

lemma bind_ret_right: "bind_io m ret_io = m"
  by (rule ext) (simp add: bind_io_def ret_io_def case_prod_unfold)

lemma bind_assoc: "bind_io (bind_io m f) g = bind_io m (\<lambda>x. bind_io (f x) g)"
  by (rule ext) (simp add: bind_io_def bind_throws_assoc case_prod_unfold)

lemma bind_throws_io [io_simps]:
  "bind_io (throws_io (Inr x)) f = f x" "bind_io (throws_io (Inl e)) f = (\<lambda>s. Inl e)"
  by (simp_all add: bind_io_def throws_io_def)

lemma ret_run [io_simps]: "ret_io x s = Inr (x, s)"
  by (simp add: ret_io_def)

lemma get_run [io_simps]: "bind_io (get_io g) f s = f (g s) s"
  by (simp add: bind_io_def get_io_def)

lemma bind_run:
  "bind_io m f s = Inr (y, s'') \<longleftrightarrow> (\<exists>x s'. m s = Inr (x, s') \<and> f x s' = Inr (y, s''))"
  by (auto simp: bind_io_def bind_throws_Inr_iff split: prod.splits)

text \<open>The items of a list through a function that may throw, in order.\<close>

fun map_throws :: "('a \<Rightarrow> 'b throws) \<Rightarrow> 'a list \<Rightarrow> 'b list throws" where
  "map_throws f [] = Inr []"
| "map_throws f (x # xs) =
     bind_throws (f x) (\<lambda>y. bind_throws (map_throws f xs) (\<lambda>ys. Inr (y # ys)))"

lemma map_throws_Inr:
  "(\<And>x. x \<in> set xs \<Longrightarrow> f x = Inr (g x)) \<Longrightarrow> map_throws f xs = Inr (map g xs)"
  by (induction xs) auto

lemma map_throws_length: "map_throws f xs = Inr ys \<Longrightarrow> length ys = length xs"
  by (induction xs arbitrary: ys) (auto simp: bind_throws_Inr_iff)

end
