(* ===== verification/Http_Client.thy ===== *)
theory Http_Client
  imports Effects Headers Result
begin

text \<open>
  \<^verbatim>\<open>class HttpClient\<close> (http_client.cc): how a URL is split, how every response is checked, how
  the API version is learned, how a request body is handed over in chunks, and the version
  test \<^verbatim>\<open>IsCompatible\<close>. The library \<^verbatim>\<open>httplib\<close> is not part of the sources: what it does is
  the argument \<open>lib\<close>, which sends a request from a network state \<open>'n\<close>. A time-out is in
  milliseconds. The lines written to the standard error stream are kept in \<open>cl_log\<close>.
\<close>

section \<open>The interface of httplib\<close>

datatype http_method = GET | HEAD | POST | PUT | PATCH | DELETE

text \<open>
  A content provider is asked for bytes at an offset: \<open>None\<close> is the answer \<^verbatim>\<open>false\<close>, which
  cancels the request, \<open>Some data\<close> is \<open>data\<close> written to the sink.
\<close>

type_synonym provider = "nat \<Rightarrow> nat \<Rightarrow> string option throws"

datatype request_body =
    No_body
  | Body string string
  | Provider_body nat provider string

record http_request =
  rq_method :: http_method
  rq_path :: string
  rq_headers :: "(string \<times> string) list"
  rq_body :: request_body

record http_response =
  hr_status :: int
  hr_headers :: "(string \<times> string) list"
  hr_body :: string

text \<open>\<^verbatim>\<open>httplib::Result\<close>: a transport error with its text, or a response.\<close>

datatype http_result = Transport_error string | Http_response http_response

text \<open>What the constructor sets on \<^verbatim>\<open>httplib::Client\<close>.\<close>

record transport =
  tr_base_url :: string
  tr_verify_certificate :: bool
  tr_keep_alive :: bool
  tr_tcp_nodelay :: bool
  tr_bearer_token :: "string option"
  tr_connection_timeout :: "int option"
  tr_read_timeout :: "int option"
  tr_write_timeout :: "int option"

text \<open>
  A streamed GET yields the head of the response (if one arrives), the chunks of the body and
  the final result; \<open>hl_canceled\<close> is the text of the error when a handler returns \<^verbatim>\<open>false\<close>.
\<close>

record http_stream =
  hs_head :: "http_response option"
  hs_chunks :: "string list"
  hs_result :: http_result

record 'n httplib =
  hl_send :: "transport \<Rightarrow> http_request \<Rightarrow> ('n, http_result) io"
  hl_stream :: "transport \<Rightarrow> http_request \<Rightarrow> ('n, http_stream) io"
  hl_find :: "(string \<times> string) list \<Rightarrow> string \<Rightarrow> string option"
  hl_canceled :: string

section \<open>Construction\<close>

record http_options =
  ho_api_token :: string
  ho_ssl_verification :: bool
  ho_connection_timeout :: "int option"
  ho_request_timeout :: "int option"

definition kApiPrefix :: string where "kApiPrefix = ''/api/v1''"

definition kMaxChunkSize :: nat where "kMaxChunkSize = 512000"

definition major_version :: int where "major_version = 1"
definition minor_version :: int where "minor_version = 21"

text \<open>
  \<^verbatim>\<open>url.find('/', url.find("://") + 3)\<close>: without a scheme the inner search is \<^verbatim>\<open>npos\<close>, the
  largest \<^verbatim>\<open>size_t\<close>, and the sum wraps to 2.
\<close>

definition path_start :: "string \<Rightarrow> nat option" where
  "path_start url =
     find_from (CHR ''/'') url (case find_sub ''://'' url of None \<Rightarrow> 2 | Some i \<Rightarrow> i + 3)"

definition split_url :: "string \<Rightarrow> string \<times> string" where
  "split_url url =
     (case path_start url of
        Some p \<Rightarrow> (substr url 0 p, substr_from url p)
      | None \<Rightarrow> (url, []))"

definition api_prefix :: "string \<Rightarrow> string" where
  "api_prefix path_prefix =
     (if ends_with path_prefix ''/'' then substr path_prefix 0 (length path_prefix - 1) @ kApiPrefix
      else path_prefix @ kApiPrefix)"

record 'n http_client =
  cl_transport :: transport
  cl_api_token :: string
  cl_api_prefix :: string
  cl_api_version :: "string option"
  cl_log :: "string list"
  cl_net :: 'n

definition build_http_client :: "string \<Rightarrow> http_options \<Rightarrow> 'n \<Rightarrow> 'n http_client" where
  "build_http_client url options net =
     (case split_url url of (base_url, path_prefix) \<Rightarrow>
        \<lparr>cl_transport =
           \<lparr>tr_base_url = base_url, tr_verify_certificate = ho_ssl_verification options,
            tr_keep_alive = True, tr_tcp_nodelay = True,
            tr_bearer_token = (if ho_api_token options = [] then None else Some (ho_api_token options)),
            tr_connection_timeout = ho_connection_timeout options,
            tr_read_timeout = ho_request_timeout options,
            tr_write_timeout = ho_request_timeout options\<rparr>,
         cl_api_token = ho_api_token options, cl_api_prefix = api_prefix path_prefix,
         cl_api_version = None, cl_log = [], cl_net = net\<rparr>)"

section \<open>Checking a response\<close>

definition too_old_warning :: "string \<Rightarrow> string" where
  "too_old_warning version =
     ''Warning: Server API version is too old: '' @ version @ '', please update the server up to '' @
     show_int major_version @ ''.'' @ show_int minor_version"

definition check_request :: "'n httplib \<Rightarrow> http_result \<Rightarrow> ('n http_client, error) io" where
  "check_request lib res c =
     (case res of
        Transport_error m \<Rightarrow> Inr (mk_error (- 1) m, c)
      | Http_response r \<Rightarrow>
          if hr_status r \<noteq> 200 then
            (case hl_find lib (hr_headers r) kHeaderError of
               Some msg \<Rightarrow> Inr (mk_error (hr_status r) msg, c)
             | None \<Rightarrow> Inr (mk_error (hr_status r) ''Unknown error'', c))
          else case hl_find lib (hr_headers r) kHeaderApi of
              None \<Rightarrow> Inr (kOk, c)
            | Some api_version \<Rightarrow>
                (case find_char (CHR ''.'') api_version of
                   None \<Rightarrow> Inr (mk_error (- 1) ''Invalid API version'', c)
                 | Some dot \<Rightarrow>
                     bind_throws (stoi 10 (substr api_version 0 dot)) (\<lambda>major.
                     bind_throws (stoi 10 (substr_from api_version (dot + 1))) (\<lambda>minor.
                       if major \<noteq> major_version then
                         Inr (mk_error (- 1) (''Unsupported API version: '' @ show_int major @ ''.'' @
                           show_int minor), c)
                       else if 2 ^ 31 \<le> minor + 2 then
                         Inl (Undefined_behaviour ''signed overflow in minor + 2'')
                       else
                         let c' = (if minor + 2 < minor_version
                                   then c\<lparr>cl_log := cl_log c @ [too_old_warning api_version]\<rparr> else c)
                         in Inr (kOk, c'\<lparr>cl_api_version := Some api_version\<rparr>)))))"

definition normalize_headers :: "(string \<times> string) list \<Rightarrow> headers" where
  "normalize_headers hs = fold (\<lambda>(k, v). umap_assign (map cto_lower k) v) hs []"

section \<open>The requests\<close>

text \<open>\<^verbatim>\<open>sv.data()\<close> passed where a C string is read: it ends at the first zero byte.\<close>

definition c_string :: "string \<Rightarrow> string" where
  "c_string s = takeWhile (\<lambda>ch. ch \<noteq> CHR 0x00) s"

definition add_api_prefix :: "'n http_client \<Rightarrow> string \<Rightarrow> string" where
  "add_api_prefix c path = cl_api_prefix c @ path"

definition send ::
  "'n httplib \<Rightarrow> http_method \<Rightarrow> string \<Rightarrow> headers \<Rightarrow> request_body \<Rightarrow> ('n http_client, http_result) io" where
  "send lib m path hs body c =
     bind_throws
       (hl_send lib (cl_transport c)
          \<lparr>rq_method = m, rq_path = add_api_prefix c path, rq_headers = hs, rq_body = body\<rparr> (cl_net c))
       (\<lambda>(res, net). Inr (res, c\<lparr>cl_net := net\<rparr>))"

definition response_of :: "http_result \<Rightarrow> http_response" where
  "response_of res =
     (case res of Http_response r \<Rightarrow> r | Transport_error m \<Rightarrow> \<lparr>hr_status = 0, hr_headers = [], hr_body = []\<rparr>)"

text \<open>\<^verbatim>\<open>if (auto err = CheckRequest(res)) return {{}, err}; return f(*res)\<close>.\<close>

definition checked ::
  "'n httplib \<Rightarrow> 'a \<Rightarrow> (http_response \<Rightarrow> 'a) \<Rightarrow> http_result \<Rightarrow> ('n http_client, 'a result) io" where
  "checked lib dflt f res =
     bind_io (check_request lib res) (\<lambda>err.
       ret_io (if is_error err then err_result dflt err else ok_result (f (response_of res))))"

definition http_get :: "'n httplib \<Rightarrow> string \<Rightarrow> ('n http_client, string result) io" where
  "http_get lib path = bind_io (send lib GET path [] No_body) (checked lib [] hr_body)"

definition http_head :: "'n httplib \<Rightarrow> string \<Rightarrow> headers \<Rightarrow> ('n http_client, headers result) io" where
  "http_head lib path hs =
     bind_io (send lib HEAD (c_string path) hs No_body)
       (checked lib [] (\<lambda>r. normalize_headers (hr_headers r)))"

definition post_with_response ::
  "'n httplib \<Rightarrow> string \<Rightarrow> string \<Rightarrow> string \<Rightarrow> ('n http_client, string result) io" where
  "post_with_response lib path body mime =
     bind_io (send lib POST (c_string path) [] (Body (c_string body) (c_string mime)))
       (checked lib [] hr_body)"

definition http_post :: "'n httplib \<Rightarrow> string \<Rightarrow> string \<Rightarrow> string \<Rightarrow> ('n http_client, error) io" where
  "http_post lib path body mime =
     bind_io (post_with_response lib path (c_string body) (c_string mime)) (\<lambda>r. ret_io (res_error r))"

text \<open>The lambda of the chunked \<^verbatim>\<open>Post\<close>: at most \<open>kMaxChunkSize\<close> bytes a call, never an empty chunk.\<close>

type_synonym write_callback = "nat \<Rightarrow> nat \<Rightarrow> (bool \<times> string) throws"

definition content_provider :: "write_callback \<Rightarrow> provider" where
  "content_provider callback offset sz =
     (let sz' = min sz kMaxChunkSize
      in bind_throws (callback offset sz') (\<lambda>(ok, data).
           Inr (if \<not> ok \<or> data = [] then None else Some (take (min (length data) sz') data))))"

definition body_and_headers :: "http_response \<Rightarrow> string \<times> headers" where
  "body_and_headers r = (hr_body r, normalize_headers (hr_headers r))"

definition post_chunked ::
  "'n httplib \<Rightarrow> string \<Rightarrow> string \<Rightarrow> nat \<Rightarrow> headers \<Rightarrow> write_callback \<Rightarrow>
   ('n http_client, (string \<times> headers) result) io" where
  "post_chunked lib path mime content_length hs callback =
     bind_io (send lib POST path hs (Provider_body content_length (content_provider callback) (c_string mime)))
       (checked lib ([], []) body_and_headers)"

definition http_put :: "'n httplib \<Rightarrow> string \<Rightarrow> string \<Rightarrow> string \<Rightarrow> ('n http_client, error) io" where
  "http_put lib path body mime =
     bind_io (send lib PUT path [] (Body body (c_string mime))) (check_request lib)"

definition http_patch ::
  "'n httplib \<Rightarrow> string \<Rightarrow> string \<Rightarrow> headers \<Rightarrow> ('n http_client, (string \<times> headers) result) io" where
  "http_patch lib path body hs =
     bind_io (send lib PATCH path hs (Body body [])) (checked lib ([], []) body_and_headers)"

definition http_delete ::
  "'n httplib \<Rightarrow> string \<Rightarrow> headers \<Rightarrow> ('n http_client, (string \<times> headers) result) io" where
  "http_delete lib path hs =
     bind_io (send lib DELETE path hs No_body) (checked lib ([], []) body_and_headers)"

definition get_api_version :: "('n http_client, string option) io" where
  "get_api_version = get_io cl_api_version"

definition set_api_version :: "string option \<Rightarrow> ('n http_client, unit) io" where
  "set_api_version version c = Inr ((), c\<lparr>cl_api_version := version\<rparr>)"

text \<open>
  The streamed \<^verbatim>\<open>Get\<close>: a status other than 200 is kept as the code of an error, and while that is
  not zero no callback runs (the body is collected and dropped); the callbacks change a state \<open>'u\<close>.
\<close>

primrec feed :: "(string \<Rightarrow> 'u \<Rightarrow> bool \<times> 'u) \<Rightarrow> string list \<Rightarrow> 'u \<Rightarrow> bool \<times> 'u" where
  "feed read_cb [] u = (True, u)"
| "feed read_cb (ch # chunks) u =
     (case read_cb ch u of (go_on, u') \<Rightarrow> if go_on then feed read_cb chunks u' else (False, u'))"

definition http_get_stream ::
  "'n httplib \<Rightarrow> string \<Rightarrow> headers \<Rightarrow> (headers \<Rightarrow> 'u \<Rightarrow> 'u throws) \<Rightarrow> (string \<Rightarrow> 'u \<Rightarrow> bool \<times> 'u) \<Rightarrow> 'u \<Rightarrow>
   ('n http_client, error \<times> 'u) io" where
  "http_get_stream lib path hs resp_cb read_cb u c =
     bind_throws
       (hl_stream lib (cl_transport c)
          \<lparr>rq_method = GET, rq_path = add_api_prefix c path, rq_headers = hs, rq_body = No_body\<rparr> (cl_net c))
       (\<lambda>(stream, net).
          let c' = c\<lparr>cl_net := net\<rparr>
          in case hs_head stream of
               None \<Rightarrow> bind_throws (check_request lib (hs_result stream) c') (\<lambda>(err, c''). Inr ((err, u), c''))
             | Some r \<Rightarrow>
                 if hr_status r \<noteq> 200 \<and> hr_status r \<noteq> 0 then
                   bind_throws (check_request lib (hs_result stream) c') (\<lambda>(err, c''). Inr ((err, u), c''))
                 else
                   bind_throws (resp_cb (normalize_headers (hr_headers r)) u) (\<lambda>u1.
                     case feed read_cb (hs_chunks stream) u1 of
                       (go_on, u2) \<Rightarrow>
                         bind_throws
                           (check_request lib
                              (if go_on then hs_result stream else Transport_error (hl_canceled lib)) c')
                           (\<lambda>(err, c''). Inr ((err, u2), c''))))"

section \<open>Versions\<close>

definition parse_version :: "string \<Rightarrow> int list throws" where
  "parse_version version = map_throws (stoi 10) (getlines (CHR ''.'') version)"

definition is_compatible :: "string \<Rightarrow> string \<Rightarrow> bool throws" where
  "is_compatible min_v version =
     (if version = [] then Inr False
      else bind_throws (parse_version min_v) (\<lambda>min_version.
           bind_throws (parse_version version) (\<lambda>current_version.
             if length min_version \<noteq> length current_version then Inr False
             else if length min_version \<noteq> 2 then Inr False
             else Inr (min_version ! 0 = current_version ! 0 \<and> min_version ! 1 \<le> current_version ! 1))))"

section \<open>For the examples\<close>

text \<open>A library whose server gives one answer to everything, and a client without options.\<close>

definition answering :: "http_response \<Rightarrow> unit httplib" where
  "answering r =
     \<lparr>hl_send = (\<lambda>tr rq net. Inr (Http_response r, net)),
      hl_stream = (\<lambda>tr rq net. Inr (\<lparr>hs_head = Some r, hs_chunks = [hr_body r], hs_result = Http_response r\<rparr>, net)),
      hl_find = map_of, hl_canceled = ''canceled''\<rparr>"

definition sample_client :: "unit http_client" where
  "sample_client = build_http_client ''http://localhost:8383''
     \<lparr>ho_api_token = [], ho_ssl_verification = True, ho_connection_timeout = None, ho_request_timeout = None\<rparr> ()"

end
