(* ===== verification/Upload.thy ===== *)
theory Upload
  imports Http_Client Records
begin

text \<open>
  The upload of a request body. \<^verbatim>\<open>httplib\<close> asks the content provider for bytes at the offset it
  has reached, again and again, until the announced length is sent; which sizes it asks for
  is its own choice, so a run is a sequence of steps with arbitrary sizes. The interface
  \<open>body_source\<close> is what a write callback must be for the body to arrive: the bytes of one
  fixed payload. The batches and \<^verbatim>\<open>WritableRecord::WriteAll\<close> provide it.
\<close>

section \<open>The write callbacks of the sources\<close>

text \<open>The callback of a batch: the lambda in \<^verbatim>\<open>SendBatchV2\<close> and in \<^verbatim>\<open>ProcessBatchV1\<close>.\<close>

definition batch_callback :: "nat list \<Rightarrow> batch \<Rightarrow> write_callback" where
  "batch_callback ordered b offset sz = bind_throws (slice (Some ordered) b offset sz) (\<lambda>d. Inr (True, d))"

text \<open>\<^verbatim>\<open>struct WritableRecord\<close>: the callback and the content length, which starts uninitialised.\<close>

record writable_record =
  wr_callback :: write_callback
  wr_content_length :: "nat option"

definition new_writable_record :: writable_record where
  "new_writable_record = \<lparr>wr_callback = (\<lambda>offset sz. Inr (False, [])), wr_content_length = None\<rparr>"

definition wr_write :: "nat \<Rightarrow> write_callback \<Rightarrow> writable_record \<Rightarrow> writable_record" where
  "wr_write content_length cb r = r\<lparr>wr_content_length := Some content_length, wr_callback := cb\<rparr>"

text \<open>\<^verbatim>\<open>data.substr(offset, size)\<close> throws when the offset is past the end.\<close>

definition wr_write_all :: "string \<Rightarrow> writable_record \<Rightarrow> writable_record" where
  "wr_write_all data r =
     r\<lparr>wr_content_length := Some (length data),
       wr_callback := (\<lambda>offset sz.
         if length data < offset then Inl (Out_of_range ''basic_string::substr'')
         else Inr (True, substr data offset sz))\<rparr>"

section \<open>Runs of the upload\<close>

text \<open>The state is the offset and the bytes sent so far.\<close>

inductive upload_step :: "provider \<Rightarrow> nat \<Rightarrow> nat \<times> string \<Rightarrow> nat \<times> string \<Rightarrow> bool"
  for prov :: provider and len :: nat where
  upload_chunk:
    "off < len \<Longrightarrow> 0 < n \<Longrightarrow> n \<le> len - off \<Longrightarrow> prov off n = Inr (Some d) \<Longrightarrow>
     upload_step prov len (off, sent) (off + length d, sent @ d)"

inductive_cases upload_stepE: "upload_step prov len s t"

text \<open>The provider cancels the upload, or throws.\<close>

definition upload_fails :: "provider \<Rightarrow> nat \<Rightarrow> nat \<Rightarrow> bool" where
  "upload_fails prov len off \<longleftrightarrow>
     (\<exists>n. off < len \<and> 0 < n \<and> n \<le> len - off \<and> (prov off n = Inr None \<or> (\<exists>e. prov off n = Inl e)))"

section \<open>The interface and what it gives\<close>

locale body_source =
  fixes callback :: write_callback and payload :: string
  assumes serves: "offset < length payload \<Longrightarrow>
    callback offset sz = Inr (True, take sz (drop offset payload))"
begin

lemma provider_serves:
  assumes "off < length payload" and "0 < n"
  shows "content_provider callback off n = Inr (Some (take (min n kMaxChunkSize) (drop off payload)))"
proof -
  have "take (min n kMaxChunkSize) (drop off payload) \<noteq> []"
    using assms by (simp add: kMaxChunkSize_def)
  then show ?thesis
    using assms by (simp add: content_provider_def serves Let_def)
      (metis length_drop min.commute take_all_iff take_take nle_le)
qed

lemma step_prefix:
  assumes "upload_step (content_provider callback) (length payload) s t"
    and "snd s = take (fst s) payload"
  shows "fst s < fst t \<and> fst t \<le> length payload \<and> snd t = take (fst t) payload"
  using assms(1)
proof (cases rule: upload_step.cases)
  case (upload_chunk off n d sent)
  let ?k = "min n kMaxChunkSize"
  have d: "d = take ?k (drop off payload)"
    using upload_chunk by (simp add: provider_serves)
  then have len: "length d = min ?k (length payload - off)" by simp
  have "0 < ?k" using upload_chunk by (simp add: kMaxChunkSize_def)
  moreover have "take (off + length d) payload = take off payload @ d"
    by (simp add: take_add d min.commute take_all_iff min_def)
  ultimately show ?thesis
    using upload_chunk len assms(2) by auto
qed

lemma run_prefix:
  assumes "(upload_step (content_provider callback) (length payload))\<^sup>*\<^sup>* (0, []) (off, sent)"
  shows "off \<le> length payload \<and> sent = take off payload"
proof -
  have "fst s \<le> length payload \<and> snd s = take (fst s) payload"
    if "(upload_step (content_provider callback) (length payload))\<^sup>*\<^sup>* (0, []) s" for s
    using that
  proof (induction rule: rtranclp_induct)
    case base
    then show ?case by simp
  next
    case (step s t)
    then show ?case using step_prefix by blast
  qed
  from this [OF assms] show ?thesis by simp
qed

lemma run_complete:
  assumes "(upload_step (content_provider callback) (length payload))\<^sup>*\<^sup>* (0, []) (length payload, sent)"
  shows "sent = payload"
  using run_prefix [OF assms] by simp

lemma never_fails:
  "\<not> upload_fails (content_provider callback) (length payload) off"
  by (auto simp: upload_fails_def provider_serves)

lemma progress:
  assumes "(upload_step (content_provider callback) (length payload))\<^sup>*\<^sup>* (0, []) (off, sent)"
    and "off < length payload"
  shows "\<exists>t. upload_step (content_provider callback) (length payload) (off, sent) t"
  using assms(2) provider_serves [of off 1]
  by (intro exI) (rule upload_chunk [where n = 1]; simp)

lemma terminates:
  assumes "(upload_step (content_provider callback) (length payload) ^^ k) (0, []) (off, sent)"
  shows "k \<le> off"
proof -
  have "k \<le> fst s \<and> snd s = take (fst s) payload"
    if "(upload_step (content_provider callback) (length payload) ^^ k) (0, []) s" for s k
    using that
  proof (induction k arbitrary: s)
    case 0
    then show ?case by auto
  next
    case (Suc k)
    then obtain t where "(upload_step (content_provider callback) (length payload) ^^ k) (0, []) t"
      and "upload_step (content_provider callback) (length payload) t s" by auto
    with Suc.IH [of t] step_prefix [of t s] show ?case by simp
  qed
  from this [OF assms] show ?thesis by simp
qed

end

section \<open>The providers\<close>

interpretation write_all: body_source "wr_callback (wr_write_all data r)" data
  by unfold_locales (simp add: wr_write_all_def substr_def)

text \<open>A batch is a body source for every order of its records, up to \<open>2 ^ 64\<close> bytes.\<close>

lemma batch_source:
  assumes "std_sort srt" and "batch_ok b" and "total_bytes b < 2 ^ 64"
  shows "body_source (batch_callback (sort_records srt b d by_entry) b)
    (ordered_payload b (sort_records srt b d by_entry))"
  by unfold_locales (simp add: batch_callback_def slice_sorted [OF assms])

end
