(* ===== verification/Batch_V1.thy ===== *)
theory Batch_V1
  imports Upload Readable Batch_Type
begin

text \<open>
  Batch protocol v1 (batch_v1.cc): the records of one entry, one header per record named by
  its time. Parsing goes through a \<^verbatim>\<open>std::map\<close> of the headers, so the records come in the
  order of the header names as strings. The handling of quoted items is modelled as it is.
\<close>

section \<open>Parsing a record header\<close>

text \<open>One item of the loop over \<^verbatim>\<open>getline\<close>; the state is \<^verbatim>\<open>escaped\<close> and \<^verbatim>\<open>items\<close>.\<close>

definition csv_step :: "string \<Rightarrow> string \<times> string list \<Rightarrow> string \<times> string list" where
  "csv_step item st =
     (case st of (escaped, items) \<Rightarrow>
        let escaped1 = (if starts_with item [CHR 0x22] \<and> escaped = [] then substr_from item 1 else escaped)
        in if escaped1 \<noteq> [] then
             if ends_with item [CHR 0x22] then
               ([], items @ [substr escaped1 0 (unat (of_nat (length escaped1) - 2 :: u64))])
             else (escaped1 @ item, items)
           else (escaped1, items @ [item]))"

definition csv_items :: "string \<Rightarrow> string list" where
  "csv_items csv = snd (fold csv_step (getlines (CHR '','') csv) ([], []))"

definition csv_label :: "string \<Rightarrow> label_map \<Rightarrow> label_map" where
  "csv_label item labels =
     (case find_char (CHR ''='') item of
        None \<Rightarrow> labels
      | Some pos \<Rightarrow> omap_assign (substr item 0 pos) (substr_from item (pos + 1)) labels)"

text \<open>\<^verbatim>\<open>items[0]\<close> and \<^verbatim>\<open>items[1]\<close> are read without a test.\<close>

definition parse_csv :: "string \<Rightarrow> (int \<times> string \<times> label_map) throws" where
  "parse_csv csv =
     (let items = csv_items csv
      in case items of
           [] \<Rightarrow> Inl (Undefined_behaviour ''items[0]'')
         | first # rest \<Rightarrow>
             bind_throws (stoll first) (\<lambda>sz.
               case rest of
                 [] \<Rightarrow> Inl (Undefined_behaviour ''items[1]'')
               | content_type # label_items \<Rightarrow> Inr (sz, content_type, fold csv_label label_items [])))"

section \<open>The records of a response\<close>

definition is_time_header :: "string \<times> string \<Rightarrow> bool" where
  "is_time_header kv \<longleftrightarrow> starts_with (fst kv) kHeaderTimePrefix"

definition build_record_step_v1 ::
  "bool \<Rightarrow> nat \<Rightarrow> bool \<Rightarrow> string \<times> string \<Rightarrow> readable_record list \<Rightarrow> readable_record list throws" where
  "build_record_step_v1 head total_records last_header kv records =
     (case kv of (key, v) \<Rightarrow>
        if \<not> is_time_header kv then Inr records
        else bind_throws (parse_csv v) (\<lambda>(sz, content_type, labels).
             bind_throws (from_microseconds (substr_from key (length kHeaderTimePrefix))) (\<lambda>ts.
               Inr (records @
                 [\<lparr>rr_entry = [], rr_timestamp = ts, rr_size = word_of_int sz,
                   rr_last = (length records = total_records - 1 \<and> last_header),
                   rr_labels = labels, rr_content_type = content_type,
                   rr_read = Read_batched_v1 sz head\<rparr>]))))"

definition parse_and_build_batched_records_v1 ::
  "bool \<Rightarrow> headers \<Rightarrow> readable_record list throws" where
  "parse_and_build_batched_records_v1 head hs =
     (let total_records = length (filter is_time_header hs);
          ordered_headers = omap_of_list hs
      in fold_throws (build_record_step_v1 head total_records (umap_get hs kHeaderLast = ''true''))
           ordered_headers [])"

section \<open>Sending\<close>

definition time_key :: "batch_record \<Rightarrow> string" where
  "time_key r = kHeaderTimePrefix @ show_int (to_microseconds (br_timestamp r))"

definition record_header_v1 :: "batch_type \<Rightarrow> batch_record \<Rightarrow> string \<times> string" where
  "record_header_v1 type r =
     (time_key r,
      case type of
        kWrite \<Rightarrow> show_nat (br_size r) @ '','' @ br_content_type r @ '','' @ format_labels (br_labels r)
      | kUpdate \<Rightarrow> ''0,,'' @ format_labels (br_labels r)
      | kRemove \<Rightarrow> ''0,'')"

definition build_headers_v1 :: "batch \<Rightarrow> batch_type \<Rightarrow> nat list \<Rightarrow> headers" where
  "build_headers_v1 b type ordered =
     fold (\<lambda>idx. case record_header_v1 type (batch_records b ! idx) of (k, v) \<Rightarrow> umap_emplace k v) ordered []"

definition send_batch_v1 ::
  "'n httplib \<Rightarrow> string \<Rightarrow> string \<Rightarrow> batch_type \<Rightarrow> batch \<Rightarrow> nat list \<Rightarrow> headers \<Rightarrow>
   ('n http_client, (string \<times> headers) result) io" where
  "send_batch_v1 lib bucket_path entry_name type b ordered hs =
     (let path = bucket_path @ ''/'' @ entry_name @ ''/batch''
      in case type of
           kWrite \<Rightarrow> post_chunked lib path ''application/octet-stream'' (unat (batch_size b)) hs
             (batch_callback ordered b)
         | kUpdate \<Rightarrow> http_patch lib path [] hs
         | kRemove \<Rightarrow> http_delete lib path hs)"

definition batch_error_step_v1 :: "string \<times> string \<Rightarrow> batch_errors \<Rightarrow> batch_errors throws" where
  "batch_error_step_v1 kv errors =
     (case kv of (key, v) \<Rightarrow>
        if starts_with key kHeaderErrorPrefix then
          case find_char (CHR '','') v of
            None \<Rightarrow> Inr errors
          | Some pos \<Rightarrow>
              bind_throws (stoi 10 (substr v 0 pos)) (\<lambda>status.
              bind_throws (from_microseconds (substr_from key (length kHeaderErrorPrefix))) (\<lambda>ts.
                Inr (omap_emplace ts (mk_error status (substr_from v (pos + 1))) errors)))
        else Inr errors)"

definition process_batch_v1 ::
  "((nat \<Rightarrow> nat \<Rightarrow> bool) \<Rightarrow> nat list \<Rightarrow> nat list) \<Rightarrow> 'n httplib \<Rightarrow> string \<Rightarrow> string \<Rightarrow> batch \<Rightarrow>
   batch_type \<Rightarrow> ('n http_client, batch_errors result) io" where
  "process_batch_v1 srt lib bucket_path entry_name b type =
     (let ordered = sort_records srt b entry_name False;
          unique_entries = remdups (map (\<lambda>idx. record_entry (batch_records b ! idx) entry_name) ordered)
      in if 1 < length unique_entries then
           ret_io (err_result []
             (mk_error (- 1) ''Batch protocol v2 is required to target multiple entries in one request''))
         else
           bind_io (send_batch_v1 lib bucket_path entry_name type b ordered (build_headers_v1 b type ordered))
             (\<lambda>sent.
               if is_error (res_error sent) then ret_io (err_result [] (res_error sent))
               else throws_io
                      (bind_throws (fold_throws batch_error_step_v1 (snd (res_value sent)) [])
                         (\<lambda>errors. Inr (ok_result errors)))))"

end
