(* ===== verification/Batch_V1_Roundtrip.thy ===== *)
theory Batch_V1_Roundtrip
  imports Batch_V1
begin

text \<open>
  What a v1 write request says when it is read back by the rules of v1: the records in body
  order when their times have the same number of digits. Two theorems show what the code does
  outside of that: records whose times differ in their number of digits change places, and
  items in quotes are not put together again.
\<close>

section \<open>The batches that the format carries\<close>

definition label_v1_ok :: "string \<times> string \<Rightarrow> bool" where
  "label_v1_ok kv \<longleftrightarrow>
     CHR '','' \<notin> set (fst kv) \<and> CHR ''='' \<notin> set (fst kv) \<and> CHR '','' \<notin> set (snd kv) \<and>
     (fst kv = [] \<or> hd (fst kv) \<noteq> CHR 0x22)"

definition record_v1_ok :: "batch_record \<Rightarrow> bool" where
  "record_v1_ok r \<longleftrightarrow>
     omap_ok (br_labels r) \<and> (\<forall>kv \<in> set (br_labels r). label_v1_ok kv) \<and> br_size r < 2 ^ 63 \<and>
     CHR '','' \<notin> set (br_content_type r) \<and> (br_content_type r = [] \<or> hd (br_content_type r) \<noteq> CHR 0x22)"

definition sendable_v1 :: "batch \<Rightarrow> bool" where
  "sendable_v1 b \<longleftrightarrow>
     (\<forall>r \<in> set (batch_records b). record_v1_ok r \<and> us_time (br_timestamp r) \<and> 0 \<le> br_timestamp r) \<and>
     (\<forall>r \<in> set (batch_records b). \<forall>r' \<in> set (batch_records b). length (time_key r) = length (time_key r')) \<and>
     distinct (map br_timestamp (batch_records b))"

text \<open>What a receiver should see of a record.\<close>

definition received_v1 :: "bool \<Rightarrow> batch_record \<Rightarrow> readable_record" where
  "received_v1 head r =
     \<lparr>rr_entry = [], rr_timestamp = br_timestamp r, rr_size = of_nat (br_size r), rr_last = False,
      rr_labels = br_labels r, rr_content_type = br_content_type r,
      rr_read = Read_batched_v1 (int (br_size r)) head\<rparr>"

section \<open>One header\<close>

lemma format_label_v1: "label_v1_ok (k, v) \<Longrightarrow> format_label (k, v) = k @ CHR ''='' # v"
  by (simp add: label_v1_ok_def format_label_def find_char_None)

lemma csv_step_plain:
  "\<not> starts_with item [CHR 0x22] \<Longrightarrow> csv_step item ([], items) = ([], items @ [item])"
  by (simp add: csv_step_def)

lemma csv_fold_plain:
  "\<forall>item \<in> set xs. \<not> starts_with item [CHR 0x22] \<Longrightarrow> fold csv_step xs ([], items) = ([], items @ xs)"
  by (induction xs arbitrary: items) (simp_all add: csv_step_plain)

lemma starts_quote: "starts_with s [c] \<longleftrightarrow> s \<noteq> [] \<and> hd s = c"
  by (cases s) (auto simp: starts_with_def)

lemma comma_in_show: "CHR '','' \<notin> set (show_nat n)"
  by (rule show_nat_no_char) (simp add: cis_digit_def code_of_def)

lemma csv_items_written:
  assumes "record_v1_ok r"
  shows "csv_items (show_nat (br_size r) @ '','' @ br_content_type r @ '','' @ format_labels (br_labels r)) =
    show_nat (br_size r) # br_content_type r # map format_label (br_labels r)"
proof -
  let ?ls = "map format_label (br_labels r)"
  have ls: "\<forall>kv \<in> set (br_labels r). label_v1_ok kv" and ct: "CHR '','' \<notin> set (br_content_type r)"
    and ct2: "br_content_type r = [] \<or> hd (br_content_type r) \<noteq> CHR 0x22"
    using assms by (simp_all add: record_v1_ok_def)
  have "\<forall>x \<in> set ?ls. CHR '','' \<notin> set x"
    using ls format_label_v1 by (force simp: label_v1_ok_def)
  moreover have "?ls = [] \<or> last ?ls \<noteq> []" by (cases "br_labels r") (simp_all add: last_map)
  ultimately have "getlines (CHR '','') (format_labels (br_labels r)) = ?ls"
    unfolding format_labels_def by (rule getlines_join)
  then have lines: "getlines (CHR '','') (show_nat (br_size r) @ '','' @ br_content_type r @ '','' @
      format_labels (br_labels r)) = show_nat (br_size r) # br_content_type r # ?ls"
    using ct by (simp add: getlines_append comma_in_show)
  have "\<forall>item \<in> set ?ls. \<not> starts_with item [CHR 0x22]"
  proof
    fix item assume "item \<in> set ?ls"
    then obtain k v where "(k, v) \<in> set (br_labels r)" "item = format_label (k, v)" by auto
    with ls show "\<not> starts_with item [CHR 0x22]"
      by (cases k) (auto simp: format_label_v1 starts_quote label_v1_ok_def)
  qed
  moreover have "\<not> starts_with (show_nat (br_size r)) [CHR 0x22]"
    using show_nat_digits [of "br_size r"]
    by (cases "show_nat (br_size r)") (auto simp: starts_quote cis_digit_def code_of_def)
  moreover have "\<not> starts_with (br_content_type r) [CHR 0x22]"
    using ct2 by (auto simp: starts_quote)
  ultimately show ?thesis unfolding csv_items_def lines by (simp add: csv_step_plain csv_fold_plain)
qed

lemma csv_labels_written:
  "\<forall>kv \<in> set ls. label_v1_ok kv \<Longrightarrow>
     fold csv_label (map format_label ls) m = fold (\<lambda>(k, v). omap_assign k v) ls m"
proof (induction ls arbitrary: m)
  case (Cons kv ls)
  obtain k v where kv: "kv = (k, v)" by (cases kv)
  with Cons.prems have "label_v1_ok (k, v)" "CHR ''='' \<notin> set k" by (auto simp: label_v1_ok_def)
  with Cons kv show ?case
    by (simp add: csv_label_def format_label_v1 find_char_first substr_def substr_from_def)
qed simp

lemma parse_csv_written:
  assumes "record_v1_ok r"
  shows "parse_csv (snd (record_header_v1 kWrite r)) = Inr (int (br_size r), br_content_type r, br_labels r)"
  using assms
  by (simp add: parse_csv_def record_header_v1_def csv_items_written [simplified] Let_def stoll_show_nat
      csv_labels_written omap_assign_all record_v1_ok_def)

lemma time_key_eq:
  "us_time (br_timestamp r) \<Longrightarrow> 0 \<le> br_timestamp r \<Longrightarrow>
     time_key r = kHeaderTimePrefix @ show_nat (unat (us_word (br_timestamp r)))"
  by (auto simp: time_key_def us_time_def unat_us_word to_microseconds_def show_int_def trunc_div_nonneg
      pos_imp_zdiv_neg_iff)

lemma build_step_written:
  assumes "record_v1_ok r" and "us_time (br_timestamp r)" and "0 \<le> br_timestamp r"
  shows "build_record_step_v1 head n flag (record_header_v1 kWrite r) recs =
    Inr (recs @ [(received_v1 head r)\<lparr>rr_last := length recs = n - 1 \<and> flag\<rparr>])"
proof -
  have "parse_csv (snd (record_header_v1 kWrite r)) = Inr (int (br_size r), br_content_type r, br_labels r)"
    by (rule parse_csv_written [OF assms(1)])
  moreover have "fst (record_header_v1 kWrite r) = kHeaderTimePrefix @ show_nat (unat (us_word (br_timestamp r)))"
    using assms by (simp add: record_header_v1_def time_key_eq)
  ultimately show ?thesis
    using assms
    by (simp add: build_record_step_v1_def case_prod_unfold is_time_header_def from_microseconds_show
        time_of_us_word received_v1_def substr_from_def)
qed


section \<open>All headers\<close>

lemma build_steps_written:
  assumes "\<forall>r \<in> set rs. record_v1_ok r \<and> us_time (br_timestamp r) \<and> 0 \<le> br_timestamp r"
    and "n = length recs + length rs"
  shows "fold_throws (build_record_step_v1 head n flag) (map (record_header_v1 kWrite) rs) recs =
    Inr (recs @ mark_last flag (map (received_v1 head) rs))"
  using assms
proof (induction rs arbitrary: recs)
  case Nil
  then show ?case by (simp add: mark_last_def)
next
  case (Cons r rs)
  let ?r = "(received_v1 head r)\<lparr>rr_last := length recs = n - 1 \<and> flag\<rparr>"
  have "fold_throws (build_record_step_v1 head n flag) (map (record_header_v1 kWrite) (r # rs)) recs =
      Inr (recs @ ?r # mark_last flag (map (received_v1 head) rs))"
    using Cons.prems Cons.IH [of "recs @ [?r]"] by (simp add: build_step_written)
  moreover have "?r # mark_last flag (map (received_v1 head) rs) = mark_last flag (map (received_v1 head) (r # rs))"
    using Cons.prems(2) by (cases rs) (auto simp: mark_last_def set_back_last_def received_v1_def)
  ultimately show ?case by simp
qed

lemma append_less_same: "(p @ x < p @ y) = (x < (y :: 'a::linorder list))"
  by (induction p) auto

lemma time_key_less:
  assumes "us_time (br_timestamp r)" "0 \<le> br_timestamp r" "us_time (br_timestamp r')" "0 \<le> br_timestamp r'"
    and "length (time_key r) = length (time_key r')" and "br_timestamp r < br_timestamp r'"
  shows "time_key r < time_key r'"
proof -
  have "unat (us_word (br_timestamp r)) < unat (us_word (br_timestamp r'))"
    using us_word_less [OF assms(1,3,2,6)] by (simp add: word_less_nat_alt)
  then show ?thesis
    using assms(5) by (simp add: time_key_eq assms append_less_same show_nat_less)
qed

lemma time_key_is_time: "is_time_header (record_header_v1 type r)"
  by (simp add: is_time_header_def record_header_v1_def time_key_def)

lemma sorted_records_v1:
  assumes "std_sort srt" and "sendable_v1 b"
  shows "omap_ok (map (record_header_v1 type) (map ((!) (batch_records b)) (sort_records srt b d False)))"
proof -
  let ?order = "sort_records srt b d False" and ?r = "\<lambda>i. batch_records b ! i"
  have "mset ?order = mset [0..<length (batch_records b)]"
    by (rule sort_records_perm [OF assms(1)])
  then have dist: "distinct ?order" by (metis distinct_upt mset_eq_imp_distinct_iff)
  have "sorted_wrt (\<lambda>i j. time_key (?r i) < time_key (?r j)) ?order"
    unfolding sorted_wrt_iff_nth_less
  proof (intro allI impI, goal_cases)
    case (1 k l)
    let ?i = "?order ! k" and ?j = "?order ! l"
    have ij: "?i < length (batch_records b)" "?j < length (batch_records b)" "?i \<noteq> ?j"
      using 1 sort_records_valid [OF assms(1), of b d False] dist
      by (simp_all add: nth_eq_iff_index_eq)
    then have "br_timestamp (?r ?i) \<noteq> br_timestamp (?r ?j)"
      using assms(2) by (auto simp: sendable_v1_def distinct_conv_nth)
    moreover have "\<not> record_less b d False ?j ?i"
      using sort_records_sorted [OF assms(1)] 1 by (auto simp: sorted_wrt_iff_nth_less)
    ultimately have "br_timestamp (?r ?i) < br_timestamp (?r ?j)"
      by (auto simp: record_less_def Let_def)
    then show ?case
      using assms(2) ij by (intro time_key_less) (auto simp: sendable_v1_def)
  qed
  then show ?thesis
    by (simp add: omap_ok_def sorted_wrt_map record_header_v1_def comp_def)
qed

lemma build_headers_v1_eq:
  assumes "std_sort srt" and "sendable_v1 b"
  shows "build_headers_v1 b type (sort_records srt b d False) =
    map (record_header_v1 type) (map ((!) (batch_records b)) (sort_records srt b d False))"
proof -
  let ?hs = "map (record_header_v1 type) (map ((!) (batch_records b)) (sort_records srt b d False))"
  have "distinct (map fst ([] @ ?hs))"
    unfolding append_Nil by (rule omap_distinct [OF sorted_records_v1 [OF assms]])
  from umap_emplace_fresh [OF this] show ?thesis
    by (simp add: build_headers_v1_def fold_map comp_def)
qed

text \<open>A header map is read in the order of the time keys as texts.\<close>

lemma parse_v1_sorted:
  assumes "omap_ok (map (record_header_v1 kWrite) rs)"
    and perm: "mset (filter is_time_header hs) = mset (map (record_header_v1 kWrite) rs)"
    and "\<forall>r \<in> set rs. record_v1_ok r \<and> us_time (br_timestamp r) \<and> 0 \<le> br_timestamp r"
  shows "parse_and_build_batched_records_v1 head hs =
    Inr (mark_last (umap_get hs kHeaderLast = ''true'') (map (received_v1 head) rs))"
proof -
  let ?step = "build_record_step_v1 head (length (filter is_time_header hs)) (umap_get hs kHeaderLast = ''true'')"
  have "filter is_time_header (omap_of_list hs) = omap_of_list (filter is_time_header hs)"
    using omap_of_list_filter [of "\<lambda>k. starts_with k kHeaderTimePrefix" hs] by (simp add: is_time_header_def [abs_def])
  also have "\<dots> = map (record_header_v1 kWrite) rs" by (rule omap_of_list_sorted [OF assms(1) perm])
  finally have times: "filter is_time_header (omap_of_list hs) = map (record_header_v1 kWrite) rs" .
  have skip: "fold_throws ?step m recs = fold_throws ?step (filter is_time_header m) recs" for m recs
  proof (induction m arbitrary: recs)
    case (Cons kv m)
    then show ?case
      by (cases "?step kv recs") (auto simp: build_record_step_v1_def)
  qed simp
  have "length (filter is_time_header hs) = length rs"
    using perm by (metis size_mset length_map)
  then have "fold_throws ?step (omap_of_list hs) [] =
      Inr ([] @ mark_last (umap_get hs kHeaderLast = ''true'') (map (received_v1 head) rs))"
    unfolding skip [of "omap_of_list hs"] times by (intro build_steps_written assms(3)) simp
  then show ?thesis by (simp add: parse_and_build_batched_records_v1_def Let_def)
qed

lemma v1_request_read_back:
  assumes "std_sort srt" and "sendable_v1 b"
    and "mset (filter is_time_header hs) = mset (build_headers_v1 b kWrite (sort_records srt b d False))"
  shows "parse_and_build_batched_records_v1 head hs =
    Inr (mark_last (umap_get hs kHeaderLast = ''true'')
      (map (received_v1 head) (map ((!) (batch_records b)) (sort_records srt b d False))))"
proof (rule parse_v1_sorted [OF sorted_records_v1 [OF assms(1,2)]])
  show "mset (filter is_time_header hs) =
      mset (map (record_header_v1 kWrite) (map ((!) (batch_records b)) (sort_records srt b d False)))"
    using assms(3) by (simp only: build_headers_v1_eq [OF assms(1,2)])
  show "\<forall>r \<in> set (map ((!) (batch_records b)) (sort_records srt b d False)).
      record_v1_ok r \<and> us_time (br_timestamp r) \<and> 0 \<le> br_timestamp r"
    using assms(2) sort_records_valid [OF assms(1)] by (auto simp: sendable_v1_def)
qed

text \<open>
  A v1 write request can be read back: for a batch that the format carries and whose times
  have the same number of digits, a receiver that applies the v1 rules to a header map with the
  request's time headers, in any iteration order and among other headers, gets every record in
  body order, the last one marked when the server says so.
\<close>

theorem v1_request_roundtrip:
  assumes "std_sort srt" and "sendable_v1 b"
    and "mset (filter is_time_header hs) = mset (build_headers_v1 b kWrite (sort_records srt b d False))"
  shows "parse_and_build_batched_records_v1 head hs =
    Inr (mark_last (umap_get hs kHeaderLast = ''true'')
      (map (received_v1 head) (map ((!) (batch_records b)) (sort_records srt b d False))))"
  by (rule v1_request_read_back [OF assms])

text \<open>A concrete batch with a reversed time order.\<close>

definition sample_v1 :: batch where
  "sample_v1 =
     add_record_at 1000 ''abc'' ''text/plain'' [(''k'', ''v'')] (add_record_at 2000 ''hi'' [] [] empty_batch)"

lemma sample_v1_sendable: "sendable_v1 sample_v1"
  by (simp add: sendable_v1_def sample_v1_def add_ops_defs batch_simps record_v1_ok_def label_v1_ok_def
      us_time_def is_int64_def empty_batch_def omap_ok_def time_key_def to_microseconds_def trunc_div_def show_int_def
      show_nat.simps)

theorem v1_request_roundtrip_witness:
  "parse_and_build_batched_records_v1 False
     ((kHeaderLast, ''true'') # rev (build_headers_v1 sample_v1 kWrite (sort_records isort sample_v1 [] False))) =
   Inr (mark_last True (map (received_v1 False)
     (map ((!) (batch_records sample_v1)) (sort_records isort sample_v1 [] False))))"
proof -
  let ?hs = "(kHeaderLast, ''true'') # rev (build_headers_v1 sample_v1 kWrite (sort_records isort sample_v1 [] False))"
  have "build_headers_v1 sample_v1 kWrite (sort_records isort sample_v1 [] False) =
      [(''x-reduct-time-1'', ''3,text/plain,k=v''), (''x-reduct-time-2'', ''2,,'')]"
    by code_simp
  then have "mset (filter is_time_header ?hs) =
      mset (build_headers_v1 sample_v1 kWrite (sort_records isort sample_v1 [] False))"
    by (simp add: is_time_header_def header_names starts_with_def)
  from v1_request_roundtrip [OF isort.std_sort_axioms sample_v1_sendable this, of False]
  show ?thesis by (simp add: umap_get_def)
qed

section \<open>Outside of the format\<close>

text \<open>
  The v1 records of a response come in the order of their header names as texts: a record
  at 10 microseconds is delivered before one at 9 microseconds, although the batch is sorted by
  time and the bytes of the earlier record come first in the body.
\<close>

theorem v1_order_is_textual:
  assumes "record_v1_ok r" and "br_timestamp r = 9000" and "record_v1_ok r'" and "br_timestamp r' = 10000"
  shows "parse_and_build_batched_records_v1 head (map (record_header_v1 kWrite) [r, r']) =
    Inr (map (received_v1 head) [r', r])"
proof -
  have keys: "time_key r = kHeaderTimePrefix @ ''9''" "time_key r' = kHeaderTimePrefix @ ''10''"
    using assms by (simp_all add: time_key_def to_microseconds_def trunc_div_def show_int_def
        show_nat.simps digit_char_def char_of_def bit_simps)
  have "omap_ok (map (record_header_v1 kWrite) [r', r])"
    by (simp add: omap_ok_def record_header_v1_def keys append_less_same less_char_def)
  moreover have "us_time 9000" "us_time 10000" by (simp_all add: us_time_def is_int64_def)
  moreover have "umap_get (map (record_header_v1 kWrite) [r, r']) kHeaderLast = []"
    by (simp add: umap_get_def record_header_v1_def keys header_names)
  ultimately show ?thesis
    using parse_v1_sorted [of "[r', r]" "map (record_header_v1 kWrite) [r, r']" head] assms
    by (simp add: time_key_is_time mark_last_def)
qed

definition plain_record :: "time \<Rightarrow> batch_record" where
  "plain_record ts = \<lparr>br_entry = [], br_timestamp = ts, br_size = 1, br_content_type = [], br_labels = [],
     br_data_index = Some 0\<rparr>"

theorem v1_order_is_textual_witness:
  "parse_and_build_batched_records_v1 False (map (record_header_v1 kWrite) [plain_record 9000, plain_record 10000]) =
    Inr (map (received_v1 False) [plain_record 10000, plain_record 9000])"
  by (rule v1_order_is_textual) (simp_all add: plain_record_def record_v1_ok_def)

text \<open>
  A label value with a comma, which the client itself puts in quotes when it writes a batch,
  is not read back: the value is cut at the comma and keeps the opening quote.
\<close>

theorem v1_quoted_label_is_cut:
  assumes "label_v1_ok (k, u)" and "CHR '','' \<notin> set v" and "CHR ''='' \<notin> set v"
    and "v \<noteq> []" and "hd v \<noteq> CHR 0x22" and "n < 2 ^ 63"
    and "CHR '','' \<notin> set ct" and "ct = [] \<or> hd ct \<noteq> CHR 0x22"
  shows "parse_csv (show_nat n @ '','' @ ct @ '','' @ format_labels [(k, u @ '','' @ v)]) =
    Inr (int n, ct, [(k, CHR 0x22 # u)])"
proof -
  let ?a = "k @ CHR ''='' # CHR 0x22 # u" and ?b = "v @ [CHR 0x22]"
  have fmt: "format_labels [(k, u @ '','' @ v)] = ?a @ CHR '','' # ?b"
    by (simp add: format_labels_def format_label_def find_char_None)
  have "getlines (CHR '','') (show_nat n @ '','' @ ct @ '','' @ ?a @ CHR '','' # ?b) = [show_nat n, ct, ?a, ?b]"
    using assms(1,2,7) getlines_append [of "CHR '',''" ?a ?b] getlines_no_delim [of "CHR '',''" ?b]
    by (simp add: getlines_append comma_in_show label_v1_ok_def)
  moreover have "\<not> starts_with x [CHR 0x22]" if "x \<in> {show_nat n, ct, ?a, ?b}" for x
    using that assms(1,4,5,8) show_nat_digits [of n]
    by (cases "show_nat n"; cases k) (auto simp: starts_quote cis_digit_def code_of_def label_v1_ok_def)
  ultimately have "csv_items (show_nat n @ '','' @ ct @ '','' @ ?a @ CHR '','' # ?b) = [show_nat n, ct, ?a, ?b]"
    by (simp add: csv_items_def csv_step_plain)
  moreover have "find_char (CHR ''='') ?a = Some (length k)" "find_char (CHR ''='') ?b = None"
    using assms(1,3) by (simp_all add: find_char_first find_char_None label_v1_ok_def)
  ultimately show ?thesis
    using assms(6) unfolding fmt
    by (simp add: parse_csv_def Let_def stoll_show_nat csv_label_def substr_def substr_from_def)
qed

theorem v1_quoted_label_is_cut_witness:
  "parse_csv (show_nat 3 @ '','' @ [] @ '','' @ format_labels [(''k'', ''a'' @ '','' @ ''b'')]) =
    Inr (int 3, [], [(''k'', CHR 0x22 # ''a'')])"
  by (rule v1_quoted_label_is_cut) (simp_all add: label_v1_ok_def)

end
