(* ===== verification/Reader.thy ===== *)
theory Reader
  imports Readable Effects
begin

text \<open>
  Reading the content of records from the queue of chunks that the network thread fills: the
  three \<^verbatim>\<open>Read\<close> functions (batch_v1.cc, batch_v2.cc, and the single record of bucket.cc), one
  iteration of the loop at a time, and the system of the network thread and the thread that
  runs the callbacks. \<open>None\<close> in the queue is the \<^verbatim>\<open>nullopt\<close> that marks the end of the stream.
  The mutex makes the access to the queue in an iteration atomic; so a step of the system is
  a push by the network thread or one whole iteration (the record callback of an iteration
  touches nothing that the network thread touches).
\<close>

type_synonym chunk_queue = "string option list"
type_synonym 'u record_callback = "string \<Rightarrow> 'u \<Rightarrow> bool \<times> 'u"

text \<open>The loop goes on with \<^verbatim>\<open>total\<close>, or it has ended.\<close>

datatype 'u read_loop = Reading u64 'u | Finished 'u

section \<open>One iteration\<close>

text \<open>The locked block: the chunk that is taken, and the queue it leaves.\<close>

definition take_front_v2 :: "u64 \<Rightarrow> u64 \<Rightarrow> chunk_queue \<Rightarrow> string option \<times> chunk_queue" where
  "take_front_v2 sz tot data =
     (case data of
        [] \<Rightarrow> (Some [], [])
      | None # rest \<Rightarrow> (None, rest)
      | Some chunk # rest \<Rightarrow>
          if unat (sz - tot) < length chunk then
            (Some (substr chunk 0 (unat (sz - tot))), Some (substr_from chunk (unat (sz - tot))) # rest)
          else (Some chunk, rest))"

text \<open>The same in v1, where the size of the chunk is read without a test for \<^verbatim>\<open>nullopt\<close>.\<close>

definition take_front_v1 :: "int \<Rightarrow> u64 \<Rightarrow> chunk_queue \<Rightarrow> (string option \<times> chunk_queue) throws" where
  "take_front_v1 sz tot data =
     (let left = unat (word_of_int sz - tot)
      in case data of
           [] \<Rightarrow> Inr (Some [], [])
         | None # rest \<Rightarrow> Inl (Undefined_behaviour ''chunk->size() of nullopt'')
         | Some chunk # rest \<Rightarrow>
             if left < length chunk then
               Inr (Some (substr chunk 0 left), Some (substr_from chunk left) # rest)
             else Inr (Some chunk, rest))"

definition take_front_single :: "chunk_queue \<Rightarrow> string option \<times> chunk_queue" where
  "take_front_single data = (case data of [] \<Rightarrow> (Some [], []) | chunk # rest \<Rightarrow> (chunk, rest))"

definition read_iter_v2 ::
  "u64 \<Rightarrow> 'u record_callback \<Rightarrow> u64 \<Rightarrow> 'u \<Rightarrow> chunk_queue \<Rightarrow> 'u read_loop \<times> chunk_queue" where
  "read_iter_v2 sz record_callback tot u data =
     (case take_front_v2 sz tot data of
        (None, data') \<Rightarrow> (Finished u, data')
      | (Some chunk, data') \<Rightarrow>
          if chunk = [] then (Reading tot u, data')
          else
            let tot' = tot + of_nat (length chunk)
            in case record_callback chunk u of
                 (go_on, u') \<Rightarrow>
                   if \<not> go_on then (Finished u', data')
                   else if sz \<le> tot' then (Finished u', data') else (Reading tot' u', data'))"

definition read_iter_v1 ::
  "int \<Rightarrow> 'u record_callback \<Rightarrow> u64 \<Rightarrow> 'u \<Rightarrow> chunk_queue \<Rightarrow> ('u read_loop \<times> chunk_queue) throws" where
  "read_iter_v1 sz record_callback tot u data =
     bind_throws (take_front_v1 sz tot data) (\<lambda>(chunk, data').
       Inr (case chunk of
              None \<Rightarrow> (Finished u, data')
            | Some ch \<Rightarrow>
                if ch = [] then (Reading tot u, data')
                else
                  let tot' = tot + of_nat (length ch)
                  in case record_callback ch u of
                       (go_on, u') \<Rightarrow>
                         if \<not> go_on then (Finished u', data')
                         else if word_of_int sz \<le> tot' then (Finished u', data')
                         else (Reading tot' u', data')))"

definition read_iter_single ::
  "'u record_callback \<Rightarrow> 'u \<Rightarrow> chunk_queue \<Rightarrow> 'u read_loop \<times> chunk_queue" where
  "read_iter_single record_callback u data =
     (case take_front_single data of
        (None, data') \<Rightarrow> (Finished u, data')
      | (Some chunk, data') \<Rightarrow>
          if chunk = [] then (Reading 0 u, data')
          else case record_callback chunk u of
                 (go_on, u') \<Rightarrow> if \<not> go_on then (Finished u', data') else (Reading 0 u', data'))"

text \<open>One iteration of \<^verbatim>\<open>record.Read\<close>; with \<^verbatim>\<open>head\<close> it returns at once.\<close>

definition read_iter ::
  "read_fn \<Rightarrow> 'u record_callback \<Rightarrow> u64 \<Rightarrow> 'u \<Rightarrow> chunk_queue \<Rightarrow> ('u read_loop \<times> chunk_queue) throws" where
  "read_iter f record_callback tot u data =
     (case f of
        Read_batched_v1 sz head \<Rightarrow>
          if head then Inr (Finished u, data) else read_iter_v1 sz record_callback tot u data
      | Read_batched_v2 sz head \<Rightarrow>
          Inr (if head then (Finished u, data) else read_iter_v2 sz record_callback tot u data)
      | Read_single head \<Rightarrow>
          Inr (if head then (Finished u, data) else read_iter_single record_callback u data))"

text \<open>The callback of \<^verbatim>\<open>ReadableRecord::ReadAll\<close>.\<close>

definition append_chunk :: "string record_callback" where
  "append_chunk chunk data = (True, data @ chunk)"

section \<open>The network thread and the callbacks\<close>

text \<open>
  The state of a response that is being read: the chunks still to arrive, the queue, the
  records whose callbacks have not started, the read that is going on (its function, its
  \<^verbatim>\<open>total\<close> and what it has so far), and what the finished reads returned.
\<close>

record read_sys =
  sy_pending :: chunk_queue
  sy_queue :: chunk_queue
  sy_todo :: "read_fn list"
  sy_current :: "(read_fn \<times> u64 \<times> string) option"
  sy_out :: "string list"

inductive sys_step :: "read_sys \<Rightarrow> read_sys \<Rightarrow> bool" where
  sys_push:
    "sy_pending s = x # xs \<Longrightarrow>
     sys_step s (s\<lparr>sy_pending := xs, sy_queue := sy_queue s @ [x]\<rparr>)"
| sys_start:
    "sy_current s = None \<Longrightarrow> sy_todo s = f # fs \<Longrightarrow>
     sys_step s (s\<lparr>sy_todo := fs, sy_current := Some (f, 0, [])\<rparr>)"
| sys_again:
    "sy_current s = Some (f, tot, got) \<Longrightarrow>
     read_iter f append_chunk tot got (sy_queue s) = Inr (Reading tot' got', q) \<Longrightarrow>
     sys_step s (s\<lparr>sy_current := Some (f, tot', got'), sy_queue := q\<rparr>)"
| sys_finish:
    "sy_current s = Some (f, tot, got) \<Longrightarrow>
     read_iter f append_chunk tot got (sy_queue s) = Inr (Finished got', q) \<Longrightarrow>
     sys_step s (s\<lparr>sy_current := None, sy_queue := q, sy_out := sy_out s @ [got']\<rparr>)"

inductive_cases sys_stepE: "sys_step s t"

definition sys_init :: "string list \<Rightarrow> read_fn list \<Rightarrow> read_sys" where
  "sys_init chunks fs =
     \<lparr>sy_pending = map Some chunks @ [None], sy_queue = [], sy_todo = fs, sy_current = None, sy_out = []\<rparr>"

definition sys_done :: "read_sys \<Rightarrow> bool" where
  "sys_done s \<longleftrightarrow> sy_todo s = [] \<and> sy_current s = None"

text \<open>The next iteration has no defined meaning.\<close>

definition sys_ub :: "read_sys \<Rightarrow> bool" where
  "sys_ub s \<longleftrightarrow>
     (case sy_current s of
        None \<Rightarrow> False
      | Some (f, tot, got) \<Rightarrow> \<exists>e. read_iter f append_chunk tot got (sy_queue s) = Inl e)"

end
