(* ===== verification/Read_All.thy ===== *)
theory Read_All
  imports Reader
begin

text \<open>
  What reading whole records gives: the interface \<open>sized_reader\<close> is the contract of the loop of
  a record of a batch, which both protocols meet; from it, under every interleaving of the
  network thread and the callbacks, the records of a response get consecutive pieces of the
  body, and the reading of the response can always be finished. Two theorems show what happens
  outside of the contract: records of size zero, and in v1 the end of the stream.
\<close>

section \<open>The contract of a sized record\<close>

definition queue_bytes :: "chunk_queue \<Rightarrow> string" where
  "queue_bytes q = concat (map (\<lambda>c. case c of None \<Rightarrow> [] | Some ch \<Rightarrow> ch) q)"

lemma queue_bytes_simps [simp]:
  "queue_bytes [] = []" "queue_bytes (None # q) = queue_bytes q" "queue_bytes (Some ch # q) = ch @ queue_bytes q"
  "queue_bytes (q @ q') = queue_bytes q @ queue_bytes q'" "queue_bytes (map Some cs) = concat cs"
  by (simp_all add: queue_bytes_def comp_def)

locale sized_reader =
  fixes iter :: "u64 \<Rightarrow> string \<Rightarrow> chunk_queue \<Rightarrow> (string read_loop \<times> chunk_queue) throws"
    and n :: nat
  assumes idle: "iter tot got [] = Inr (Reading tot got, [])"
    and chunk: "n < 2 ^ 63 \<Longrightarrow> t < n \<Longrightarrow> length ch < 2 ^ 63 \<Longrightarrow> iter (of_nat t) got (Some ch # rest) =
      Inr (if ch = [] then (Reading (of_nat t) got, rest)
           else if t + length ch < n then (Reading (of_nat (t + length ch)) (got @ ch), rest)
           else (Finished (got @ take (n - t) ch),
                 if t + length ch = n then rest else Some (drop (n - t) ch) # rest))"
begin

lemma iter_total:
  assumes "n < 2 ^ 63" and "length got < n" and "\<forall>c \<in> set q. c \<noteq> None \<longrightarrow> length (the c) < 2 ^ 63"
    and "q = [] \<or> hd q \<noteq> None"
  obtains (wait) "q = []" "iter (of_nat (length got)) got q = Inr (Reading (of_nat (length got)) got, [])"
    | (again) got' where
        "q \<noteq> []" "iter (of_nat (length got)) got q = Inr (Reading (of_nat (length got')) got', tl q)"
        "got' @ queue_bytes (tl q) = got @ queue_bytes q" "length got' < n"
    | (finish) got' q' where
        "iter (of_nat (length got)) got q = Inr (Finished got', q')"
        "got' @ queue_bytes q' = got @ queue_bytes q" "length got' = n"
        "q \<noteq> []" "q' = tl q \<or> (\<exists>c. length c < 2 ^ 63 \<and> q' = Some c # tl q)"
proof (cases q)
  case Nil
  then show thesis by (intro that(1)) (simp_all add: idle)
next
  case (Cons c rest)
  with assms(3,4) obtain ch where q: "q = Some ch # rest" and ch: "length ch < 2 ^ 63" by auto
  note step = chunk [OF assms(1,2) ch, of got rest, folded q]
  show thesis
  proof (cases "ch = [] \<or> length got + length ch < n")
    case True
    with step q assms(2) show thesis by (intro that(2) [of "got @ ch"]) auto
  next
    case False
    let ?q = "if length got + length ch = n then rest else Some (drop (n - length got) ch) # rest"
    have "length (drop (n - length got) ch) < 2 ^ 63" using ch by simp
    with step q False assms(2) show thesis
      by (intro that(3) [of "got @ take (n - length got) ch" ?q]) (auto simp: min_def)
  qed
qed

end

section \<open>The two protocols meet it\<close>

lemma unat_diff_of_nat: "t \<le> n \<Longrightarrow> n < 2 ^ 64 \<Longrightarrow> unat (of_nat n - of_nat t :: u64) = n - t"
  by (metis diff_le_self le_less_trans of_nat_diff unat_of_nat_u64)

lemma of_nat_u64_le: "a < 2 ^ 64 \<Longrightarrow> b < 2 ^ 64 \<Longrightarrow> (of_nat a :: u64) \<le> of_nat b \<longleftrightarrow> a \<le> b"
  by (simp only: word_le_nat_alt unat_of_nat_u64)

interpretation read_v2: sized_reader "read_iter (Read_batched_v2 (of_nat n) False) append_chunk" n
proof unfold_locales
  show "read_iter (Read_batched_v2 (of_nat n) False) append_chunk tot got [] = Inr (Reading tot got, [])" for tot got
    by (simp add: read_iter_def read_iter_v2_def take_front_v2_def)
  fix t got rest and ch :: string
  assume n: "n < 2 ^ 63" and t: "t < n" and ch: "length ch < 2 ^ 63"
  then have left: "unat (of_nat n - of_nat t :: u64) = n - t" by (intro unat_diff_of_nat) auto
  have "\<not> length ch > n - t \<Longrightarrow> ((of_nat n :: u64) \<le> of_nat (t + length ch)) = (n \<le> t + length ch)"
    using n t ch by (intro of_nat_u64_le) auto
  moreover have "(of_nat n :: u64) \<le> of_nat (t + (n - t))" using t by simp
  ultimately show "read_iter (Read_batched_v2 (of_nat n) False) append_chunk (of_nat t) got (Some ch # rest) =
      Inr (if ch = [] then (Reading (of_nat t) got, rest)
           else if t + length ch < n then (Reading (of_nat (t + length ch)) (got @ ch), rest)
           else (Finished (got @ take (n - t) ch),
                 if t + length ch = n then rest else Some (drop (n - t) ch) # rest))"
    using t by (auto simp: read_iter_def read_iter_v2_def take_front_v2_def left append_chunk_def
        substr_def substr_from_def min_def not_less)
qed

interpretation read_v1: sized_reader "read_iter (Read_batched_v1 (int n) False) append_chunk" n
proof unfold_locales
  show "read_iter (Read_batched_v1 (int n) False) append_chunk tot got [] = Inr (Reading tot got, [])" for tot got
    by (simp add: read_iter_def read_iter_v1_def take_front_v1_def)
  fix t got rest and ch :: string
  assume n: "n < 2 ^ 63" and t: "t < n" and ch: "length ch < 2 ^ 63"
  then have left: "unat (of_nat n - of_nat t :: u64) = n - t" by (intro unat_diff_of_nat) auto
  have "\<not> length ch > n - t \<Longrightarrow> ((of_nat n :: u64) \<le> of_nat (t + length ch)) = (n \<le> t + length ch)"
    using n t ch by (intro of_nat_u64_le) auto
  moreover have "(of_nat n :: u64) \<le> of_nat (t + (n - t))" using t by simp
  ultimately show "read_iter (Read_batched_v1 (int n) False) append_chunk (of_nat t) got (Some ch # rest) =
      Inr (if ch = [] then (Reading (of_nat t) got, rest)
           else if t + length ch < n then (Reading (of_nat (t + length ch)) (got @ ch), rest)
           else (Finished (got @ take (n - t) ch),
                 if t + length ch = n then rest else Some (drop (n - t) ch) # rest))"
    using t by (auto simp: read_iter_def read_iter_v1_def take_front_v1_def Let_def left append_chunk_def
        substr_def substr_from_def min_def not_less)
qed

section \<open>The records of a response\<close>

text \<open>The read function of a record with content of \<open>n\<close> bytes.\<close>

definition fn_size :: "read_fn \<Rightarrow> nat \<Rightarrow> bool" where
  "fn_size f n \<longleftrightarrow> 0 < n \<and> n < 2 ^ 63 \<and> (f = Read_batched_v1 (int n) False \<or> f = Read_batched_v2 (of_nat n) False)"

lemma fn_size_reader: "fn_size f n \<Longrightarrow> sized_reader (read_iter f append_chunk) n"
  using read_v1.sized_reader_axioms [of n] read_v2.sized_reader_axioms [of n] by (auto simp: fn_size_def)

text \<open>The body cut into consecutive pieces.\<close>

primrec split_sizes :: "nat list \<Rightarrow> string \<Rightarrow> string list" where
  "split_sizes [] s = []"
| "split_sizes (n # ns) s = take n s # split_sizes ns (drop n s)"

lemma split_sizes_unique: "split_sizes (map length xs) (concat xs @ rest) = xs"
  by (induction xs) simp_all

lemma sum_take_le: "sum_list (take k ns) \<le> sum_list (ns :: nat list)"
  by (induction ns arbitrary: k) (auto simp: take_Cons split: nat.splits)

text \<open>
  The invariant: the finished reads, the running one, the queue and what is still to arrive
  make up the body, and every finished read has the size of its record.
\<close>

definition sys_inv :: "nat list \<Rightarrow> string \<Rightarrow> read_sys \<Rightarrow> bool" where
  "sys_inv ns body s \<longleftrightarrow>
     (\<exists>cs. sy_queue s @ sy_pending s = map Some cs @ [None] \<and> (\<forall>c \<in> set cs. length c < 2 ^ 63) \<and>
        map length (sy_out s) = take (length (sy_out s)) ns \<and>
        (case sy_current s of
           None \<Rightarrow> concat (sy_out s) @ concat cs = body \<and> list_all2 fn_size (sy_todo s) (drop (length (sy_out s)) ns)
         | Some (f, tot, got) \<Rightarrow>
             concat (sy_out s) @ got @ concat cs = body \<and>
             (\<exists>n. list_all2 fn_size (f # sy_todo s) (drop (length (sy_out s)) ns) \<and>
                n = ns ! length (sy_out s) \<and> length got < n \<and> tot = of_nat (length got))))"

lemma sys_inv_init:
  assumes "list_all2 fn_size fs ns" and "\<forall>c \<in> set chunks. length c < 2 ^ 63"
  shows "sys_inv ns (concat chunks) (sys_init chunks fs)"
  using assms by (auto simp: sys_inv_def sys_init_def)

text \<open>While a read goes on, the end of the stream has not been reached.\<close>

lemma sys_inv_current:
  assumes "sys_inv ns body s" and "sum_list ns \<le> length body" and "sy_current s = Some (f, tot, got)"
  obtains n cs where
    "fn_size f n" "n = ns ! length (sy_out s)" "length (sy_out s) < length ns" "length got < n"
    "tot = of_nat (length got)" "sy_queue s @ sy_pending s = map Some cs @ [None]" "cs \<noteq> []"
    "\<forall>c \<in> set cs. length c < 2 ^ 63" "concat (sy_out s) @ got @ concat cs = body"
    "map length (sy_out s) = take (length (sy_out s)) ns"
    "list_all2 fn_size (sy_todo s) (drop (Suc (length (sy_out s))) ns)"
proof -
  let ?k = "length (sy_out s)"
  obtain cs n where inv: "sy_queue s @ sy_pending s = map Some cs @ [None]" "\<forall>c \<in> set cs. length c < 2 ^ 63"
    "map length (sy_out s) = take ?k ns" "concat (sy_out s) @ got @ concat cs = body"
    "list_all2 fn_size (f # sy_todo s) (drop ?k ns)" "n = ns ! ?k" "length got < n" "tot = of_nat (length got)"
    using assms(1,3) by (auto simp: sys_inv_def)
  from inv(5) have k: "?k < length ns"
    by (metis drop_all list.distinct(1) list_all2_Nil2 not_less)
  with inv(5,6) have fn: "fn_size f n" "list_all2 fn_size (sy_todo s) (drop (Suc ?k) ns)"
    by (simp_all add: Cons_nth_drop_Suc [symmetric])
  have "cs \<noteq> []"
  proof
    assume "cs = []"
    with inv(4) have "length body = sum_list (map length (sy_out s)) + length got"
      by (auto simp: length_concat)
    also have "\<dots> < sum_list (take ?k ns) + n" using inv(3,7) by simp
    also have "\<dots> = sum_list (take (Suc ?k) ns)" using k inv(6) by (simp add: take_Suc_conv_app_nth)
    also have "\<dots> \<le> sum_list ns" by (rule sum_take_le)
    finally show False using assms(2) by simp
  qed
  with inv fn k show thesis using that by blast
qed

lemma queue_prefix:
  assumes "q @ p = map Some cs @ [None]" and "cs \<noteq> []"
  shows "q = [] \<or> hd q \<noteq> None" and "\<forall>c \<in> set cs. length c < m \<Longrightarrow> \<forall>c \<in> set q. c \<noteq> None \<longrightarrow> length (the c) < m"
proof -
  obtain c cs' where "cs = c # cs'" using assms(2) by (cases cs) auto
  with assms(1) show "q = [] \<or> hd q \<noteq> None" by (cases q) auto
  have "set q \<subseteq> insert None (Some ` set cs)"
    using assms(1) by (metis Un_upper1 empty_set list.simps(15) set_append set_map sup_bot.right_neutral sup_commute insert_is_Un)
  then show "\<forall>c \<in> set cs. length c < m \<Longrightarrow> \<forall>c \<in> set q. c \<noteq> None \<longrightarrow> length (the c) < m" by auto
qed

text \<open>Every step keeps the invariant, and it idles or brings the reading closer to its end.\<close>

definition sys_measure :: "read_sys \<Rightarrow> nat" where
  "sys_measure s =
     2 * length (sy_pending s) + length (sy_queue s) + 2 * length (sy_todo s) +
     (case sy_current s of None \<Rightarrow> 0 | Some _ \<Rightarrow> 1)"

text \<open>The queue after an iteration that took a chunk, or a part of it.\<close>

lemma rest_of_queue:
  assumes "q @ p = map Some cs @ [None]" and "q \<noteq> []" and "q = [] \<or> hd q \<noteq> None"
    and "\<forall>c \<in> set cs. length c < 2 ^ 63" and "q' = tl q \<or> (\<exists>c. length c < 2 ^ 63 \<and> q' = Some c # tl q)"
    and "got' @ queue_bytes q' = got @ queue_bytes q"
  obtains cs' where "q' @ p = map Some cs' @ [None]" and "\<forall>c \<in> set cs'. length c < 2 ^ 63"
    and "got' @ concat cs' = got @ concat cs" and "length q' \<le> length q"
proof -
  obtain x rest where q: "q = x # rest" using assms(2) by (cases q) auto
  with assms(1,3) obtain c cs0 where cs: "cs = c # cs0" "x = Some c" "rest @ p = map Some cs0 @ [None]"
    by (cases cs) auto
  obtain cs' where cs': "q' @ p = map Some cs' @ [None]" "\<forall>c \<in> set cs'. length c < 2 ^ 63"
  proof (cases "q' = tl q")
    case True
    with q cs assms(4) show thesis by (intro that [of cs0]) auto
  next
    case False
    with assms(5) obtain d where "length d < 2 ^ 63" "q' = Some d # tl q" by blast
    with q cs assms(4) show thesis by (intro that [of "d # cs0"]) auto
  qed
  moreover have "queue_bytes (q' @ p) = concat cs'" "queue_bytes (q @ p) = concat cs"
    by (simp_all add: cs'(1) assms(1))
  then have "got' @ concat cs' = got @ concat cs" using assms(6) by (metis append_assoc queue_bytes_simps(4))
  moreover have "length q' \<le> length q" using assms(5) by (auto simp: q)
  ultimately show thesis by (rule that)
qed

lemma sys_iter_inv:
  assumes inv: "sys_inv ns body s" and le: "sum_list ns \<le> length body" and cur: "sy_current s = Some (f, tot, got)"
    and step: "read_iter f append_chunk tot got (sy_queue s) = Inr (r, q)"
  shows "case r of
      Reading tot' got' \<Rightarrow>
        (let t = s\<lparr>sy_current := Some (f, tot', got'), sy_queue := q\<rparr>
         in sys_inv ns body t \<and> (t = s \<or> sys_measure t < sys_measure s) \<and> (sy_queue s \<noteq> [] \<longrightarrow> t \<noteq> s))
    | Finished got' \<Rightarrow>
        (let t = s\<lparr>sy_current := None, sy_queue := q, sy_out := sy_out s @ [got']\<rparr>
         in sys_inv ns body t \<and> sys_measure t < sys_measure s)"
proof -
  let ?k = "length (sy_out s)"
  obtain n cs where c: "fn_size f n" "n = ns ! ?k" "?k < length ns" "length got < n"
    "tot = of_nat (length got)" "sy_queue s @ sy_pending s = map Some cs @ [None]" "cs \<noteq> []"
    "\<forall>c \<in> set cs. length c < 2 ^ 63" "concat (sy_out s) @ got @ concat cs = body"
    "map length (sy_out s) = take ?k ns" "list_all2 fn_size (sy_todo s) (drop (Suc ?k) ns)"
    by (rule sys_inv_current [OF inv le cur])
  have n: "n < 2 ^ 63" using c(1) by (simp add: fn_size_def)
  note q = queue_prefix [OF c(6,7)]
  have fns: "list_all2 fn_size (f # sy_todo s) (drop ?k ns)"
    using c(1,2,3,11) by (simp add: Cons_nth_drop_Suc [symmetric])
  show ?thesis
  proof (rule sized_reader.iter_total [OF fn_size_reader [OF c(1)] n c(4) q(2) [OF c(8)] q(1)], goal_cases)
    case 1
    then have "r = Reading tot got" "q = []" using step c(5) by auto
    moreover have "s\<lparr>sy_current := Some (f, tot, got), sy_queue := []\<rparr> = s"
      using cur 1(1) by (simp add: read_sys.equality)
    ultimately show ?case using inv 1(1) by simp
  next
    case (2 got')
    then have r: "r = Reading (of_nat (length got')) got'" "q = tl (sy_queue s)" using step c(5) by auto
    obtain cs' where "tl (sy_queue s) @ sy_pending s = map Some cs' @ [None]" "\<forall>c \<in> set cs'. length c < 2 ^ 63"
      "got' @ concat cs' = got @ concat cs"
      by (rule rest_of_queue [OF c(6) 2(1) q(1) c(8) disjI1 [OF refl] 2(3)])
    then have "sys_inv ns body (s\<lparr>sy_current := Some (f, of_nat (length got'), got'), sy_queue := tl (sy_queue s)\<rparr>)"
      using c(2,9,10) 2(4) fns unfolding sys_inv_def by (intro exI [of _ cs']) auto
    moreover have "length (tl (sy_queue s)) < length (sy_queue s)" using 2(1) by (cases "sy_queue s") auto
    moreover have "t \<noteq> s" if "sy_queue t = tl (sy_queue s)" for t
      using that 2(1) by (cases "sy_queue s") auto
    ultimately show ?case
      using cur unfolding r by (simp add: sys_measure_def Let_def)
  next
    case (3 got' q')
    then have r: "r = Finished got'" "q = q'" using step c(5) by auto
    obtain cs' where "q' @ sy_pending s = map Some cs' @ [None]" "\<forall>c \<in> set cs'. length c < 2 ^ 63"
      "got' @ concat cs' = got @ concat cs" and le': "length q' \<le> length (sy_queue s)"
      by (rule rest_of_queue [OF c(6) 3(4) q(1) c(8) 3(5) 3(2)])
    moreover have "map length (sy_out s @ [got']) = take (Suc ?k) ns"
      using c(2,3,10) 3(3) by (simp add: take_Suc_conv_app_nth)
    ultimately have "sys_inv ns body (s\<lparr>sy_current := None, sy_queue := q', sy_out := sy_out s @ [got']\<rparr>)"
      using c(9,11) unfolding sys_inv_def by (intro exI [of _ cs']) auto
    with le' show ?case
      using cur unfolding r by (simp add: sys_measure_def Let_def)
  qed
qed

lemma sys_inv_same:
  "sy_queue t @ sy_pending t = sy_queue s @ sy_pending s \<Longrightarrow> sy_out t = sy_out s \<Longrightarrow>
     sy_todo t = sy_todo s \<Longrightarrow> sy_current t = sy_current s \<Longrightarrow> sys_inv ns body t = sys_inv ns body s"
  by (simp only: sys_inv_def)

lemma sys_step_inv:
  assumes "sys_step s t" and "sys_inv ns body s" and "sum_list ns \<le> length body"
  shows "sys_inv ns body t \<and> (t = s \<or> sys_measure t < sys_measure s)"
  using assms(1)
proof (cases rule: sys_step.cases)
  case (sys_push x xs)
  then have "sys_inv ns body t = sys_inv ns body s" by (intro sys_inv_same) simp_all
  with sys_push assms(2) show ?thesis by (simp add: sys_measure_def)
next
  case (sys_start f fs)
  let ?k = "length (sy_out s)"
  obtain cs where inv: "sy_queue s @ sy_pending s = map Some cs @ [None]" "\<forall>c \<in> set cs. length c < 2 ^ 63"
    "map length (sy_out s) = take ?k ns" "concat (sy_out s) @ concat cs = body"
    "list_all2 fn_size (f # fs) (drop ?k ns)"
    using assms(2) sys_start(2,3) by (auto simp: sys_inv_def)
  from inv(5) have "?k < length ns"
    by (metis drop_all list.distinct(1) list_all2_Nil2 not_less)
  with inv(5) have "0 < ns ! ?k"
    by (auto simp: Cons_nth_drop_Suc [symmetric] fn_size_def)
  with inv have "sys_inv ns body t"
    unfolding sys_start(1) sys_inv_def by (intro exI [of _ cs]) auto
  with sys_start show ?thesis by (simp add: sys_measure_def)
next
  case (sys_again f tot got tot' got' q)
  from sys_iter_inv [OF assms(2,3) sys_again(2,3)] sys_again(1) show ?thesis by (simp add: Let_def)
next
  case (sys_finish f tot got got' q)
  from sys_iter_inv [OF assms(2,3) sys_finish(2,3)] sys_finish(1) show ?thesis by (simp add: Let_def)
qed

lemma sys_reach_inv:
  assumes "sys_step\<^sup>*\<^sup>* (sys_init chunks fs) s" and "list_all2 fn_size fs ns"
    and "\<forall>c \<in> set chunks. length c < 2 ^ 63" and "sum_list ns \<le> length (concat chunks)"
  shows "sys_inv ns (concat chunks) s"
  using assms(1)
proof (induction rule: rtranclp_induct)
  case base
  then show ?case by (rule sys_inv_init [OF assms(2,3)])
next
  case (step s t)
  then show ?case using sys_step_inv assms(4) by blast
qed

text \<open>A reading that is not done has a step that is not idle, and no step without a meaning.\<close>

lemma sys_read_progress:
  assumes inv: "sys_inv ns body s" and le: "sum_list ns \<le> length body" and cur: "sy_current s = Some (f, tot, got)"
    and "sy_queue s \<noteq> []" and it: "read_iter f append_chunk tot got (sy_queue s) = Inr (r, q)"
  shows "\<exists>t. sys_step s t \<and> sys_measure t < sys_measure s"
proof (cases r)
  case (Reading tot' got')
  from sys_iter_inv [OF inv le cur it] assms(4)
  have "sys_measure (s\<lparr>sy_current := Some (f, tot', got'), sy_queue := q\<rparr>) < sys_measure s"
    by (auto simp: Reading Let_def)
  with sys_again [OF cur it [unfolded Reading]] show ?thesis by blast
next
  case (Finished got')
  from sys_iter_inv [OF inv le cur it]
  have "sys_measure (s\<lparr>sy_current := None, sy_queue := q, sy_out := sy_out s @ [got']\<rparr>) < sys_measure s"
    by (simp add: Finished Let_def)
  with sys_finish [OF cur it [unfolded Finished]] show ?thesis by blast
qed

lemma sys_progress:
  assumes inv: "sys_inv ns body s" and le: "sum_list ns \<le> length body" and "\<not> sys_done s"
  shows "\<exists>t. sys_step s t \<and> sys_measure t < sys_measure s"
proof (cases "sy_current s")
  case None
  with assms(3) obtain f fs where "sy_todo s = f # fs" by (cases "sy_todo s") (auto simp: sys_done_def)
  with None show ?thesis
    by - (rule exI, rule conjI, erule (1) sys_start, simp add: sys_measure_def)
next
  case (Some cur)
  obtain f tot got where cur: "sy_current s = Some (f, tot, got)" using Some by (cases cur) auto
  obtain n cs where c: "fn_size f n" "length got < n" "tot = of_nat (length got)"
    "sy_queue s @ sy_pending s = map Some cs @ [None]" "cs \<noteq> []" "\<forall>c \<in> set cs. length c < 2 ^ 63"
    by (rule sys_inv_current [OF inv le cur])
  show ?thesis
  proof (cases "sy_queue s")
    case Nil
    with c(4) obtain x xs where "sy_pending s = x # xs" by (cases "sy_pending s") auto
    then show ?thesis
      by - (rule exI, rule conjI, erule sys_push, simp add: sys_measure_def)
  next
    case (Cons x q)
    note pre = queue_prefix [OF c(4,5)]
    have "n < 2 ^ 63" using c(1) by (simp add: fn_size_def)
    then obtain r q' where "read_iter f append_chunk tot got (sy_queue s) = Inr (r, q')"
      using sized_reader.iter_total [OF fn_size_reader [OF c(1)] _ c(2) pre(2) [OF c(6)] pre(1)] c(3)
      by metis
    with Cons show ?thesis by (intro sys_read_progress [OF inv le cur]) simp_all
  qed
qed

lemma sys_no_ub: "sys_inv ns body s \<Longrightarrow> sum_list ns \<le> length body \<Longrightarrow> \<not> sys_ub s"
proof
  assume inv: "sys_inv ns body s" and le: "sum_list ns \<le> length body" and "sys_ub s"
  then obtain f tot got e where cur: "sy_current s = Some (f, tot, got)"
    and e: "read_iter f append_chunk tot got (sy_queue s) = Inl e"
    by (auto simp: sys_ub_def split: option.splits)
  obtain n cs where c: "fn_size f n" "length got < n" "tot = of_nat (length got)"
    "sy_queue s @ sy_pending s = map Some cs @ [None]" "cs \<noteq> []" "\<forall>c \<in> set cs. length c < 2 ^ 63"
    by (rule sys_inv_current [OF inv le cur])
  note pre = queue_prefix [OF c(4,5)]
  have "n < 2 ^ 63" using c(1) by (simp add: fn_size_def)
  then show False
    using sized_reader.iter_total [OF fn_size_reader [OF c(1)] _ c(2) pre(2) [OF c(6)] pre(1)] c(3) e
    by (metis Inl_Inr_False)
qed

lemma sys_done_out:
  assumes "sys_inv ns body s" and "sys_done s"
  shows "sy_out s = split_sizes ns body"
proof -
  obtain cs where "concat (sy_out s) @ concat cs = body" "map length (sy_out s) = take (length (sy_out s)) ns"
    "drop (length (sy_out s)) ns = []"
    using assms by (auto simp: sys_inv_def sys_done_def)
  then show ?thesis using split_sizes_unique [of "sy_out s" "concat cs"] by simp
qed

lemma sys_can_finish:
  assumes "sys_inv ns body s" and "sum_list ns \<le> length body"
  shows "\<exists>t. sys_step\<^sup>*\<^sup>* s t \<and> sys_done t"
  using assms(1)
proof (induction "sys_measure s" arbitrary: s rule: less_induct)
  case less
  show ?case
  proof (cases "sys_done s")
    case False
    then obtain t where "sys_step s t" "sys_measure t < sys_measure s"
      using sys_progress [OF less.prems assms(2)] by blast
    moreover from this have "sys_inv ns body t" using sys_step_inv less.prems assms(2) by blast
    ultimately show ?thesis using less.hyps by (meson converse_rtranclp_into_rtranclp)
  qed blast
qed

section \<open>One schedule\<close>

text \<open>The network first, then the reads: an executable run of the system, for the examples.\<close>

definition next_state :: "read_sys \<Rightarrow> read_sys" where
  "next_state s =
     (case sy_pending s of
        x # xs \<Rightarrow> s\<lparr>sy_pending := xs, sy_queue := sy_queue s @ [x]\<rparr>
      | [] \<Rightarrow>
          (case sy_current s of
             None \<Rightarrow> (case sy_todo s of [] \<Rightarrow> s | f # fs \<Rightarrow> s\<lparr>sy_todo := fs, sy_current := Some (f, 0, [])\<rparr>)
           | Some (f, tot, got) \<Rightarrow>
               (case read_iter f append_chunk tot got (sy_queue s) of
                  Inl e \<Rightarrow> s
                | Inr (Reading tot' got', q) \<Rightarrow> s\<lparr>sy_current := Some (f, tot', got'), sy_queue := q\<rparr>
                | Inr (Finished got', q) \<Rightarrow>
                    s\<lparr>sy_current := None, sy_queue := q, sy_out := sy_out s @ [got']\<rparr>)))"

lemma next_state_step: "next_state s = s \<or> sys_step s (next_state s)"
  unfolding next_state_def
  by (auto split: list.split option.split sum.split read_loop.split
      intro: sys_push sys_start sys_again sys_finish)

section \<open>What the callbacks get\<close>

text \<open>
  C23: Reading all records of a response under any interleaving of the network thread and the
  callback thread: no iteration is undefined, and when all reads are done, each returned its
  own piece of the body, in order, however the body was cut into chunks.
\<close>

theorem reads_split_the_body:
  assumes "sys_step\<^sup>*\<^sup>* (sys_init chunks fs) s" and "list_all2 fn_size fs ns"
    and "\<forall>c \<in> set chunks. length c < 2 ^ 63" and "sum_list ns \<le> length (concat chunks)"
  shows "\<not> sys_ub s \<and> (sys_done s \<longrightarrow> sy_out s = split_sizes ns (concat chunks))"
  using sys_reach_inv [OF assms] sys_no_ub sys_done_out assms(4) by blast

definition sample_fns :: "read_fn list" where
  "sample_fns = [Read_batched_v1 2 False, Read_batched_v2 1 False]"

lemma sample_fns_sizes: "list_all2 fn_size sample_fns [2, 1]"
  by (simp add: sample_fns_def fn_size_def)

theorem reads_split_the_body_witness:
  "\<exists>t. sys_step\<^sup>*\<^sup>* (sys_init [''a'', ''bc''] sample_fns) t \<and> sys_done t \<and> \<not> sys_ub t \<and>
     sy_out t = [''ab'', ''c'']"
proof -
  have "sys_inv [2, 1] (concat [''a'', ''bc'']) (sys_init [''a'', ''bc''] sample_fns)"
    by (rule sys_inv_init [OF sample_fns_sizes]) simp
  then obtain t where t: "sys_step\<^sup>*\<^sup>* (sys_init [''a'', ''bc''] sample_fns) t" "sys_done t"
    using sys_can_finish by fastforce
  have "\<not> sys_ub t \<and> (sys_done t \<longrightarrow> sy_out t = split_sizes [2, 1] (concat [''a'', ''bc'']))"
    by (rule reads_split_the_body [OF t(1) sample_fns_sizes]) simp_all
  moreover have "split_sizes [2, 1] (concat [''a'', ''bc'']) = [''ab'', ''c'']" by simp
  ultimately show ?thesis using t by metis
qed

text \<open>
  C24: The reading of a response never gets stuck: from every state it can be brought to its end,
  and every step that does anything but wait decreases a measure of the state, so that no more
  such steps are possible than the measure of the first state says.
\<close>

theorem reads_can_finish:
  assumes "sys_step\<^sup>*\<^sup>* (sys_init chunks fs) s" and "list_all2 fn_size fs ns"
    and "\<forall>c \<in> set chunks. length c < 2 ^ 63" and "sum_list ns \<le> length (concat chunks)"
  shows "(\<exists>t. sys_step\<^sup>*\<^sup>* s t \<and> sys_done t) \<and>
    (\<forall>t. sys_step s t \<longrightarrow> t = s \<or> sys_measure t < sys_measure s)"
  using sys_reach_inv [OF assms] sys_can_finish sys_step_inv assms(4) by blast

theorem reads_can_finish_witness:
  "(\<exists>t. sys_step\<^sup>*\<^sup>* (sys_init [''a'', ''bc''] sample_fns) t \<and> sys_done t) \<and>
   sys_measure (next_state (sys_init [''a'', ''bc''] sample_fns)) < sys_measure (sys_init [''a'', ''bc''] sample_fns)"
proof -
  let ?s = "sys_init [''a'', ''bc''] sample_fns"
  have "next_state ?s \<noteq> ?s" by (simp add: next_state_def sys_init_def)
  moreover from this have "sys_step ?s (next_state ?s)" using next_state_step by blast
  moreover have "(\<exists>t. sys_step\<^sup>*\<^sup>* ?s t \<and> sys_done t) \<and>
      (\<forall>t. sys_step ?s t \<longrightarrow> t = ?s \<or> sys_measure t < sys_measure ?s)"
    by (rule reads_can_finish [OF rtranclp.rtrancl_refl sample_fns_sizes]) simp_all
  ultimately show ?thesis by blast
qed

section \<open>Outside of the contract\<close>

text \<open>
  C39: A record of size zero that is followed by data is never read to its end: from the moment
  its read runs and there is a chunk in the queue, every later state is still in that read.
\<close>

theorem zero_size_read_never_ends:
  assumes "sys_step\<^sup>*\<^sup>* s t" and "f = Read_batched_v1 0 False \<or> f = Read_batched_v2 0 False"
    and "sy_current s = Some (f, 0, [])" and "sy_queue s = Some ch # q" and "ch \<noteq> []"
  shows "sy_current t = Some (f, 0, []) \<and> (\<exists>q'. sy_queue t = Some ch # q')"
  using assms(1)
proof (induction rule: rtranclp_induct)
  case base
  then show ?case using assms by simp
next
  case (step t u)
  then obtain q' where t: "sy_current t = Some (f, 0, [])" "sy_queue t = Some ch # q'" by blast
  have iter: "read_iter f append_chunk 0 [] (Some ch # q') = Inr (Reading 0 [], Some ch # q')"
    using assms(2,5) by (auto simp: read_iter_def read_iter_v1_def read_iter_v2_def take_front_v1_def
        take_front_v2_def substr_def substr_from_def)
  from step(2) show ?case
    by (cases rule: sys_step.cases) (use t iter in auto)
qed

definition stuck_state :: read_sys where
  "stuck_state = \<lparr>sy_pending = [], sy_queue = [Some ''x'', None],
     sy_todo = [], sy_current = Some (Read_batched_v2 0 False, 0, []), sy_out = []\<rparr>"

theorem zero_size_read_never_ends_witness:
  "sy_current stuck_state = Some (Read_batched_v2 0 False, 0, []) \<and> (\<exists>q'. sy_queue stuck_state = Some ''x'' # q')"
  by (rule zero_size_read_never_ends [OF rtranclp.rtrancl_refl, where q = "[None]"]) (simp_all add: stuck_state_def)

text \<open>
  C40: In v1 a response that ends before the content of a record is complete leads to an
  iteration that reads the size of an empty optional; in v2 the same response ends the read.
\<close>

theorem v1_short_body_is_undefined:
  assumes "c \<noteq> []" and "length c < n" and "n < 2 ^ 63"
  shows "(\<exists>s. sys_step\<^sup>*\<^sup>* (sys_init [c] [Read_batched_v1 (int n) False]) s \<and> sys_ub s) \<and>
    (\<exists>s. sys_step\<^sup>*\<^sup>* (sys_init [c] [Read_batched_v2 (of_nat n) False]) s \<and> sys_done s \<and> sy_out s = [c])"
proof -
  let ?st = "\<lambda>pend queue todo cur out.
    \<lparr>sy_pending = pend, sy_queue = queue, sy_todo = todo, sy_current = cur, sy_out = out\<rparr> :: read_sys"
  have run: "sys_step\<^sup>*\<^sup>* (sys_init [c] [f]) (?st [] [None] [] (Some (f, of_nat (length c), c)) [])"
    if "sized_reader (read_iter f append_chunk) n" for f
  proof -
    have iter: "read_iter f append_chunk 0 [] [Some c, None] = Inr (Reading (of_nat (length c)) c, [None])"
      using sized_reader.chunk [OF that assms(3), of 0 c "[]" "[None]"] assms by simp
    have "sys_step (sys_init [c] [f]) (?st [None] [Some c] [f] None [])"
      using sys_push [of "sys_init [c] [f]" "Some c" "[None]"] by (simp add: sys_init_def)
    moreover have "sys_step (?st [None] [Some c] [f] None []) (?st [] [Some c, None] [f] None [])"
      using sys_push [of "?st [None] [Some c] [f] None []" None "[]"] by simp
    moreover have "sys_step (?st [] [Some c, None] [f] None []) (?st [] [Some c, None] [] (Some (f, 0, [])) [])"
      using sys_start [of "?st [] [Some c, None] [f] None []" f "[]"] by simp
    moreover have "sys_step (?st [] [Some c, None] [] (Some (f, 0, [])) [])
        (?st [] [None] [] (Some (f, of_nat (length c), c)) [])"
      using sys_again [of "?st [] [Some c, None] [] (Some (f, 0, [])) []" f 0 "[]"] iter by simp
    ultimately show ?thesis by (meson converse_rtranclp_into_rtranclp rtranclp.rtrancl_refl)
  qed
  let ?f1 = "Read_batched_v1 (int n) False" and ?f2 = "Read_batched_v2 (of_nat n) False"
  have "sys_ub (?st [] [None] [] (Some (?f1, of_nat (length c), c)) [])"
    by (simp add: sys_ub_def read_iter_def read_iter_v1_def take_front_v1_def)
  moreover have "sys_step (?st [] [None] [] (Some (?f2, of_nat (length c), c)) []) (?st [] [] [] None [c])"
    using sys_finish [of "?st [] [None] [] (Some (?f2, of_nat (length c), c)) []" ?f2 "of_nat (length c)" c c "[]"]
    by (simp add: read_iter_def read_iter_v2_def take_front_v2_def)
  moreover have "sys_done (?st [] [] [] None [c])" by (simp add: sys_done_def)
  moreover note run [OF read_v1.sized_reader_axioms] run [OF read_v2.sized_reader_axioms]
  ultimately show ?thesis by (meson rtranclp.rtrancl_into_rtrancl read_sys.select_convs)
qed

theorem v1_short_body_is_undefined_witness:
  "(\<exists>s. sys_step\<^sup>*\<^sup>* (sys_init [''ab''] [Read_batched_v1 (int 3) False]) s \<and> sys_ub s) \<and>
   (\<exists>s. sys_step\<^sup>*\<^sup>* (sys_init [''ab''] [Read_batched_v2 (of_nat 3) False]) s \<and> sys_done s \<and> sy_out s = [''ab''])"
  by (rule v1_short_body_is_undefined) simp_all

end

