(* ===== verification/Delivery.thy ===== *)
theory Delivery
  imports Batch_V2_Roundtrip Batch_V1_Roundtrip Read_All
begin

text \<open>
  The components together: a batch that is sent with either protocol and comes back under its
  own headers is delivered record by record, with every payload in its record, however the
  upload and the download cut the body into chunks.
\<close>

section \<open>The payloads of the records\<close>

text \<open>No record without content: such a record stops the reading (zero_size_read_never_ends).\<close>

definition no_empty_record :: "batch \<Rightarrow> bool" where
  "no_empty_record b \<longleftrightarrow> (\<forall>r \<in> set (batch_records b). 0 < br_size r \<and> br_size r < 2 ^ 63)"

definition payloads_in_order :: "batch \<Rightarrow> nat list \<Rightarrow> string list" where
  "payloads_in_order b order = map (\<lambda>i. record_payload b (batch_records b ! i)) order"

lemma concat_payloads: "concat (payloads_in_order b order) = ordered_payload b order"
  by (simp add: payloads_in_order_def ordered_payload_def)

lemma payload_sizes:
  assumes "batch_ok b" and "\<forall>i \<in> set order. i < length (batch_records b)"
  shows "map length (payloads_in_order b order) = map (\<lambda>i. br_size (batch_records b ! i)) order"
  using assms by (auto simp: payloads_in_order_def batch_ok_def list_all_iff record_payload_length)

lemma delivered_reads:
  "map rr_read (delivered head d prev rs) = map (\<lambda>r. Read_batched_v2 (of_nat (br_size r)) head) rs"
  by (induction rs arbitrary: prev) (simp_all add: Let_def make_record_v2_def written_header_def)

lemma received_v1_reads:
  "map rr_read (map (received_v1 head) rs) = map (\<lambda>r. Read_batched_v1 (int (br_size r)) head) rs"
  by (simp add: received_v1_def)

text \<open>A body that is the payload of the batch is split into the payloads of its records.\<close>

lemma payloads_split:
  assumes "batch_ok b" and "\<forall>i \<in> set order. i < length (batch_records b)"
  shows "split_sizes (map (\<lambda>i. br_size (batch_records b ! i)) order) (ordered_payload b order) =
      payloads_in_order b order"
    and "sum_list (map (\<lambda>i. br_size (batch_records b ! i)) order) = length (ordered_payload b order)"
  using split_sizes_unique [of "payloads_in_order b order" "[]"]
  by (simp_all add: payload_sizes [OF assms, symmetric] concat_payloads [symmetric] length_concat)

lemma delivered_fn_sizes:
  assumes "no_empty_record b" and "\<forall>i \<in> set order. i < length (batch_records b)"
  shows "list_all2 fn_size (map rr_read (delivered False d prev (map ((!) (batch_records b)) order)))
    (map (\<lambda>i. br_size (batch_records b ! i)) order)"
  using assms by (auto simp: delivered_reads list_all2_conv_all_nth no_empty_record_def fn_size_def)

text \<open>Reading all records of a response whose body is the payload of the batch.\<close>

lemma payloads_delivered:
  assumes "batch_ok b" and "\<forall>i \<in> set order. i < length (batch_records b)"
    and "concat chunks = ordered_payload b order" and "\<forall>c \<in> set chunks. length c < 2 ^ 63"
    and "list_all2 fn_size fs (map (\<lambda>i. br_size (batch_records b ! i)) order)"
    and "sys_step\<^sup>*\<^sup>* (sys_init chunks fs) s"
  shows "\<not> sys_ub s \<and> (sys_done s \<longrightarrow> sy_out s = payloads_in_order b order) \<and>
    (\<exists>t. sys_step\<^sup>*\<^sup>* s t \<and> sys_done t)"
proof -
  note split = payloads_split [OF assms(1,2), folded assms(3)]
  have le: "sum_list (map (\<lambda>i. br_size (batch_records b ! i)) order) \<le> length (concat chunks)"
    by (simp add: split(2))
  have inv: "sys_inv (map (\<lambda>i. br_size (batch_records b ! i)) order) (concat chunks) s"
    by (rule sys_reach_inv [OF assms(6,5,4) le])
  show ?thesis
    using sys_no_ub [OF inv le] sys_done_out [OF inv] sys_can_finish [OF inv le] split(1) by simp
qed

text \<open>
  The v2 round trip with the content: the records that a receiver builds from the headers of
  a write request, among others in any order, read over the body of that request cut into any chunks and under any
  interleaving with the network, return exactly the payloads that were put into the batch, and
  the reading can always be finished.
\<close>

theorem v2_payloads_come_back:
  assumes "std_sort srt" and "std_sort srt'" and "sendable d b" and "batch_ok b" and "no_empty_record b"
    and "batch_records b \<noteq> []"
    and "mset (filter is_v2_header hs) = mset (bq_headers (res_value (build_batch_v2_request srt d b kWrite req)))"
    and "concat chunks = ordered_payload b (sort_records srt b d True)"
    and "\<forall>c \<in> set chunks. length c < 2 ^ 63"
  shows "\<exists>records. parse_and_build_batched_records_v2 srt' False hs = Inr records \<and>
    (\<forall>s. sys_step\<^sup>*\<^sup>* (sys_init chunks (map rr_read records)) s \<longrightarrow>
       \<not> sys_ub s \<and> (sys_done s \<longrightarrow> sy_out s = payloads_in_order b (sort_records srt b d True)) \<and>
       (\<exists>t. sys_step\<^sup>*\<^sup>* s t \<and> sys_done t))"
proof -
  let ?order = "sort_records srt b d True"
  let ?records = "mark_last (umap_get hs kHeaderLast = ''true'')
    (delivered False d Map.empty (map ((!) (batch_records b)) ?order))"
  have valid: "\<forall>i \<in> set ?order. i < length (batch_records b)" by (rule sort_records_valid [OF assms(1)])
  have "list_all2 fn_size (map rr_read ?records) (map (\<lambda>i. br_size (batch_records b ! i)) ?order)"
    unfolding mark_last_reads by (rule delivered_fn_sizes [OF assms(5) valid])
  from payloads_delivered [OF assms(4) valid assms(8,9) this]
    v2_request_read_back [OF assms(1,2,3,6,7), of False, THEN conjunct2]
  show ?thesis by blast
qed

lemma sample_batch_built: "built sample_batch"
  unfolding sample_batch_def by (intro built.intros)

lemma sample_batch_payload:
  "concat [''abch'', ''ixyz''] = ordered_payload sample_batch (sort_records isort sample_batch ''a'' True)"
  by code_simp

theorem v2_payloads_come_back_witness:
  "\<exists>records t. parse_and_build_batched_records_v2 isort False sample_answer = Inr records \<and>
    sys_step\<^sup>*\<^sup>* (sys_init [''abch'', ''ixyz''] (map rr_read records)) t \<and> sys_done t \<and>
    sy_out t = payloads_in_order sample_batch (sort_records isort sample_batch ''a'' True)"
proof -
  have ne: "no_empty_record sample_batch"
    by (simp add: no_empty_record_def sample_batch_def add_ops_defs batch_simps empty_batch_def)
  show ?thesis
    using v2_payloads_come_back [OF isort.std_sort_axioms isort.std_sort_axioms sample_batch_sendable(1)
        built_ok [OF sample_batch_built] ne sample_batch_sendable(2) sample_answer_headers sample_batch_payload]
      rtranclp.rtrancl_refl
    by simp blast
qed

text \<open>The same for v1, for the batches that v1 carries.\<close>

theorem v1_payloads_come_back:
  assumes "std_sort srt" and "sendable_v1 b" and "batch_ok b" and "no_empty_record b"
    and "mset (filter is_time_header hs) = mset (build_headers_v1 b kWrite (sort_records srt b d False))"
    and "concat chunks = ordered_payload b (sort_records srt b d False)"
    and "\<forall>c \<in> set chunks. length c < 2 ^ 63"
  shows "\<exists>records. parse_and_build_batched_records_v1 False hs = Inr records \<and>
    (\<forall>s. sys_step\<^sup>*\<^sup>* (sys_init chunks (map rr_read records)) s \<longrightarrow>
       \<not> sys_ub s \<and> (sys_done s \<longrightarrow> sy_out s = payloads_in_order b (sort_records srt b d False)) \<and>
       (\<exists>t. sys_step\<^sup>*\<^sup>* s t \<and> sys_done t))"
proof -
  let ?order = "sort_records srt b d False"
  let ?records = "mark_last (umap_get hs kHeaderLast = ''true'')
    (map (received_v1 False) (map ((!) (batch_records b)) ?order))"
  have valid: "\<forall>i \<in> set ?order. i < length (batch_records b)" by (rule sort_records_valid [OF assms(1)])
  then have "list_all2 fn_size (map rr_read ?records) (map (\<lambda>i. br_size (batch_records b ! i)) ?order)"
    unfolding mark_last_reads received_v1_reads
    using assms(4) by (auto simp: list_all2_conv_all_nth no_empty_record_def fn_size_def)
  from payloads_delivered [OF assms(3) valid assms(6,7) this]
    v1_request_read_back [OF assms(1,2,5), of False]
  show ?thesis by blast
qed

lemma sample_v1_built: "built sample_v1"
  unfolding sample_v1_def by (intro built.intros)

lemma sample_v1_payload:
  "concat [''ab'', ''chi''] = ordered_payload sample_v1 (sort_records isort sample_v1 [] False)"
  by code_simp

lemma sample_v1_headers:
  "filter is_time_header (build_headers_v1 sample_v1 kWrite (sort_records isort sample_v1 [] False)) =
    build_headers_v1 sample_v1 kWrite (sort_records isort sample_v1 [] False)"
  by code_simp

theorem v1_payloads_come_back_witness:
  "\<exists>records t. parse_and_build_batched_records_v1 False
      (build_headers_v1 sample_v1 kWrite (sort_records isort sample_v1 [] False)) = Inr records \<and>
    sys_step\<^sup>*\<^sup>* (sys_init [''ab'', ''chi''] (map rr_read records)) t \<and> sys_done t \<and>
    sy_out t = payloads_in_order sample_v1 (sort_records isort sample_v1 [] False)"
proof -
  have ne: "no_empty_record sample_v1"
    by (simp add: no_empty_record_def sample_v1_def add_ops_defs batch_simps empty_batch_def)
  show ?thesis
    using v1_payloads_come_back [OF isort.std_sort_axioms sample_v1_sendable built_ok [OF sample_v1_built] ne
        arg_cong [OF sample_v1_headers, of mset] sample_v1_payload]
      rtranclp.rtrancl_refl
    by simp blast
qed

end
