(* ===== verification/Batch_V2_Update.thy ===== *)
theory Batch_V2_Update
  imports Batch_V2_Roundtrip
begin

text \<open>
  What the v2 requests of every type say (batch_v2.cc): the headers of a write, an update or a
  removal name the records of the batch one by one, and the header of an update is read as changes
  to the labels of its record.
\<close>

section \<open>The records that the headers name\<close>

text \<open>What a receiver makes of the name of a header: the entry and the time of a record.\<close>

definition named_record :: "string list \<Rightarrow> u64 \<Rightarrow> parsed_header \<Rightarrow> string \<times> time \<times> string" where
  "named_record entries start_ts h =
     (case h of (i, delta, v) \<Rightarrow> (entries ! unat i, time_of_us (uint (start_ts + delta)), v))"

lemma parsed_of_names:
  assumes "request_facts b d order indices es s" and "addressable d b" and "i \<in> set order"
    and "i < length (batch_records b)"
  shows "named_record es s (parsed_of b d type indices s i) =
    (entry_of b d i, br_timestamp (batch_records b ! i), build_header_value_v2 (batch_records b ! i) type)"
proof -
  have ok: "indices_ok indices es" "length es < 2 ^ 64" and e: "entry_of b d i \<in> set es"
    using assms(1,3) by (auto simp: request_facts_def)
  obtain m where m: "map_of indices (entry_of b d i) = Some m" "m < length es" "es ! m = entry_of b d i"
    using indices_ok_lookup [OF ok(1) e] by blast
  then have "unat (of_nat m :: u64) = m" using ok(2) by (intro unat_of_nat_u64) simp
  moreover have "us_time (br_timestamp (batch_records b ! i))" "0 \<le> br_timestamp (batch_records b ! i)"
    using addressable_in [OF assms(2,4)] by simp_all
  ultimately show ?thesis
    using m by (simp add: named_record_def parsed_of_def time_of_us_word)
qed

text \<open>
  C4: The headers of a v2 request of any type name the records of the batch: a receiver that reads
  them by the rules of the protocol, in whatever order they arrive and among others, finds the
  entry, the time and the value of every record, once each and in the order of the request.
\<close>

theorem v2_requests_name_their_records:
  assumes "std_sort srt" and "std_sort srt'" and "addressable d b" and "batch_records b \<noteq> []"
    and "req = res_value (build_batch_v2_request srt d b type require)"
    and "mset (filter is_v2_header hs) = mset (bq_headers req)"
  shows "map_of hs kHeaderStartTs = Some (show_nat (unat (bq_start_ts req))) \<and>
    (\<exists>raw. map_of hs kHeaderEntries = Some raw \<and> parse_encoded_list raw = bq_entries req) \<and>
    map (named_record (bq_entries req) (bq_start_ts req)) (srt' parsed_header_less (parse_header_names hs)) =
      map (\<lambda>i. (entry_of b d i, br_timestamp (batch_records b ! i), build_header_value_v2 (batch_records b ! i) type))
        (sort_records srt b d True)"
proof -
  let ?order = "sort_records srt b d True"
  obtain indices es s where rf: "request_facts b d ?order indices es s"
    and strict: "sorted_wrt parsed_header_less (map (parsed_of b d type indices s) ?order)"
    and req: "build_batch_v2_request srt d b type require =
      ok_result \<lparr>bq_ordered = ?order, bq_entries = es, bq_start_ts = s,
        bq_headers = named_headers es s @ map (record_header_v2 b d type indices s) ?order\<rparr>"
    using build_request_eq [OF assms(1,3,4) refl] by blast
  have sent: "mset (filter is_v2_header hs) = mset (named_headers es s @ map (record_header_v2 b d type indices s) ?order)"
    using assms(5,6) req by simp
  have valid: "\<forall>i \<in> set ?order. i < length (batch_records b)" by (rule sort_records_valid [OF assms(1)])
  have "\<forall>e \<in> set es. entry_ok e"
    using rf valid addressable_in [OF assms(3)] by (auto simp: request_facts_def)
  moreover have "map (named_record es s) (map (parsed_of b d type indices s) ?order) =
      map (\<lambda>i. (entry_of b d i, br_timestamp (batch_records b ! i), build_header_value_v2 (batch_records b ! i) type)) ?order"
    using valid by (simp add: parsed_of_names [OF rf assms(3)])
  ultimately show ?thesis
    using request_lookups [OF rf strict sent] request_names_sorted [OF assms(2) rf strict sent] parse_encoded_join
    by (simp add: assms(5) req)
qed

theorem v2_requests_name_their_records_witness:
  "map (named_record (bq_entries (res_value (build_batch_v2_request isort ''a'' sample_batch kRemove False)))
      (bq_start_ts (res_value (build_batch_v2_request isort ''a'' sample_batch kRemove False))))
    (isort parsed_header_less (parse_header_names
      (rev (bq_headers (res_value (build_batch_v2_request isort ''a'' sample_batch kRemove False)))))) =
   map (\<lambda>i. (entry_of sample_batch ''a'' i, br_timestamp (batch_records sample_batch ! i),
        build_header_value_v2 (batch_records sample_batch ! i) kRemove))
     (sort_records isort sample_batch ''a'' True)"
proof -
  let ?req = "res_value (build_batch_v2_request isort ''a'' sample_batch kRemove False)"
  note ok = sendable_addressable [OF sample_batch_sendable(1)]
  have "filter is_v2_header (bq_headers ?req) = bq_headers ?req"
    by (rule request_headers_v2 [OF isort.std_sort_axioms ok sample_batch_sendable(2)])
  then have "mset (filter is_v2_header (rev (bq_headers ?req))) = mset (bq_headers ?req)"
    by (simp add: rev_filter [symmetric])
  from v2_requests_name_their_records [OF isort.std_sort_axioms isort.std_sort_axioms ok sample_batch_sendable(2) refl this]
  show ?thesis by blast
qed

section \<open>The labels of an update\<close>

lemma fold_upds:
  "distinct (map fst ops) \<Longrightarrow>
     fold (\<lambda>(k, ov) f. f(k := ov)) ops f k = (case map_of ops k of None \<Rightarrow> f k | Some ov \<Rightarrow> ov)"
proof (induction ops arbitrary: f)
  case (Cons x ops)
  obtain k' ov where x: "x = (k', ov)" by (cases x)
  with Cons.prems have "k' \<notin> fst ` set ops" "distinct (map fst ops)" by simp_all
  with Cons.IH [of "f(k' := ov)"] show ?case
    by (auto simp: x map_of_eq_None_iff [THEN iffD2] split: option.split)
qed simp

lemma map_of_label_ops: "map_of (map label_op ls) k = map_option (\<lambda>v. if v = [] then None else Some v) (map_of ls k)"
  by (induction ls) (auto simp: label_op_def)

lemma update_labels_lookup:
  assumes "omap_ok base" and "omap_ok ls"
  shows "map_of (update_labels base ls) k =
    (case map_of ls k of None \<Rightarrow> map_of base k | Some v \<Rightarrow> if v = [] then None else Some v)"
proof -
  have "map fst (map label_op ls) = map fst ls" by (simp add: label_op_def)
  then have "distinct (map fst (map label_op ls))" by (simp only: omap_distinct [OF assms(2)])
  note upds = fold_upds [OF this, of "map_of base" k]
  have "apply_label_op = (\<lambda>(k, ov) m. case ov of Some v \<Rightarrow> omap_assign k v m | None \<Rightarrow> omap_erase k m)"
    by (auto simp: fun_eq_iff apply_label_op_def split: option.split)
  then have "map_of (update_labels base ls) = fold (\<lambda>(k, ov) f. f(k := ov)) (map label_op ls) (map_of base)"
    using omap.edit_all [OF assms(1), of "map label_op ls"] by (simp add: update_labels_def)
  with upds show ?thesis by (simp add: map_of_label_ops split: option.split)
qed

text \<open>
  C5: The header of an update changes labels and nothing else: read by the rules by which this library
  reads the headers of a response, on top of the record it is about, it keeps the content type, sets
  the labels that the update gives a value, removes those it gives an empty one, and leaves the others.
\<close>

theorem update_changes_labels:
  assumes "label_updates_ok (br_labels r)" and "omap_ok (rh_labels p)"
  shows "\<exists>h. parse_record_header_v2 (build_header_value_v2 r kUpdate) (Some p) None = Inr (Some h) \<and>
    rh_content_length h = 0 \<and> rh_content_type h = rh_content_type p \<and>
    (\<forall>k. map_of (rh_labels h) k =
       (case map_of (br_labels r) k of None \<Rightarrow> map_of (rh_labels p) k | Some v \<Rightarrow> if v = [] then None else Some v))"
proof -
  have "show_nat 0 = ''0''" by code_simp
  then have zero: "stoull ''0'' = Inr 0" using stoull_show_nat [of 0] by simp
  have lookup: "map_of (update_labels (rh_labels p) (br_labels r)) k =
      (case map_of (br_labels r) k of None \<Rightarrow> map_of (rh_labels p) k | Some v \<Rightarrow> if v = [] then None else Some v)" for k
    using update_labels_lookup [OF assms(2)] assms(1) by (simp add: label_updates_ok_def)
  show ?thesis
  proof (cases "br_labels r = []")
    case True
    then have "build_header_value_v2 r kUpdate = ''0''" by (simp add: build_header_value_v2_def)
    moreover have "parse_record_header_v2 ''0'' (Some p) None =
        Inr (Some \<lparr>rh_content_length = 0, rh_content_type = rh_content_type p, rh_labels = rh_labels p\<rparr>)"
      by (simp add: parse_record_header_v2_def zero trim_def is_blank_def)
    ultimately show ?thesis using True by simp
  next
    case False
    then have "build_header_value_v2 r kUpdate = ''0,,'' @ format_labels (br_labels r)"
      by (simp add: build_header_value_v2_def Let_def)
    moreover have "parse_record_header_v2 (''0,,'' @ format_labels (br_labels r)) (Some p) None =
        Inr (Some \<lparr>rh_content_length = 0, rh_content_type = rh_content_type p,
          rh_labels = update_labels (rh_labels p) (br_labels r)\<rparr>)"
      by (simp add: parse_record_header_v2_def zero trim_def is_blank_def substr_def substr_from_def
          apply_label_updates [OF assms(1)])
    ultimately show ?thesis using lookup by simp
  qed
qed

definition label_changes :: batch_record where
  "label_changes = \<lparr>br_entry = ''a'', br_timestamp = 1000, br_size = 0, br_content_type = [],
     br_labels = [(''k'', []), (''new'', ''1,2'')], br_data_index = None\<rparr>"

definition labelled :: record_header where
  "labelled = \<lparr>rh_content_length = 7, rh_content_type = ''text/plain'', rh_labels = [(''k'', ''v''), (''x'', ''y'')]\<rparr>"

theorem update_changes_labels_witness:
  "\<exists>h. parse_record_header_v2 (build_header_value_v2 label_changes kUpdate) (Some labelled) None = Inr (Some h) \<and>
     rh_content_type h = ''text/plain'' \<and> map_of (rh_labels h) ''k'' = None \<and>
     map_of (rh_labels h) ''x'' = Some ''y'' \<and> map_of (rh_labels h) ''new'' = Some ''1,2''"
proof -
  have ok: "label_updates_ok (br_labels label_changes)" "omap_ok (rh_labels labelled)" by code_simp+
  obtain h where "parse_record_header_v2 (build_header_value_v2 label_changes kUpdate) (Some labelled) None = Inr (Some h)"
    "rh_content_type h = ''text/plain''"
    "\<forall>k. map_of (rh_labels h) k = (case map_of (br_labels label_changes) k of
       None \<Rightarrow> map_of (rh_labels labelled) k | Some v \<Rightarrow> if v = [] then None else Some v)"
    using update_changes_labels [OF ok] by (auto simp: labelled_def)
  then show ?thesis by (simp add: label_changes_def labelled_def)
qed

end
