(* ===== verification/Label_Survival.thy ===== *)
theory Label_Survival
  imports Batch_V1_Roundtrip Batch_V2_Build
begin

text \<open>
  Which label values the two protocols carry: \<^verbatim>\<open>FormatLabels\<close> (batch_v1.cc) puts a value with a comma
  in quotes, without escaping the quotes in it, and each protocol reads it in its own way. The
  property says exactly which values come back.
\<close>

section \<open>v2\<close>

lemma label_value_survives:
  "label_value (if CHR '','' \<in> set v then [CHR 0x22] @ v @ [CHR 0x22] else v) = Some (Some v, rest) \<Longrightarrow> label_value_ok v"
proof (cases "CHR '','' \<in> set v")
  case True
  assume "label_value (if CHR '','' \<in> set v then [CHR 0x22] @ v @ [CHR 0x22] else v) = Some (Some v, rest)"
  with True obtain q where q: "find_char (CHR 0x22) (v @ [CHR 0x22]) = Some q" "take q (v @ [CHR 0x22]) = v"
    by (auto simp: label_value_def split: option.splits)
  have "CHR 0x22 \<notin> set v"
  proof
    assume "CHR 0x22 \<in> set v"
    then obtain i where "find_char (CHR 0x22) v = Some i" using find_char_None [of "CHR 0x22" v] by auto
    moreover from this have "i < length v" by (simp add: find_char_Some_less)
    ultimately have "q < length v" using q(1) \<open>CHR 0x22 \<in> set v\<close> by (simp add: find_char_append)
    with arg_cong [OF q(2), of length] show False by simp
  qed
  with True show ?thesis by (simp add: label_value_ok_def)
next
  case False
  assume survives: "label_value (if CHR '','' \<in> set v then [CHR 0x22] @ v @ [CHR 0x22] else v) = Some (Some v, rest)"
  have "hd v \<noteq> CHR 0x22" if "v \<noteq> []"
  proof
    assume "hd v = CHR 0x22"
    with survives False that obtain q where "take q (tl v) = v"
      by (auto simp: label_value_def split: option.splits)
    from arg_cong [OF this, of length] that show False by (cases v) auto
  qed
  with survives False show ?thesis
    by (cases "v = []") (auto simp: label_value_def label_value_ok_def find_char_absent Let_def split: if_splits)
qed

lemma v2_label_survives:
  assumes "label_key_ok k"
  shows "parse_label_delta_ops None (format_labels [(k, v)]) = Inr [(k, Some v)] \<longleftrightarrow> label_value_ok v"
proof
  assume "label_value_ok v"
  then show "parse_label_delta_ops None (format_labels [(k, v)]) = Inr [(k, Some v)]"
    using assms parse_format_labels [of "[(k, v)]"]
    by (auto simp: label_op_def label_value_ok_def split: if_splits)
next
  let ?v = "if CHR '','' \<in> set v then [CHR 0x22] @ v @ [CHR 0x22] else v"
  assume parsed: "parse_label_delta_ops None (format_labels [(k, v)]) = Inr [(k, Some v)]"
  have "format_labels [(k, v)] = k @ CHR ''='' # ?v"
    by (simp add: format_labels_def format_label_def find_char_None Let_def)
  moreover have "find_char (CHR ''='') (k @ CHR ''='' # ?v) = Some (length k)"
    using assms by (intro find_char_first) (simp add: label_key_ok_def)
  ultimately obtain rest where "label_value ?v = Some (Some v, rest)"
    using parsed by (subst (asm) parse_label_delta_ops.simps)
      (auto simp: bind_throws_Inr_iff split: option.splits)
  then show "label_value_ok v" by (rule label_value_survives)
qed

section \<open>v1\<close>

lemma getlines_items: "\<forall>l \<in> set (getlines d s). d \<notin> set l"
  by (induction d s rule: getlines.induct) (auto split: list.splits)

text \<open>No item has a comma, since the pieces of a quoted item are joined without it.\<close>

lemma in_substr_from: "c \<in> set (substr_from s n) \<Longrightarrow> c \<in> set s"
  by (simp add: substr_from_def in_set_dropD)

lemma in_substr: "c \<in> set (substr s m n) \<Longrightarrow> c \<in> set s"
  by (metis substr_def in_set_dropD in_set_takeD)

lemma csv_step_no_comma:
  assumes "CHR '','' \<notin> set item" and "CHR '','' \<notin> set (fst st)" and "\<forall>x \<in> set (snd st). CHR '','' \<notin> set x"
  shows "CHR '','' \<notin> set (fst (csv_step item st)) \<and> (\<forall>x \<in> set (snd (csv_step item st)). CHR '','' \<notin> set x)"
proof -
  obtain escaped items where st: "st = (escaped, items)" by (cases st)
  define escaped1 where "escaped1 = (if starts_with item [CHR 0x22] \<and> escaped = [] then substr_from item 1 else escaped)"
  have "CHR '','' \<notin> set escaped1" using assms(1,2) by (auto simp: escaped1_def st dest: in_substr_from)
  moreover have "\<exists>n. csv_step item st =
      (if escaped1 \<noteq> [] then
         if ends_with item [CHR 0x22] then ([], items @ [substr escaped1 0 n]) else (escaped1 @ item, items)
       else (escaped1, items @ [item]))"
    unfolding csv_step_def st Let_def prod.case escaped1_def [symmetric] by (rule exI) (rule refl)
  ultimately show ?thesis using assms st by (auto dest: in_substr split: if_splits)
qed

lemma csv_fold_no_comma:
  "\<forall>l \<in> set ls. CHR '','' \<notin> set l \<Longrightarrow> CHR '','' \<notin> set (fst st) \<Longrightarrow> \<forall>x \<in> set (snd st). CHR '','' \<notin> set x \<Longrightarrow>
     \<forall>x \<in> set (snd (fold csv_step ls st)). CHR '','' \<notin> set x"
proof (induction ls arbitrary: st)
  case (Cons l ls)
  have l: "CHR '','' \<notin> set l" and ls: "\<forall>l \<in> set ls. CHR '','' \<notin> set l"
    using Cons.prems(1) by auto
  note step = csv_step_no_comma [OF l Cons.prems(2,3)]
  show ?case
    unfolding fold_simps by (rule Cons.IH [OF ls step [THEN conjunct1] step [THEN conjunct2]])
qed simp

lemma csv_items_no_comma: "\<forall>x \<in> set (csv_items csv). CHR '','' \<notin> set x"
  using csv_fold_no_comma [OF getlines_items, of "([], [])" csv] by (simp add: csv_items_def)

lemma csv_labels_no_comma:
  assumes "\<forall>x \<in> set items. CHR '','' \<notin> set x" and "\<forall>(k, v) \<in> set m. CHR '','' \<notin> set v"
  shows "\<forall>(k, v) \<in> set (fold csv_label items m). CHR '','' \<notin> set v"
  using assms
proof (induction items arbitrary: m)
  case (Cons x items)
  have "\<forall>(k, v) \<in> set (csv_label x m). CHR '','' \<notin> set v"
  proof (cases "find_char (CHR ''='') x")
    case (Some pos)
    have "set (omap_assign k' v' m) \<subseteq> insert (k', v') (set m)" for k' and v' :: string
      by (induction m) (auto split: if_splits)
    moreover have "CHR '','' \<notin> set (substr_from x (pos + 1))"
      using Cons.prems(1) in_set_dropD [of _ "pos + 1" x] by (auto simp: substr_from_def)
    ultimately show ?thesis using Cons.prems(2) Some by (fastforce simp: csv_label_def)
  qed (use Cons.prems in \<open>simp add: csv_label_def\<close>)
  with Cons show ?case by simp
qed simp

lemma parse_csv_no_comma:
  assumes "parse_csv csv = Inr (sz, content_type, labels)" and "(k, v) \<in> set labels"
  shows "CHR '','' \<notin> set v"
proof -
  obtain first rest where items: "csv_items csv = first # rest"
    using assms(1) by (cases "csv_items csv") (simp_all add: parse_csv_def)
  with assms(1) obtain content items where "rest = content # items" "labels = fold csv_label items []"
    by (cases rest; cases "stoll first") (simp_all add: parse_csv_def)
  then show ?thesis
    using csv_items_no_comma [of csv] csv_labels_no_comma [of items "[]"] assms(2) by (auto simp: items)
qed

lemma v1_label_survives:
  assumes "CHR '','' \<notin> set k" and "CHR ''='' \<notin> set k" and "k = [] \<or> hd k \<noteq> CHR 0x22"
    and "n < 2 ^ 63" and "CHR '','' \<notin> set ct" and "ct = [] \<or> hd ct \<noteq> CHR 0x22"
  shows "parse_csv (show_nat n @ '','' @ ct @ '','' @ format_labels [(k, v)]) = Inr (int n, ct, [(k, v)]) \<longleftrightarrow>
    CHR '','' \<notin> set v"
proof
  assume "parse_csv (show_nat n @ '','' @ ct @ '','' @ format_labels [(k, v)]) = Inr (int n, ct, [(k, v)])"
  from parse_csv_no_comma [OF this] show "CHR '','' \<notin> set v" by simp
next
  let ?r = "\<lparr>br_entry = [], br_timestamp = 0, br_size = n, br_content_type = ct, br_labels = [(k, v)],
    br_data_index = None\<rparr>"
  assume "CHR '','' \<notin> set v"
  then have "record_v1_ok ?r" using assms by (simp add: record_v1_ok_def label_v1_ok_def omap_ok_def)
  from parse_csv_written [OF this]
  show "parse_csv (show_nat n @ '','' @ ct @ '','' @ format_labels [(k, v)]) = Inr (int n, ct, [(k, v)])"
    by (simp add: record_header_v1_def)
qed

section \<open>Property\<close>

text \<open>
  C20: Exactly which label values come back. In v2 these are the values with a comma and no quote, and
  those without a comma that are not empty, have no blanks at their ends and do not begin with a
  quote; an empty value asks for the removal of the label. In v1 they are the values without a comma,
  although \<^verbatim>\<open>FormatLabels\<close> puts the others in quotes so that they can be read back.
\<close>

theorem labels_that_survive:
  assumes "label_key_ok k" and "CHR '','' \<notin> set k" and "k = [] \<or> hd k \<noteq> CHR 0x22"
    and "n < 2 ^ 63" and "CHR '','' \<notin> set ct" and "ct = [] \<or> hd ct \<noteq> CHR 0x22"
  shows "(parse_label_delta_ops None (format_labels [(k, v)]) = Inr [(k, Some v)] \<longleftrightarrow>
      (if CHR '','' \<in> set v then CHR 0x22 \<notin> set v else v \<noteq> [] \<and> trim v = v \<and> hd v \<noteq> CHR 0x22)) \<and>
    parse_label_delta_ops None (format_labels [(k, [])]) = Inr [(k, None)] \<and>
    (parse_csv (show_nat n @ '','' @ ct @ '','' @ format_labels [(k, v)]) = Inr (int n, ct, [(k, v)]) \<longleftrightarrow>
      CHR '','' \<notin> set v)"
proof (intro conjI)
  show "parse_label_delta_ops None (format_labels [(k, v)]) = Inr [(k, Some v)] \<longleftrightarrow>
      (if CHR '','' \<in> set v then CHR 0x22 \<notin> set v else v \<noteq> [] \<and> trim v = v \<and> hd v \<noteq> CHR 0x22)"
    using v2_label_survives [OF assms(1)] by (simp only: label_value_ok_def)
  show "parse_label_delta_ops None (format_labels [(k, [])]) = Inr [(k, None)]"
    using parse_format_labels [of "[(k, [])]"] assms(1) by (simp add: label_op_def)
  have "CHR ''='' \<notin> set k" using assms(1) by (simp add: label_key_ok_def)
  from v1_label_survives [OF assms(2) this assms(3-6)]
  show "parse_csv (show_nat n @ '','' @ ct @ '','' @ format_labels [(k, v)]) = Inr (int n, ct, [(k, v)]) \<longleftrightarrow>
      CHR '','' \<notin> set v" .
qed

theorem labels_that_survive_witness:
  "parse_label_delta_ops None (format_labels [(''k'', ''a,b'')]) = Inr [(''k'', Some ''a,b'')] \<and>
   parse_label_delta_ops None (format_labels [(''k'', ''a,'' @ [CHR 0x22])]) \<noteq> Inr [(''k'', Some (''a,'' @ [CHR 0x22]))] \<and>
   parse_csv (show_nat 3 @ '','' @ [] @ '','' @ format_labels [(''k'', ''a,b'')]) \<noteq> Inr (int 3, [], [(''k'', ''a,b'')])"
proof -
  have key: "label_key_ok ''k''" by code_simp
  note survive = labels_that_survive [OF key, of 3 "[]"]
  show ?thesis using survive [of "''a,b''"] survive [of "''a,'' @ [CHR 0x22]"] by simp
qed

end
