(* ===== verification/Entry_Names.thy ===== *)
theory Entry_Names
  imports Entry_Codec
begin

text \<open>
  Which lists of entry names come back from the header of batch protocol v2 (batch_v2.cc): those
  without empty names and without percent signs, and no others. A percent sign is written as it is
  and read as the beginning of an escape.
\<close>

section \<open>Decoding what was encoded\<close>

lemma encode_append: "encode_entry_name (xs @ ys) = encode_entry_name xs @ encode_entry_name ys"
  by (induction xs) simp_all

lemma hex_char_kept: "d < 16 \<Longrightarrow> kept_char (digit_char d) \<and> digit_char d \<noteq> CHR ''%''"
  using code_of_hex_char [of d]
  by (auto simp: kept_char_def cis_alnum_def cis_digit_def cis_upper_def code_of_def split: if_splits)

lemma hex2_chars: "\<exists>h1 h2. hex2 c = [h1, h2] \<and> kept_char h1 \<and> h1 \<noteq> CHR ''%'' \<and> kept_char h2 \<and> h2 \<noteq> CHR ''%''"
proof -
  have "code_of c div 16 < 16" by (rule less_mult_imp_div_less) simp
  with hex_char_kept [of "code_of c div 16"] hex_char_kept [of "code_of c mod 16"] show ?thesis
    by (auto simp: hex2_def)
qed

lemma stoi_percent: "\<exists>e. stoi 16 [CHR ''%'', h] = Inl e"
  by (auto simp: stoi_def strto_def digit_value_def char_class_simps)

text \<open>
  What a percent sign in a name takes: one or two characters, the second of which may be the first
  byte of an escape, whose digits are then read as characters.
\<close>

lemma percent_cases:
  assumes "decode_entry_name (CHR ''%'' # encode_entry_name s) = Some d"
  obtains (plain) c1 c2 s' v d' where "s = c1 # c2 # s'" "decode_entry_name (encode_entry_name s') = Some d'" "d = v # d'"
  | (escape) c1 c2 s' v d' h1 h2 where "s = c1 # c2 # s'" "\<not> kept_char c2" "kept_char h2"
      "decode_entry_name (encode_entry_name s') = Some d'" "d = v # h1 # h2 # d'"
proof -
  obtain a b rest v where enc: "encode_entry_name s = a # b # rest" "stoi 16 [a, b] = Inr v"
    and rest: "map_option ((#) (char_of (nat (v mod 256)))) (decode_entry_name rest) = Some d"
    using assms by (auto split: list.splits sum.splits)
  then obtain c1 s1 where s: "s = c1 # s1" by (cases s) auto
  have "kept_char c1"
  proof (rule ccontr)
    assume "\<not> kept_char c1"
    with enc(1) s have "a = CHR ''%''" by simp
    with stoi_percent [of b] enc(2) show False by auto
  qed
  with enc(1) s have enc1: "encode_entry_name s1 = b # rest" by simp
  then obtain c2 s2 where s1: "s1 = c2 # s2" by (cases s1) auto
  show thesis
  proof (cases "kept_char c2")
    case True
    with enc1 s1 have "rest = encode_entry_name s2" by simp
    with rest s s1 show thesis by (auto intro: plain)
  next
    case False
    obtain h1 h2 where h: "hex2 c2 = [h1, h2]" "h1 \<noteq> CHR ''%''" "kept_char h2" "h2 \<noteq> CHR ''%''"
      using hex2_chars by blast
    with False enc1 s1 have "rest = h1 # h2 # encode_entry_name s2" by simp
    with rest h obtain d' where "decode_entry_name (encode_entry_name s2) = Some d'"
      "d = char_of (nat (v mod 256)) # h1 # h2 # d'"
      by auto
    with False h(3) s s1 show thesis by (auto intro: escape)
  qed
qed

lemma decode_encode_length: "decode_entry_name (encode_entry_name s) = Some d \<Longrightarrow> length d \<le> length s"
proof (induction s arbitrary: d rule: measure_induct_rule [of length])
  case (less s)
  show ?case
  proof (cases s)
    case (Cons c s')
    show ?thesis
    proof (cases "c = CHR ''%''")
      case True
      then have "decode_entry_name (CHR ''%'' # encode_entry_name s') = Some d"
        using less.prems Cons by (simp add: kept_char_def)
      then show ?thesis
      proof (cases rule: percent_cases)
        case (plain c1 c2 s2 v d')
        with less.IH [of s2 d'] Cons show ?thesis by simp
      next
        case (escape c1 c2 s2 v d' h1 h2)
        with less.IH [of s2 d'] Cons show ?thesis by simp
      qed
    next
      case False
      have "decode_entry_name (encode_entry_name s) = map_option ((#) c) (decode_entry_name (encode_entry_name s'))"
        using False Cons decode_hex2 [of c "encode_entry_name s'"] by (cases "kept_char c") (simp_all del: decode_entry_name.simps(2), simp)
      then obtain d' where "decode_entry_name (encode_entry_name s') = Some d'" "d = c # d'"
        using less.prems by (cases "decode_entry_name (encode_entry_name s')") auto
      with less.IH [of s' d'] Cons show ?thesis by simp
    qed
  qed (use less.prems in simp)
qed

lemma decode_encode_iff: "decode_entry_name (encode_entry_name s) = Some s \<longleftrightarrow> CHR ''%'' \<notin> set s"
proof
  assume "CHR ''%'' \<notin> set s"
  then show "decode_entry_name (encode_entry_name s) = Some s" using decode_encode [of s "[]"] by simp
next
  assume survives: "decode_entry_name (encode_entry_name s) = Some s"
  show "CHR ''%'' \<notin> set s"
  proof
    assume "CHR ''%'' \<in> set s"
    then obtain pre rest where s: "s = pre @ CHR ''%'' # rest" "CHR ''%'' \<notin> set pre"
      by (meson split_list_first)
    have "encode_entry_name s = encode_entry_name pre @ CHR ''%'' # encode_entry_name rest"
      by (simp add: s(1) encode_append kept_char_def)
    with survives decode_encode [OF s(2)] s(1)
    have "decode_entry_name (CHR ''%'' # encode_entry_name rest) = Some (CHR ''%'' # rest)" by simp
    then show False
    proof (cases rule: percent_cases)
      case (plain c1 c2 s' v d')
      with decode_encode_length [OF plain(2)] show False by auto
    next
      case (escape c1 c2 s' v d' h1 h2)
      then have "c2 = h2" by simp
      with escape(2,3) show False by simp
    qed
  qed
qed

section \<open>Property\<close>

lemma decode_not_Nil: "decode_entry_name s = Some [] \<Longrightarrow> s = []"
  by (cases s rule: decode_entry_name.cases) (auto split: if_splits list.splits sum.splits)

lemma map_filter_length: "length (List.map_filter f xs) \<le> length xs"
  by (induction xs) (auto simp: List.map_filter_simps split: option.split)

lemma map_filter_id: "List.map_filter f xs = xs \<longleftrightarrow> (\<forall>x \<in> set xs. f x = Some x)"
proof (induction xs)
  case (Cons x xs)
  then show ?case
    using map_filter_length [of f xs] by (cases "f x") (auto simp: List.map_filter_simps)
qed (simp add: List.map_filter_simps)

lemma encoded_plain: "trim (encode_entry_name s) = encode_entry_name s" "CHR '','' \<notin> set (encode_entry_name s)"
  using encode_no_separator [of _ s] by (auto simp: is_separator_def intro: trim_no_blank)

lemma parse_not_Nil: "[] \<notin> set (parse_encoded_list raw)"
proof -
  have "f x \<noteq> Some []" if "f = (\<lambda>item. let item' = trim item in if item' = [] then None else decode_entry_name item')" for f x
    using that decode_not_Nil by (auto simp: Let_def)
  then have "[] \<notin> set (List.map_filter f xs)"
    if "f = (\<lambda>item. let item' = trim item in if item' = [] then None else decode_entry_name item')" for f xs
    using that by (auto simp: List.map_filter_def)
  then show ?thesis by (simp add: parse_encoded_list_def)
qed

text \<open>
  C18: Exactly which entry names come back: the list of names that a v2 request puts into its header is
  read as the same list if and only if no name is empty and none has a percent sign.
\<close>

theorem entry_names_that_survive:
  "parse_encoded_list (join '','' (map encode_entry_name names)) = names \<longleftrightarrow>
     (\<forall>name \<in> set names. name \<noteq> [] \<and> CHR ''%'' \<notin> set name)"
proof
  assume "\<forall>name \<in> set names. name \<noteq> [] \<and> CHR ''%'' \<notin> set name"
  then show "parse_encoded_list (join '','' (map encode_entry_name names)) = names"
    by (intro parse_encoded_join) (simp add: entry_ok_def)
next
  assume survives: "parse_encoded_list (join '','' (map encode_entry_name names)) = names"
  then have ne: "[] \<notin> set names" using parse_not_Nil by metis
  then have "map encode_entry_name names = [] \<or> last (map encode_entry_name names) \<noteq> []"
    by (metis encode_Nil last_in_set last_map map_is_Nil_conv)
  then have "getlines (CHR '','') (join '','' (map encode_entry_name names)) = map encode_entry_name names"
    using encoded_plain(2) by (intro getlines_join) auto
  then have "List.map_filter (\<lambda>name. if name = [] then None else decode_entry_name (encode_entry_name name)) names = names"
    using survives by (simp add: parse_encoded_list_def map_filter_map encoded_plain(1) Let_def comp_def cong: if_cong)
  then have "\<forall>name \<in> set names. decode_entry_name (encode_entry_name name) = Some name"
    by (auto simp: map_filter_id split: if_splits)
  with ne show "\<forall>name \<in> set names. name \<noteq> [] \<and> CHR ''%'' \<notin> set name" by (auto simp: decode_encode_iff)
qed

theorem entry_names_that_survive_witness:
  "parse_encoded_list (join '','' (map encode_entry_name [''a b'', ''c,d''])) = [''a b'', ''c,d''] \<and>
   parse_encoded_list (join '','' (map encode_entry_name [''50%'', ''x''])) \<noteq> [''50%'', ''x'']"
  using entry_names_that_survive [of "[''a b'', ''c,d'']"] entry_names_that_survive [of "[''50%'', ''x'']"] by simp

end
