(* ===== verification/Collisions.thy ===== *)
theory Collisions
  imports Batch_V2_Roundtrip
begin

text \<open>
  Records that fall into the same microsecond (batch_v2.cc, \<^verbatim>\<open>BuildBatchV2Request\<close>): the times of
  records are nanoseconds, the names of headers count microseconds, and the second \<^verbatim>\<open>emplace\<close> of a
  name does nothing. The body keeps the payload of every record.
\<close>

section \<open>The keys of an emplaced map\<close>

lemma emplace_keys:
  "fst ` set (fold (\<lambda>(k, v). umap_emplace k v) xs m) = fst ` set m \<union> fst ` set xs"
proof (induction xs arbitrary: m)
  case (Cons x xs)
  obtain k v where x: "x = (k, v)" by (cases x)
  have "fst ` set (umap_emplace k v m) = insert k (fst ` set m)"
    by (auto simp: umap_emplace_def map_of_eq_None_iff image_iff dest: map_of_SomeD split: option.split) (force dest: map_of_SomeD)+
  then show ?case by (auto simp: x Cons.IH)
qed simp

lemma emplace_distinct:
  "distinct (map fst m) \<Longrightarrow> distinct (map fst (fold (\<lambda>(k, v). umap_emplace k v) xs m))"
proof (induction xs arbitrary: m)
  case (Cons x xs)
  obtain k v where x: "x = (k, v)" by (cases x)
  have "distinct (map fst (umap_emplace k v m))"
    using Cons.prems by (auto simp: umap_emplace_def map_of_eq_None_iff split: option.split)
  then show ?case by (simp add: x Cons.IH)
qed simp

lemma parse_names_count:
  assumes "distinct (map fst hs)"
  shows "length (parse_header_names hs) = card {k \<in> fst ` set hs. parse_batched_header_name_v2 k \<noteq> None}"
  using assms
proof (induction hs)
  case (Cons kv hs)
  obtain k v where kv: "kv = (k, v)" by (cases kv)
  let ?K = "{k \<in> fst ` set hs. parse_batched_header_name_v2 k \<noteq> None}"
  have "{k' \<in> fst ` set (kv # hs). parse_batched_header_name_v2 k' \<noteq> None} =
      (if parse_batched_header_name_v2 k \<noteq> None then insert k ?K else ?K)"
    by (auto simp: kv)
  moreover have "k \<notin> ?K" using Cons.prems kv by auto
  moreover have "finite ?K" by simp
  ultimately show ?case
    using Cons by (cases "parse_batched_header_name_v2 k") (auto simp: parse_header_names_def List.map_filter_simps kv simp del: not_None_eq)
qed (simp add: parse_header_names_def List.map_filter_simps)

section \<open>Property\<close>

text \<open>What the name of a header tells of a record: its entry and its time in microseconds.\<close>

definition record_key :: "string \<Rightarrow> batch_record \<Rightarrow> string \<times> u64" where
  "record_key d r = (record_entry r d, us_word (br_timestamp r))"

definition key_header :: "(string, nat) umap \<Rightarrow> u64 \<Rightarrow> string \<times> u64 \<Rightarrow> string" where
  "key_header indices s k = header_key_v2 (the (map_of indices (fst k))) (snd k - s)"

lemma key_header_record:
  assumes "request_facts b d order indices es s" and "i \<in> set order"
  shows "fst (record_header_v2 b d type indices s i) = key_header indices s (record_key d (batch_records b ! i))"
  using record_header_v2_eq [where type = type, OF assms] by (auto simp: key_header_def record_key_def)

lemma key_header_inj:
  assumes "request_facts b d order indices es s"
  shows "inj_on (key_header indices s) {k. fst k \<in> set es}"
proof (rule inj_onI)
  fix k l assume kl: "k \<in> {k. fst k \<in> set es}" "l \<in> {k. fst k \<in> set es}" and eq: "key_header indices s k = key_header indices s l"
  have ok: "indices_ok indices es" "length es < 2 ^ 64" using assms by (simp_all add: request_facts_def)
  obtain m where m: "map_of indices (fst k) = Some m" "m < length es" "es ! m = fst k"
    using indices_ok_lookup [OF ok(1)] kl(1) by blast
  obtain n where n: "map_of indices (fst l) = Some n" "n < length es" "es ! n = fst l"
    using indices_ok_lookup [OF ok(1)] kl(2) by blast
  have "m = n \<and> snd k - s = snd l - s"
    using eq m(1,2) n(1,2) ok(2) by (intro header_key_inj) (auto simp: key_header_def)
  with m(3) n(3) show "k = l" by (auto intro: prod_eqI)
qed

lemma key_header_parsed:
  assumes "request_facts b d order indices es s" and "fst k \<in> set es"
  shows "parse_batched_header_name_v2 (key_header indices s k) \<noteq> None"
proof -
  obtain m where "map_of indices (fst k) = Some m" "m < 2 ^ 64"
    using indices_ok_lookup [of indices es "fst k"] assms by (auto simp: request_facts_def)
  then show ?thesis by (simp add: key_header_def header_key_parse)
qed

text \<open>The names of the record headers are the keys of the records.\<close>

lemma request_header_count:
  assumes "request_facts b d order indices es s" and "set order = {0..<length (batch_records b)}"
    and "hs = fold (\<lambda>(k, v). umap_emplace k v) (map (record_header_v2 b d type indices s) order) (named_headers es s)"
  shows "length (parse_header_names hs) = card (record_key d ` set (batch_records b))"
proof -
  let ?keys = "record_key d ` set (batch_records b)"
  have "set (batch_records b) = (!) (batch_records b) ` set order"
    using assms(2) by (auto simp: set_conv_nth)
  then have keys: "fst ` set (map (record_header_v2 b d type indices s) order) = key_header indices s ` ?keys"
    using key_header_record [OF assms(1)] by (force simp: image_image)
  have sub: "?keys \<subseteq> {k. fst k \<in> set es}"
    using assms(1,2) by (auto simp: request_facts_def record_key_def in_set_conv_nth)
  have "parse_batched_header_name_v2 k \<noteq> None" if "k \<in> key_header indices s ` ?keys" for k
    using key_header_parsed [OF assms(1)] sub that by blast
  then have "{k \<in> fst ` set hs. parse_batched_header_name_v2 k \<noteq> None} = key_header indices s ` ?keys"
    unfolding assms(3) emplace_keys keys by (auto simp: named_headers_def named_headers_skipped)
  moreover have "distinct (map fst hs)"
    unfolding assms(3) by (rule emplace_distinct) (simp add: named_headers_def header_names)
  ultimately have "length (parse_header_names hs) = card (key_header indices s ` ?keys)"
    by (simp add: parse_names_count)
  then show ?thesis using card_image [OF inj_on_subset [OF key_header_inj [OF assms(1)] sub]] by simp
qed

text \<open>
  C19: A v2 request has one header per entry and microsecond, but the payload of every record in its
  body: there are as many headers as records if and only if no two records of an entry fall into the
  same microsecond. Otherwise the records that share a header are left out of the headers while
  their bytes stay in the body.
\<close>

theorem headers_count_microseconds:
  assumes "std_sort srt" and "batch_ok b" and "length (batch_records b) < 2 ^ 64" and "batch_records b \<noteq> []"
    and "\<forall>r \<in> set (batch_records b). record_entry r d \<noteq> []"
    and "req = res_value (build_batch_v2_request srt d b type require)"
  shows "res_error (build_batch_v2_request srt d b type require) = kOk \<and>
    length (ordered_payload b (bq_ordered req)) = total_bytes b \<and>
    length (parse_header_names (bq_headers req)) = card (record_key d ` set (batch_records b)) \<and>
    (length (parse_header_names (bq_headers req)) = length (batch_records b) \<longleftrightarrow>
       distinct (map (record_key d) (batch_records b)))"
proof -
  let ?order = "sort_records srt b d True"
  have perm: "mset ?order = mset [0..<length (batch_records b)]" by (rule sort_records_perm [OF assms(1)])
  have set: "set ?order = {0..<length (batch_records b)}" using perm by (metis mset_eq_setD set_upt)
  have ne: "?order \<noteq> []" using sort_records_Nil [OF assms(1)] assms(4) by blast
  have len: "length ?order = length (batch_records b)" using perm by (metis size_mset length_upt diff_zero)
  have "sorted (map (entry_of b d) ?order)"
    using sort_records_sorted [OF assms(1), of b d True] unfolding sorted_map
    by (rule sorted_wrt_mono_rel [rotated]) (auto simp: record_less_def Let_def split: if_splits)
  then obtain s indices es where collect: "collect_entries b d require ?order (- 1, [], []) = Inr (s, indices, es)"
    and facts: "indices_ok indices es" "sorted es" "set es = entry_of b d ` set ?order" "length es \<le> length ?order"
      "\<forall>i \<in> set ?order. s \<le> word_of b i"
    using collect_entries_spec [OF indices_ok_Nil, of b d ?order require "- 1"] assms(5) set by auto
  have rf: "request_facts b d ?order indices es s" using facts len assms(3) by (simp add: request_facts_def)
  have named: "umap_emplace kHeaderStartTs (show_nat (unat s))
      (umap_emplace kHeaderEntries (join '','' (map encode_entry_name es)) []) = named_headers es s"
    by (simp add: named_headers_def umap_emplace_def header_names)
  have built: "res_error (build_batch_v2_request srt d b type require) = kOk" "bq_ordered req = ?order"
    "bq_headers req = fold (\<lambda>(k, v). umap_emplace k v) (map (record_header_v2 b d type indices s) ?order) (named_headers es s)"
    using ne collect named by (simp_all add: assms(6) build_batch_v2_request_def Let_def fold_map comp_def)
  have count: "length (parse_header_names (bq_headers req)) = card (record_key d ` set (batch_records b))"
    by (rule request_header_count [OF rf set built(3)])
  moreover have "card (record_key d ` set (batch_records b)) = length (batch_records b) \<longleftrightarrow>
      distinct (map (record_key d) (batch_records b))"
    by (metis card_distinct distinct_card length_map list.set_map)
  ultimately show ?thesis
    using built(1) ordered_payload_total [OF assms(2) perm] by (simp add: built(2))
qed

text \<open>Two records of the entry \<^verbatim>\<open>a\<close> at 1000 and 1500 nanoseconds, of one and two bytes.\<close>

definition colliding :: batch where
  "colliding = add_record_at 1500 ''yz'' [] [] (add_record_at 1000 ''x'' [] [] empty_batch)"

theorem headers_count_microseconds_witness:
  "length (batch_records colliding) = 2 \<and>
   length (ordered_payload colliding (bq_ordered (res_value (build_batch_v2_request isort ''a'' colliding kWrite False)))) = 3 \<and>
   length (parse_header_names (bq_headers (res_value (build_batch_v2_request isort ''a'' colliding kWrite False)))) = 1"
proof -
  have recs: "length (batch_records colliding) = 2" "total_bytes colliding = 3"
    "\<forall>r \<in> set (batch_records colliding). record_entry r ''a'' = ''a''"
    "record_key ''a'' ` set (batch_records colliding) = {(''a'', 1)}"
    by code_simp+
  have ok: "batch_ok colliding" unfolding colliding_def by (intro built_ok built.intros)
  have ne: "batch_records colliding \<noteq> []" "length (batch_records colliding) < 2 ^ 64"
    "\<forall>r \<in> set (batch_records colliding). record_entry r ''a'' \<noteq> []"
    using recs(1,3) by auto
  show ?thesis
    using headers_count_microseconds [OF isort.std_sort_axioms ok ne(2) ne(1) ne(3) refl, of kWrite False] recs
    by simp
qed

end
