(* ===== verification/Batch_V2_Process.thy ===== *)
theory Batch_V2_Process
  imports Batch_V2_Roundtrip Upload
begin

text \<open>
  Sending a v2 batch and reading the errors of single records from the headers of the
  response (the last part of batch_v2.cc). The numbers in an error header are read without
  a handler, so a header that does not hold them throws.
\<close>

type_synonym batch_record_errors = "(string, batch_errors) omap"

section \<open>Sending\<close>

definition send_batch_v2 ::
  "'n httplib \<Rightarrow> string \<Rightarrow> batch_type \<Rightarrow> batch \<Rightarrow> nat list \<Rightarrow> headers \<Rightarrow>
   ('n http_client, (string \<times> headers) result) io" where
  "send_batch_v2 lib io_path type b ordered hs =
     (case type of
        kWrite \<Rightarrow>
          let content_length = unat (batch_size b)
          in post_chunked lib (io_path @ ''/write'') ''application/octet-stream'' content_length hs
               (batch_callback ordered b)
      | kUpdate \<Rightarrow> http_patch lib (io_path @ ''/update'') [] hs
      | kRemove \<Rightarrow> http_delete lib (io_path @ ''/remove'') hs)"

section \<open>Errors of single records\<close>

text \<open>The time of an error: \<^verbatim>\<open>FromMicroseconds(std::to_string(start_ts + delta))\<close>.\<close>

definition error_time :: "u64 \<Rightarrow> u64 \<Rightarrow> time throws" where
  "error_time start_ts delta = from_microseconds (show_nat (unat (start_ts + delta)))"

definition batch_error_step ::
  "u64 \<Rightarrow> string \<times> string \<Rightarrow> batch_errors \<Rightarrow> batch_errors throws" where
  "batch_error_step start_ts kv errors =
     (case kv of (key, v) \<Rightarrow>
        if starts_with key kHeaderErrorPrefix then
          let prefix = substr_from key (length kHeaderErrorPrefix)
          in case rfind_char (CHR ''-'') prefix of
               None \<Rightarrow> Inr errors
             | Some dash \<Rightarrow>
                 bind_throws (stoull (substr_from prefix (dash + 1))) (\<lambda>delta.
                   case find_char (CHR '','') v of
                     None \<Rightarrow> Inr errors
                   | Some pos \<Rightarrow>
                       bind_throws (stoi 10 (substr v 0 pos)) (\<lambda>status.
                       bind_throws (error_time start_ts delta) (\<lambda>ts.
                         Inr (omap_emplace ts (mk_error status (substr_from v (pos + 1))) errors))))
        else Inr errors)"

definition process_batch_v2 ::
  "((nat \<Rightarrow> nat \<Rightarrow> bool) \<Rightarrow> nat list \<Rightarrow> nat list) \<Rightarrow> 'n httplib \<Rightarrow> string \<Rightarrow> string \<Rightarrow> batch \<Rightarrow>
   batch_type \<Rightarrow> ('n http_client, batch_errors result) io" where
  "process_batch_v2 srt lib io_path entry_name b type =
     (let built = build_batch_v2_request srt entry_name b type False;
          request = res_value built
      in if is_error (res_error built) then ret_io (err_result [] (res_error built))
         else if bq_ordered request = [] then ret_io (ok_result [])
         else bind_io (send_batch_v2 lib io_path type b (bq_ordered request) (bq_headers request)) (\<lambda>sent.
           if is_error (res_error sent) then ret_io (err_result [] (res_error sent))
           else throws_io
                  (bind_throws (fold_throws (batch_error_step (bq_start_ts request)) (snd (res_value sent)) [])
                     (\<lambda>errors. Inr (ok_result errors)))))"

text \<open>\<^verbatim>\<open>errors[entry].emplace(ts, error)\<close>: the entry's map is created when it is missing.\<close>

definition emplace_record_error ::
  "string \<Rightarrow> time \<Rightarrow> error \<Rightarrow> batch_record_errors \<Rightarrow> batch_record_errors" where
  "emplace_record_error entry ts e errors =
     omap_assign entry
       (omap_emplace ts e (case map_of errors entry of None \<Rightarrow> [] | Some m \<Rightarrow> m)) errors"

definition record_error_step ::
  "string list \<Rightarrow> u64 \<Rightarrow> string \<times> string \<Rightarrow> batch_record_errors \<Rightarrow> batch_record_errors throws" where
  "record_error_step entries start_ts kv errors =
     (case kv of (key, v) \<Rightarrow>
        if starts_with key kHeaderErrorPrefix then
          let prefix = substr_from key (length kHeaderErrorPrefix)
          in case rfind_char (CHR ''-'') prefix of
               None \<Rightarrow> Inr errors
             | Some dash \<Rightarrow>
                 bind_throws (stoul (substr prefix 0 dash)) (\<lambda>entry_idx.
                   if length entries \<le> unat entry_idx then Inr errors
                   else bind_throws (stoull (substr_from prefix (dash + 1))) (\<lambda>delta.
                     case find_char (CHR '','') v of
                       None \<Rightarrow> Inr errors
                     | Some pos \<Rightarrow>
                         bind_throws (stoi 10 (substr v 0 pos)) (\<lambda>status.
                         bind_throws (error_time start_ts delta) (\<lambda>ts.
                           Inr (emplace_record_error (entries ! unat entry_idx) ts
                             (mk_error status (substr_from v (pos + 1))) errors)))))
        else Inr errors)"

text \<open>The entries and the start time that the error headers refer to.\<close>

definition response_entries :: "headers \<Rightarrow> batch_v2_request \<Rightarrow> string list" where
  "response_entries hs request =
     (let entries = (case map_of hs kHeaderEntries of None \<Rightarrow> [] | Some raw \<Rightarrow> parse_encoded_list raw)
      in if entries = [] then bq_entries request else entries)"

definition response_start_ts :: "headers \<Rightarrow> batch_v2_request \<Rightarrow> u64" where
  "response_start_ts hs request =
     (case map_of hs kHeaderStartTs of
        None \<Rightarrow> bq_start_ts request
      | Some raw \<Rightarrow> (case stoull raw of Inl e \<Rightarrow> bq_start_ts request | Inr ts \<Rightarrow> ts))"

definition process_batch_v2_records ::
  "((nat \<Rightarrow> nat \<Rightarrow> bool) \<Rightarrow> nat list \<Rightarrow> nat list) \<Rightarrow> 'n httplib \<Rightarrow> string \<Rightarrow> batch \<Rightarrow>
   batch_type \<Rightarrow> ('n http_client, batch_record_errors result) io" where
  "process_batch_v2_records srt lib io_path b type =
     (let built = build_batch_v2_request srt [] b type True;
          request = res_value built
      in if is_error (res_error built) then ret_io (err_result [] (res_error built))
         else if bq_ordered request = [] then ret_io (ok_result [])
         else bind_io (send_batch_v2 lib io_path type b (bq_ordered request) (bq_headers request)) (\<lambda>sent.
           if is_error (res_error sent) then ret_io (err_result [] (res_error sent))
           else
             let hs = snd (res_value sent)
             in throws_io
                  (bind_throws
                     (fold_throws (record_error_step (response_entries hs request) (response_start_ts hs request))
                        hs [])
                     (\<lambda>errors. Inr (ok_result errors)))))"


section \<open>What the caller learns\<close>

text \<open>A server's report on one record: entry index, delta, status and message, and its header.\<close>

type_synonym report = "nat \<times> u64 \<times> int \<times> string"

definition report_ok :: "nat \<Rightarrow> report \<Rightarrow> bool" where
  "report_ok n r \<longleftrightarrow>
     (case r of (i, delta, status, msg) \<Rightarrow>
        i < n \<and> n < 2 ^ 64 \<and> - (2 ^ 31) \<le> status \<and> status < 2 ^ 31)"

definition report_header :: "report \<Rightarrow> string \<times> string" where
  "report_header r =
     (case r of (i, delta, status, msg) \<Rightarrow>
        (kHeaderErrorPrefix @ show_nat i @ ''-'' @ show_nat (unat delta), show_int status @ '','' @ msg))"

text \<open>The record it is about and the error it says.\<close>

definition report_meaning :: "string list \<Rightarrow> u64 \<Rightarrow> report \<Rightarrow> (string \<times> time) \<times> error" where
  "report_meaning entries start_ts r =
     (case r of (i, delta, status, msg) \<Rightarrow>
        ((entries ! i, time_of_us (uint (start_ts + delta))), mk_error status msg))"

definition error_at :: "batch_record_errors \<Rightarrow> string \<Rightarrow> time \<Rightarrow> error option" where
  "error_at errors entry ts = (case map_of errors entry of None \<Rightarrow> None | Some m \<Rightarrow> map_of m ts)"

definition record_errors_ok :: "batch_record_errors \<Rightarrow> bool" where
  "record_errors_ok errors \<longleftrightarrow> omap_ok errors \<and> (\<forall>e m. map_of errors e = Some m \<longrightarrow> omap_ok m)"

lemma error_time_eq: "error_time start_ts delta = Inr (time_of_us (uint (start_ts + delta)))"
  by (simp add: error_time_def from_microseconds_show)

lemma record_error_report:
  assumes "report_ok (length entries) r"
  shows "record_error_step entries start_ts (report_header r) errors =
    Inr (case report_meaning entries start_ts r of ((e, ts), err) \<Rightarrow> emplace_record_error e ts err errors)"
proof -
  obtain i delta status msg where r: "r = (i, delta, status, msg)" by (cases r)
  then have ok: "i < length entries" "i < 2 ^ 64" "- (2 ^ 31) \<le> status" "status < 2 ^ 31"
    using assms by (auto simp: report_ok_def)
  have "CHR ''-'' \<notin> set (show_nat (unat delta))"
    by (rule show_nat_no_char) (simp add: cis_digit_def code_of_def)
  moreover have "CHR '','' \<notin> set (show_int status)"
    by (rule show_int_no_char) (simp_all add: cis_digit_def code_of_def)
  moreover have "unat (of_nat i :: u64) = i" using ok(2) by (rule unat_of_nat_u64)
  ultimately show ?thesis
    using ok
    by (simp add: r record_error_step_def report_header_def report_meaning_def Let_def rfind_char_last
        find_char_first substr_def substr_from_def stoul_show_nat stoull_show_u64 stoi_show_int error_time_eq)
qed

lemma record_error_other:
  "\<not> starts_with (fst kv) kHeaderErrorPrefix \<Longrightarrow> record_error_step entries start_ts kv errors = Inr errors"
  by (cases kv) (simp add: record_error_step_def)

lemma emplace_record_error_ok:
  assumes "record_errors_ok errors"
  shows "record_errors_ok (emplace_record_error e ts err errors)"
    and "error_at (emplace_record_error e ts err errors) e' ts' =
      (if e' = e \<and> ts' = ts \<and> error_at errors e ts = None then Some err else error_at errors e' ts')"
proof -
  let ?m = "case map_of errors e of None \<Rightarrow> [] | Some m \<Rightarrow> m"
  have ok: "omap_ok errors" "omap_ok ?m"
    using assms by (auto simp: record_errors_ok_def split: option.splits)
  then show "record_errors_ok (emplace_record_error e ts err errors)"
    using assms by (auto simp: record_errors_ok_def emplace_record_error_def omap.ok_assign
        omap.lookup_assign omap.ok_emplace split: if_splits)
  show "error_at (emplace_record_error e ts err errors) e' ts' =
      (if e' = e \<and> ts' = ts \<and> error_at errors e ts = None then Some err else error_at errors e' ts')"
    using ok by (auto simp: error_at_def emplace_record_error_def omap.lookup_assign
        omap.lookup_emplace split: option.splits)
qed

lemma record_errors_fold:
  assumes "filter (\<lambda>kv. starts_with (fst kv) kHeaderErrorPrefix) hs = map report_header reports"
    and "\<forall>r \<in> set reports. report_ok (length entries) r" and "record_errors_ok errors"
  shows "\<exists>errors'. fold_throws (record_error_step entries start_ts) hs errors = Inr errors' \<and>
    (\<forall>e ts. error_at errors' e ts =
      (case error_at errors e ts of
         Some x \<Rightarrow> Some x | None \<Rightarrow> map_of (map (report_meaning entries start_ts) reports) (e, ts)))"
  using assms
proof (induction hs arbitrary: reports errors)
  case Nil
  then show ?case by (simp split: option.splits)
next
  case (Cons kv hs)
  show ?case
  proof (cases "starts_with (fst kv) kHeaderErrorPrefix")
    case False
    with Cons.prems Cons.IH [of reports errors] show ?thesis by (simp add: record_error_other)
  next
    case True
    with Cons.prems(1) obtain r rs where r: "reports = r # rs" "kv = report_header r"
      "filter (\<lambda>kv. starts_with (fst kv) kHeaderErrorPrefix) hs = map report_header rs"
      by (cases reports) auto
    obtain e ts err where m: "report_meaning entries start_ts r = ((e, ts), err)"
      by (metis prod.exhaust)
    have step: "record_error_step entries start_ts kv errors = Inr (emplace_record_error e ts err errors)"
      using Cons.prems(2) r m by (simp add: record_error_report)
    obtain errors' where "fold_throws (record_error_step entries start_ts) hs
        (emplace_record_error e ts err errors) = Inr errors'"
      and "\<forall>e' ts'. error_at errors' e' ts' =
        (case error_at (emplace_record_error e ts err errors) e' ts' of
           Some x \<Rightarrow> Some x | None \<Rightarrow> map_of (map (report_meaning entries start_ts) rs) (e', ts'))"
      using Cons.IH [OF r(3) _ emplace_record_error_ok(1) [OF Cons.prems(3)], of e ts err]
        Cons.prems(2) r(1) by (metis list.set_intros(2))
    with step m r(1) show ?thesis
      by (auto simp: emplace_record_error_ok(2) [OF Cons.prems(3)] split: option.splits)
  qed
qed

section \<open>Errors reach their records\<close>

text \<open>What a server says of the record with index \<open>i\<close>: its entry index and delta in the request.\<close>

definition report_of :: "batch_v2_request \<Rightarrow> batch \<Rightarrow> nat \<times> int \<times> string \<Rightarrow> report" where
  "report_of rq b f =
     (case f of (i, status, msg) \<Rightarrow>
        (length (takeWhile (\<lambda>e. e \<noteq> entry_of b [] i) (bq_entries rq)),
         word_of b i - bq_start_ts rq, status, msg))"

lemma takeWhile_index:
  "x \<in> set xs \<Longrightarrow> length (takeWhile (\<lambda>y. y \<noteq> x) xs) < length xs \<and> xs ! length (takeWhile (\<lambda>y. y \<noteq> x) xs) = x"
  by (induction xs) auto

lemma report_of_meaning:
  assumes "std_sort srt" and "addressable [] b" and "i < length (batch_records b)"
    and "rq = res_value (build_batch_v2_request srt [] b type True)"
    and "- (2 ^ 31) \<le> status" and "status < 2 ^ 31"
  shows "report_ok (length (bq_entries rq)) (report_of rq b (i, status, msg))"
    and "report_meaning (bq_entries rq) (bq_start_ts rq) (report_of rq b (i, status, msg)) =
      ((entry_of b [] i, br_timestamp (batch_records b ! i)), mk_error status msg)"
proof -
  have "batch_records b \<noteq> []" using assms(3) by auto
  then obtain indices es s where rf: "request_facts b [] (sort_records srt b [] True) indices es s"
    and rq: "bq_entries rq = es" "bq_start_ts rq = s"
    using build_request_eq [OF assms(1,2) _ refl, of type True] unfolding assms(4) by auto
  have "i \<in> set (sort_records srt b [] True)"
    using assms(3) by (simp add: sort_records_set [OF assms(1)])
  with rf have "entry_of b [] i \<in> set es" "length es < 2 ^ 64"
    by (auto simp: request_facts_def)
  from takeWhile_index [OF this(1)] this(2) show
    "report_ok (length (bq_entries rq)) (report_of rq b (i, status, msg))"
    "report_meaning (bq_entries rq) (bq_start_ts rq) (report_of rq b (i, status, msg)) =
      ((entry_of b [] i, br_timestamp (batch_records b ! i)), mk_error status msg)"
    using addressable_in [OF assms(2,3)] assms(5,6) time_of_us_word
    by (simp_all add: report_of_def report_ok_def report_meaning_def rq)
qed

lemma map_of_reports:
  assumes "addressable [] b" and "\<forall>f \<in> set failed. fst f < length (batch_records b)"
    and "distinct (map fst failed)" and "(i, status, msg) \<in> set failed"
  shows "map_of (map (\<lambda>(i, status, msg).
      ((entry_of b [] i, br_timestamp (batch_records b ! i)), mk_error status msg)) failed)
    (entry_of b [] i, br_timestamp (batch_records b ! i)) = Some (mk_error status msg)"
  using assms(2,3,4)
proof (induction failed)
  case Nil
  then show ?case by simp
next
  case (Cons f failed)
  obtain j st ms where f: "f = (j, st, ms)" by (cases f)
  show ?case
  proof (cases "j = i")
    case True
    with Cons.prems f have "f = (i, status, msg)"
      by (force simp: image_iff)
    then show ?thesis by simp
  next
    case False
    have "i < length (batch_records b)" "j < length (batch_records b)"
      using Cons.prems f by fastforce+
    with False have "(entry_of b [] i, br_timestamp (batch_records b ! i)) \<noteq>
        (entry_of b [] j, br_timestamp (batch_records b ! j))"
      using addressable_distinct [OF assms(1)] by blast
    with False Cons f show ?thesis by (auto split: prod.splits)
  qed
qed

lemma map_of_reported:
  assumes "map_of (map (\<lambda>(i, status, msg).
      ((entry_of b [] i, br_timestamp (batch_records b ! i)), mk_error status msg)) failed) (e, ts) \<noteq> None"
  shows "\<exists>f \<in> set failed. e = entry_of b [] (fst f) \<and> ts = br_timestamp (batch_records b ! fst f)"
  using assms unfolding not_None_eq by (elim exE) (drule map_of_SomeD, force)

text \<open>
  C6: The errors a server reports reach the records they are about: when the response to a v2
  request, be it a write, an update or a removal, carries an error header for each failed record (under the entry index and the delta
  that the request gave it), the caller gets exactly those errors, each under the entry and
  the timestamp of its record.
\<close>

theorem v2_errors_reach_their_records:
  assumes "std_sort srt" and "addressable [] b" and "batch_records b \<noteq> []"
    and rq: "rq = res_value (build_batch_v2_request srt [] b type True)"
    and send: "send_batch_v2 lib io_path type b (bq_ordered rq) (bq_headers rq) c = Inr (ok_result (body, hs), c')"
    and "map_of hs kHeaderEntries = None" and "map_of hs kHeaderStartTs = None"
    and "filter (\<lambda>kv. starts_with (fst kv) kHeaderErrorPrefix) hs =
      map (\<lambda>f. report_header (report_of rq b f)) failed"
    and "\<forall>(i, status, msg) \<in> set failed. i < length (batch_records b) \<and> - (2 ^ 31) \<le> status \<and> status < 2 ^ 31"
    and "distinct (map fst failed)"
  shows "\<exists>errors. process_batch_v2_records srt lib io_path b type c = Inr (ok_result errors, c') \<and>
    (\<forall>(i, status, msg) \<in> set failed.
       error_at errors (entry_of b [] i) (br_timestamp (batch_records b ! i)) = Some (mk_error status msg)) \<and>
    (\<forall>e ts. error_at errors e ts \<noteq> None \<longrightarrow>
       (\<exists>f \<in> set failed. e = entry_of b [] (fst f) \<and> ts = br_timestamp (batch_records b ! fst f)))"
proof -
  let ?rep = "\<lambda>f. report_of rq b f"
  let ?mean = "\<lambda>(i, status, msg). ((entry_of b [] i, br_timestamp (batch_records b ! i)), mk_error status msg)"
  have "\<exists>indices es s. build_batch_v2_request srt [] b type True =
      ok_result \<lparr>bq_ordered = sort_records srt b [] True, bq_entries = es, bq_start_ts = s,
        bq_headers = named_headers es s @ map (record_header_v2 b [] type indices s) (sort_records srt b [] True)\<rparr>"
    using build_request_eq [OF assms(1-3) refl] by blast
  then have built: "res_error (build_batch_v2_request srt [] b type True) = kOk" "bq_ordered rq \<noteq> []"
    using rq assms(3) sort_records_Nil [OF assms(1)] by auto
  have ref: "response_entries hs rq = bq_entries rq" "response_start_ts hs rq = bq_start_ts rq"
    using assms(6,7) by (simp_all add: response_entries_def response_start_ts_def)
  have ok: "\<forall>r \<in> set (map ?rep failed). report_ok (length (bq_entries rq)) r"
    using assms(9) report_of_meaning(1) [OF assms(1,2) _ rq] by auto
  have mean: "map (report_meaning (bq_entries rq) (bq_start_ts rq)) (map ?rep failed) = map ?mean failed"
    using assms(9) report_of_meaning(2) [OF assms(1,2) _ rq] by auto
  obtain errors where errors: "fold_throws (record_error_step (bq_entries rq) (bq_start_ts rq)) hs [] = Inr errors"
    "\<forall>e ts. error_at errors e ts = map_of (map ?mean failed) (e, ts)"
    using record_errors_fold [of hs "map ?rep failed" "bq_entries rq" "[]" "bq_start_ts rq"] assms(8) ok
    unfolding mean by (auto simp: record_errors_ok_def error_at_def comp_def)
  have "process_batch_v2_records srt lib io_path b type c = Inr (ok_result errors, c')"
    using built send errors(1)
    by (simp add: process_batch_v2_records_def rq [symmetric] bind_io_def throws_io_def ref)
  moreover have "\<forall>(i, status, msg) \<in> set failed.
      error_at errors (entry_of b [] i) (br_timestamp (batch_records b ! i)) = Some (mk_error status msg)"
  proof (clarify)
    fix i status msg assume "(i, status, msg) \<in> set failed"
    with errors(2) show "error_at errors (entry_of b [] i) (br_timestamp (batch_records b ! i)) =
        Some (mk_error status msg)"
      using map_of_reports [OF assms(2) _ assms(10)] assms(9) by fastforce
  qed
  moreover have "\<forall>e ts. error_at errors e ts \<noteq> None \<longrightarrow>
      (\<exists>f \<in> set failed. e = entry_of b [] (fst f) \<and> ts = br_timestamp (batch_records b ! fst f))"
    using map_of_reported [of b failed] by (simp only: errors(2) not_False_eq_True) blast
  ultimately show ?thesis by blast
qed

text \<open>A server that answers every request alike, for the examples.\<close>

definition two_entries :: batch where
  "two_entries = add_record ''b'' 2000 ''hi'' [] [] (add_record ''a'' 1000 ''abc'' [] [] empty_batch)"

lemma two_entries_sendable: "sendable [] two_entries" "batch_records two_entries \<noteq> []"
  by (simp_all add: sendable_def addressable_def two_entries_def add_ops_defs batch_simps record_text_ok_def labels_ok_def
      us_time_def is_int64_def entry_ok_def record_entry_def empty_batch_def trim_def is_blank_def)

definition conflict_reply :: http_response where
  "conflict_reply = \<lparr>hr_status = 200, hr_headers = [(''X-Reduct-Error-1-1'', ''409,exists'')], hr_body = []\<rparr>"

lemma conflict_reply_sent:
  "send_batch_v2 (answering conflict_reply) ''/io/x'' kWrite two_entries
     (bq_ordered (res_value (build_batch_v2_request isort [] two_entries kWrite True)))
     (bq_headers (res_value (build_batch_v2_request isort [] two_entries kWrite True))) sample_client =
   Inr (ok_result ([], [(''x-reduct-error-1-1'', ''409,exists'')]), sample_client)"
  by code_simp

lemma conflict_reply_header:
  "report_header (report_of (res_value (build_batch_v2_request isort [] two_entries kWrite True)) two_entries
     (1, 409, ''exists'')) = (''x-reduct-error-1-1'', ''409,exists'')"
  by code_simp

theorem v2_errors_reach_their_records_witness:
  "\<exists>errors. process_batch_v2_records isort (answering conflict_reply) ''/io/x'' two_entries kWrite sample_client =
      Inr (ok_result errors, sample_client) \<and>
    error_at errors ''b'' 2000 = Some (mk_error 409 ''exists'') \<and> error_at errors ''a'' 1000 = None"
proof -
  have fields: "length (batch_records two_entries) = 2"
    "entry_of two_entries [] 1 = ''b''" "br_timestamp (batch_records two_entries ! 1) = 2000"
    by (simp_all add: two_entries_def add_ops_defs batch_simps empty_batch_def record_entry_def)
  have "\<exists>errors. process_batch_v2_records isort (answering conflict_reply) ''/io/x'' two_entries kWrite sample_client =
      Inr (ok_result errors, sample_client) \<and>
    (\<forall>(i, status, msg) \<in> set [(1, 409, ''exists'')].
       error_at errors (entry_of two_entries [] i) (br_timestamp (batch_records two_entries ! i)) =
         Some (mk_error status msg)) \<and>
    (\<forall>e ts. error_at errors e ts \<noteq> None \<longrightarrow>
       (\<exists>f \<in> set [(1, 409::int, ''exists'')]. e = entry_of two_entries [] (fst f) \<and>
          ts = br_timestamp (batch_records two_entries ! fst f)))"
  proof (rule v2_errors_reach_their_records [OF isort.std_sort_axioms sendable_addressable [OF two_entries_sendable(1)] two_entries_sendable(2) refl conflict_reply_sent])
    show "filter (\<lambda>kv. starts_with (fst kv) kHeaderErrorPrefix) [(''x-reduct-error-1-1'', ''409,exists'')] =
      map (\<lambda>f. report_header (report_of (res_value (build_batch_v2_request isort [] two_entries kWrite True)) two_entries f))
        [(1, 409, ''exists'')]"
      by (simp add: conflict_reply_header [unfolded One_nat_def] header_names starts_with_def)
  qed (simp_all add: header_names fields)
  with fields show ?thesis by (auto simp del: not_None_eq)
qed

end
