(* ===== verification/Batch_Spec.thy ===== *)
theory Batch_Spec
  imports Batch
begin

text \<open>
  What a batch is to its user: a list of records, each with its payload. The abstract batch has no
  payload table, no indices and no byte counter; adding a record is appending it, and the body is
  the payloads one after the other. The class \<^verbatim>\<open>Batch\<close> refines it: \<open>abs_batch\<close> reads the abstract
  records off the concrete state, and every operation commutes with it.
\<close>

record abs_record =
  ar_entry :: string
  ar_timestamp :: time
  ar_content_type :: string
  ar_labels :: label_map
  ar_payload :: "string option"

type_synonym abs_batch = "abs_record list"

definition abs_add ::
  "string \<Rightarrow> time \<Rightarrow> string option \<Rightarrow> string \<Rightarrow> label_map \<Rightarrow> abs_batch \<Rightarrow> abs_batch" where
  "abs_add entry ts payload content_type labels rs =
     rs @ [\<lparr>ar_entry = entry, ar_timestamp = ts, ar_content_type = content_type, ar_labels = labels,
       ar_payload = payload\<rparr>]"

definition abs_body :: "abs_batch \<Rightarrow> string" where
  "abs_body rs = concat (List.map_filter ar_payload rs)"

definition abs_of :: "batch \<Rightarrow> batch_record \<Rightarrow> abs_record" where
  "abs_of b r = \<lparr>ar_entry = br_entry r, ar_timestamp = br_timestamp r, ar_content_type = br_content_type r,
     ar_labels = br_labels r, ar_payload = map_option (\<lambda>i. batch_body b ! i) (br_data_index r)\<rparr>"

definition abs_batch :: "batch \<Rightarrow> abs_batch" where
  "abs_batch b = map (abs_of b) (batch_records b)"

lemma abs_of_append:
  assumes "record_ok (batch_body b) r" and "batch_body b' = batch_body b @ ds"
  shows "abs_of b' r = abs_of b r"
  using assms by (auto simp: abs_of_def record_ok_def nth_append split: option.splits)

lemma abs_batch_shared:
  assumes "batch_ok b"
  shows "abs_batch (add_record_shared e ts d ct ls b) =
    abs_add e ts (Some (case d of None \<Rightarrow> [] | Some x \<Rightarrow> x)) ct ls (abs_batch b)"
proof -
  have "map (abs_of (add_record_shared e ts d ct ls b)) (batch_records b) = map (abs_of b) (batch_records b)"
    using assms by (intro map_cong refl abs_of_append) (auto simp: batch_ok_def list_all_iff batch_simps)
  then show ?thesis by (simp add: abs_batch_def batch_simps abs_add_def abs_of_def)
qed

lemma abs_batch_push:
  assumes "br_data_index r = None"
  shows "abs_batch (push_record r b) = abs_add (br_entry r) (br_timestamp r) None (br_content_type r) (br_labels r) (abs_batch b)"
  using assms by (simp add: abs_batch_def batch_simps abs_add_def abs_of_def)

lemma map_filter_map_option:
  "List.map_filter (\<lambda>x. map_option h (f x)) xs = map h (List.map_filter f xs)"
  by (induction xs) (auto simp: List.map_filter_simps split: option.splits)

lemma abs_body_batch:
  assumes "batch_ok b"
  shows "abs_body (abs_batch b) = concat (batch_body b)"
  using assms by (simp add: abs_body_def abs_batch_def map_filter_map abs_of_def map_filter_map_option
      batch_ok_def map_nth)

lemma abs_body_slice:
  assumes "batch_ok b" and "length (abs_body (abs_batch b)) < 2 ^ 64"
  shows "unat (batch_size b) = length (abs_body (abs_batch b))"
    and "slice None b off sz = Inr (take sz (drop off (abs_body (abs_batch b))))"
proof -
  note body = abs_body_batch [OF assms(1)]
  have total: "total_bytes b = length (abs_body (abs_batch b))"
    unfolding body by (simp add: total_bytes_def length_concat)
  then show sz: "unat (batch_size b) = length (abs_body (abs_batch b))"
    using unat_batch_size [OF assms(1)] assms(2) by simp
  show "slice None b off sz = Inr (take sz (drop off (abs_body (abs_batch b))))"
    by (simp add: slice_def sz slice_unordered_spec) (simp add: body)
qed

text \<open>
  C12: A batch is a refinement of the list of its records with their payloads. For every batch made
  with the public operations: each operation appends one record to the abstract batch (a null
  pointer is an empty payload, a record without data has none), \<^verbatim>\<open>size()\<close> is the length of the
  abstract body modulo \<open>2 ^ 64\<close>, and below that \<^verbatim>\<open>Slice\<close> reads the abstract body.
\<close>

theorem batch_refines_records:
  assumes "built b"
  shows "abs_batch empty_batch = [] \<and>
    abs_batch (add_record_shared e ts d ct ls b) =
      abs_add e ts (Some (case d of None \<Rightarrow> [] | Some x \<Rightarrow> x)) ct ls (abs_batch b) \<and>
    abs_batch (add_record e ts data ct ls b) = abs_add e ts (Some data) ct ls (abs_batch b) \<and>
    abs_batch (add_record_at ts data ct ls b) = abs_add [] ts (Some data) ct ls (abs_batch b) \<and>
    abs_batch (add_empty e ts b) = abs_add e ts None [] [] (abs_batch b) \<and>
    abs_batch (add_empty_at ts b) = abs_add [] ts None [] [] (abs_batch b) \<and>
    abs_batch (add_only_labels e ts ls b) = abs_add e ts None [] ls (abs_batch b) \<and>
    abs_batch (add_only_labels_at ts ls b) = abs_add [] ts None [] ls (abs_batch b) \<and>
    batch_size b = of_nat (length (abs_body (abs_batch b))) \<and>
    (length (abs_body (abs_batch b)) < 2 ^ 64 \<longrightarrow>
       slice None b off sz = Inr (take sz (drop off (abs_body (abs_batch b)))))"
proof -
  note ok = built_ok [OF assms]
  have "batch_size b = of_nat (length (abs_body (abs_batch b)))"
    using ok by (simp add: abs_body_batch batch_ok_def total_bytes_def length_concat)
  then show ?thesis
    using abs_body_slice(2) [OF ok]
    by (simp add: abs_batch_shared [OF ok] abs_batch_push add_ops_defs) (simp add: abs_batch_def empty_batch_def)
qed

theorem batch_refines_records_witness:
  "slice None (add_record ''a'' 1 ''hello'' [] [] empty_batch) 1 3 = Inr ''ell''"
proof -
  let ?b = "add_record ''a'' 1 ''hello'' [] [] empty_batch"
  have "abs_batch ?b = abs_add ''a'' 1 (Some ''hello'') [] [] []"
    using batch_refines_records [OF built_empty] by metis
  then have "abs_body (abs_batch ?b) = ''hello''"
    by (simp add: abs_body_def abs_add_def List.map_filter_simps)
  then show ?thesis using batch_refines_records [OF built_record [OF built_empty]] by simp
qed

end
