(* ===== verification/Json.thy ===== *)
theory Json
  imports Result Containers
begin

text \<open>
  The interface of the JSON library (\<^verbatim>\<open>nlohmann::json\<close>), which is not part of the sources: the
  operations the sources call, as the fields of \<open>json_ops\<close>, an argument of every definition that
  uses them. The locale \<open>json_laws\<close> states what its documentation says of objects that are
  built with \<^verbatim>\<open>operator[]\<close> and of conversions; the values of RFC 8259 meet it.
\<close>

section \<open>The operations\<close>

record 'j json_ops =
  j_null :: 'j
  j_parse :: "string \<Rightarrow> 'j throws"
  j_dump :: "'j \<Rightarrow> string throws"
  j_string :: "string \<Rightarrow> 'j"
  j_u64 :: "u64 \<Rightarrow> 'j"
  j_int :: "int \<Rightarrow> 'j"
  j_bool :: "bool \<Rightarrow> 'j"
  j_array :: "'j list \<Rightarrow> 'j"
  j_set :: "string \<Rightarrow> 'j \<Rightarrow> 'j \<Rightarrow> 'j"
  j_contains :: "'j \<Rightarrow> string \<Rightarrow> bool"
  j_at :: "'j \<Rightarrow> string \<Rightarrow> 'j throws"
  j_index :: "'j \<Rightarrow> string \<Rightarrow> 'j throws"
  j_is_null :: "'j \<Rightarrow> bool"
  j_is_string :: "'j \<Rightarrow> string \<Rightarrow> bool"
  j_get_string :: "'j \<Rightarrow> string throws"
  j_get_u64 :: "'j \<Rightarrow> u64 throws"
  j_get_int :: "'j \<Rightarrow> int throws"
  j_get_bool :: "'j \<Rightarrow> bool throws"
  j_get_strings :: "'j \<Rightarrow> string list throws"
  j_elements :: "'j \<Rightarrow> 'j list"
  j_indexed :: "'j \<Rightarrow> 'j list throws"
  j_items :: "'j \<Rightarrow> (string \<times> 'j) list"
  j_value_bool :: "'j \<Rightarrow> string \<Rightarrow> bool \<Rightarrow> bool throws"
  j_value_strings :: "'j \<Rightarrow> string \<Rightarrow> string list \<Rightarrow> string list throws"

text \<open>A list of strings as an array, and what the sources write as \<^verbatim>\<open>j.at(k)\<close> with a conversion.\<close>

definition j_strings :: "'j json_ops \<Rightarrow> string list \<Rightarrow> 'j" where
  "j_strings J xs = j_array J (map (j_string J) xs)"

definition at_string :: "'j json_ops \<Rightarrow> 'j \<Rightarrow> string \<Rightarrow> string throws" where
  "at_string J j k = bind_throws (j_at J j k) (j_get_string J)"

definition at_u64 :: "'j json_ops \<Rightarrow> 'j \<Rightarrow> string \<Rightarrow> u64 throws" where
  "at_u64 J j k = bind_throws (j_at J j k) (j_get_u64 J)"

definition at_int :: "'j json_ops \<Rightarrow> 'j \<Rightarrow> string \<Rightarrow> int throws" where
  "at_int J j k = bind_throws (j_at J j k) (j_get_int J)"

definition at_bool :: "'j json_ops \<Rightarrow> 'j \<Rightarrow> string \<Rightarrow> bool throws" where
  "at_bool J j k = bind_throws (j_at J j k) (j_get_bool J)"

definition at_strings :: "'j json_ops \<Rightarrow> 'j \<Rightarrow> string \<Rightarrow> string list throws" where
  "at_strings J j k = bind_throws (j_at J j k) (j_get_strings J)"

text \<open>\<^verbatim>\<open>j.contains(k) && !j.at(k).is_null()\<close>, then the conversion into an optional.\<close>

definition optional_at :: "'j json_ops \<Rightarrow> 'j \<Rightarrow> string \<Rightarrow> ('j \<Rightarrow> 'a throws) \<Rightarrow> 'a option throws" where
  "optional_at J j k f =
     (if j_contains J j k then
        bind_throws (j_at J j k) (\<lambda>v.
          if j_is_null J v then Inr None else bind_throws (f v) (\<lambda>x. Inr (Some x)))
      else Inr None)"

text \<open>\<^verbatim>\<open>if (o) j[k] = f(*o)\<close>.\<close>

definition set_optional :: "'j json_ops \<Rightarrow> string \<Rightarrow> ('a \<Rightarrow> 'j) \<Rightarrow> 'a option \<Rightarrow> 'j \<Rightarrow> 'j" where
  "set_optional J k f opt j = (case opt of None \<Rightarrow> j | Some x \<Rightarrow> j_set J k (f x) j)"

text \<open>\<^verbatim>\<open>try { return body; } catch (const std::exception& ex) { return {{}, Error{-1, ex.what()}}; }\<close>.\<close>

definition try_result :: "'a \<Rightarrow> 'a result throws \<Rightarrow> 'a result throws" where
  "try_result dflt body = catch_all body (\<lambda>e. Inr (err_result dflt (mk_error (- 1) (what e))))"

lemma try_result_simps [simp]:
  "try_result d (Inr r) = Inr r"
  "\<not> is_ub e \<Longrightarrow> try_result d (Inl e) = Inr (err_result d (mk_error (- 1) (what e)))"
  by (simp_all add: try_result_def)

section \<open>The laws\<close>

locale json_laws =
  fixes J :: "'j json_ops" and is_obj :: "'j \<Rightarrow> bool"
  assumes obj_null: "is_obj (j_null J)"
    and obj_set: "is_obj j \<Longrightarrow> is_obj (j_set J k v j)"
    and contains_null: "\<not> j_contains J (j_null J) k"
    and contains_set: "is_obj j \<Longrightarrow> j_contains J (j_set J k v j) k' \<longleftrightarrow> k' = k \<or> j_contains J j k'"
    and at_set: "is_obj j \<Longrightarrow> j_at J (j_set J k v j) k' = (if k' = k then Inr v else j_at J j k')"
    and get_string: "j_get_string J (j_string J s) = Inr s"
    and get_u64: "j_get_u64 J (j_u64 J n) = Inr n"
    and get_bool: "j_get_bool J (j_bool J b) = Inr b"
    and get_strings: "j_get_strings J (j_array J (map (j_string J) xs)) = Inr xs"
    and is_string: "j_is_string J (j_string J s) t \<longleftrightarrow> s = t"
    and null_iff: "j_is_null J (j_null J)" "\<not> j_is_null J (j_set J k v j)" "\<not> j_is_null J (j_string J s)"
      "\<not> j_is_null J (j_u64 J n)"
begin

lemma contains_optional:
  "is_obj j \<Longrightarrow> j_contains J (set_optional J k f x j) k' \<longleftrightarrow> (k' = k \<and> x \<noteq> None) \<or> j_contains J j k'"
  by (auto simp: set_optional_def contains_set split: option.splits)

lemma at_optional:
  "is_obj j \<Longrightarrow> j_at J (set_optional J k f x j) k' =
     (case x of Some y \<Rightarrow> if k' = k then Inr (f y) else j_at J j k' | None \<Rightarrow> j_at J j k')"
  by (auto simp: set_optional_def at_set split: option.splits)

lemma obj_optional: "is_obj j \<Longrightarrow> is_obj (set_optional J k f x j)"
  by (auto simp: set_optional_def obj_set split: option.splits)

lemmas built = obj_null obj_set obj_optional contains_null contains_set contains_optional at_set at_optional
  get_string get_u64 get_bool get_strings is_string null_iff

end

section \<open>The values of RFC 8259 meet them\<close>

datatype json_value =
    JNull
  | JBool bool
  | JInt int
  | JString string
  | JArray "json_value list"
  | JObject "(string \<times> json_value) list"

definition type_error :: "string \<Rightarrow> exn" where
  "type_error expected = Json_error (''[json.exception.type_error] type must be '' @ expected)"

fun value_set :: "string \<Rightarrow> json_value \<Rightarrow> json_value \<Rightarrow> json_value" where
  "value_set k v (JObject m) = JObject (omap_assign k v m)"
| "value_set k v _ = JObject [(k, v)]"

fun value_fields :: "json_value \<Rightarrow> (string \<times> json_value) list" where
  "value_fields (JObject m) = m"
| "value_fields _ = []"

fun value_elements :: "json_value \<Rightarrow> json_value list" where
  "value_elements (JArray xs) = xs"
| "value_elements (JObject m) = map snd m"
| "value_elements _ = []"

text \<open>The elements through \<^verbatim>\<open>operator[](i)\<close> for \<^verbatim>\<open>i < size()\<close>.\<close>

fun value_indexed :: "json_value \<Rightarrow> json_value list throws" where
  "value_indexed (JArray xs) = Inr xs"
| "value_indexed JNull = Inr []"
| "value_indexed (JObject []) = Inr []"
| "value_indexed _ = Inl (type_error ''array'')"

definition value_at :: "json_value \<Rightarrow> string \<Rightarrow> json_value throws" where
  "value_at j k =
     (case map_of (value_fields j) k of
        Some v \<Rightarrow> Inr v
      | None \<Rightarrow> Inl (Json_error (''[json.exception.out_of_range] key not found: '' @ k)))"

fun value_string :: "json_value \<Rightarrow> string throws" where
  "value_string (JString s) = Inr s"
| "value_string _ = Inl (type_error ''string'')"

fun value_int :: "json_value \<Rightarrow> int throws" where
  "value_int (JInt i) = Inr i"
| "value_int _ = Inl (type_error ''number'')"

fun value_bool :: "json_value \<Rightarrow> bool throws" where
  "value_bool (JBool b) = Inr b"
| "value_bool _ = Inl (type_error ''boolean'')"

fun strings_of :: "json_value list \<Rightarrow> string list throws" where
  "strings_of [] = Inr []"
| "strings_of (x # xs) = bind_throws (value_string x) (\<lambda>s. bind_throws (strings_of xs) (\<lambda>ss. Inr (s # ss)))"

fun value_strings :: "json_value \<Rightarrow> string list throws" where
  "value_strings (JArray xs) = strings_of xs"
| "value_strings _ = Inl (type_error ''array'')"

text \<open>Parsing and printing are left open; the laws do not speak of them.\<close>

definition value_json :: "(string \<Rightarrow> json_value throws) \<Rightarrow> (json_value \<Rightarrow> string throws) \<Rightarrow> json_value json_ops" where
  "value_json parse dump =
     \<lparr>j_null = JNull, j_parse = parse, j_dump = dump, j_string = JString, j_u64 = (\<lambda>n. JInt (uint n)),
      j_int = JInt, j_bool = JBool, j_array = JArray, j_set = value_set,
      j_contains = (\<lambda>j k. map_of (value_fields j) k \<noteq> None), j_at = value_at,
      j_index = (\<lambda>j k. Inr (case map_of (value_fields j) k of None \<Rightarrow> JNull | Some v \<Rightarrow> v)),
      j_is_null = (\<lambda>j. j = JNull), j_is_string = (\<lambda>j s. j = JString s),
      j_get_string = value_string, j_get_u64 = (\<lambda>j. bind_throws (value_int j) (\<lambda>i. Inr (word_of_int i))),
      j_get_int = value_int, j_get_bool = value_bool, j_get_strings = value_strings,
      j_elements = value_elements, j_indexed = value_indexed, j_items = value_fields,
      j_value_bool = (\<lambda>j k d. case map_of (value_fields j) k of None \<Rightarrow> Inr d | Some v \<Rightarrow> value_bool v),
      j_value_strings = (\<lambda>j k d. case map_of (value_fields j) k of None \<Rightarrow> Inr d | Some v \<Rightarrow> value_strings v)\<rparr>"

definition is_object :: "json_value \<Rightarrow> bool" where
  "is_object j \<longleftrightarrow> (case j of JNull \<Rightarrow> True | JObject m \<Rightarrow> True | _ \<Rightarrow> False)"

lemma value_fields_set: "is_object j \<Longrightarrow> map_of (value_fields (value_set k v j)) = (map_of (value_fields j))(k \<mapsto> v)"
  by (cases j) (auto simp: is_object_def map_of_omap_assign)

lemma strings_of_map: "strings_of (map JString xs) = Inr xs"
  by (induction xs) auto

interpretation value_json: json_laws "value_json parse dump" is_object
proof unfold_locales
  show "is_object (j_set (value_json parse dump) k v j)" if "is_object j" for k v j
    using that by (cases j) (simp_all add: value_json_def is_object_def)
  show "\<not> j_is_null (value_json parse dump) (j_set (value_json parse dump) k v j)" for k v j
    by (cases j) (simp_all add: value_json_def)
qed (auto simp: value_json_def value_at_def value_fields_set strings_of_map is_object_def)

end
