(* ===== verification/Serialisation.thy ===== *)
theory Serialisation
  imports Json Records
begin

text \<open>
  Between the structures of the client and JSON (serialisation.cc, bucket.h, client.h,
  diagnostics.h): the enumerations and their texts, bucket settings, replications, and the
  options of queries and query links. \<open>J\<close> is the JSON library.
\<close>

section \<open>Enumerations\<close>

datatype quota_type = qt_kNone | qt_kFifo | qt_kHard
datatype status = st_kReady | st_kDeleting
datatype replication_mode = rm_kEnabled | rm_kPaused | rm_kDisabled
datatype replication_compression = rc_kNone | rc_kZstd | rc_kGzip
datatype lifecycle_mode = lm_kEnabled | lm_kDisabled | lm_kDryRun
datatype lifecycle_type = lt_kDelete | lt_kCompress

fun replication_mode_to_string :: "replication_mode \<Rightarrow> string" where
  "replication_mode_to_string rm_kEnabled = ''enabled''"
| "replication_mode_to_string rm_kPaused = ''paused''"
| "replication_mode_to_string rm_kDisabled = ''disabled''"

fun replication_compression_to_string :: "replication_compression \<Rightarrow> string" where
  "replication_compression_to_string rc_kNone = ''none''"
| "replication_compression_to_string rc_kZstd = ''zstd''"
| "replication_compression_to_string rc_kGzip = ''gzip''"

fun lifecycle_mode_to_string :: "lifecycle_mode \<Rightarrow> string" where
  "lifecycle_mode_to_string lm_kEnabled = ''enabled''"
| "lifecycle_mode_to_string lm_kDisabled = ''disabled''"
| "lifecycle_mode_to_string lm_kDryRun = ''dry_run''"

fun lifecycle_type_to_string :: "lifecycle_type \<Rightarrow> string" where
  "lifecycle_type_to_string lt_kDelete = ''delete''"
| "lifecycle_type_to_string lt_kCompress = ''compress''"

definition parse_replication_mode :: "'j json_ops \<Rightarrow> 'j \<Rightarrow> replication_mode throws" where
  "parse_replication_mode J mode_json =
     (if j_is_null J mode_json then Inr rm_kEnabled
      else bind_throws (j_get_string J mode_json) (\<lambda>mode.
        if mode = ''enabled'' then Inr rm_kEnabled
        else if mode = ''paused'' then Inr rm_kPaused
        else if mode = ''disabled'' then Inr rm_kDisabled
        else Inl (Invalid_argument (''Invalid replication mode: '' @ mode))))"

definition parse_replication_compression :: "'j json_ops \<Rightarrow> 'j \<Rightarrow> replication_compression throws" where
  "parse_replication_compression J compression_json =
     (if j_is_null J compression_json then Inr rc_kNone
      else bind_throws (j_get_string J compression_json) (\<lambda>compression.
        if compression = ''none'' then Inr rc_kNone
        else if compression = ''zstd'' then Inr rc_kZstd
        else if compression = ''gzip'' then Inr rc_kGzip
        else Inl (Invalid_argument (''Invalid replication compression: '' @ compression))))"

definition parse_lifecycle_mode :: "'j json_ops \<Rightarrow> 'j \<Rightarrow> lifecycle_mode throws" where
  "parse_lifecycle_mode J mode_json =
     (if j_is_null J mode_json then Inr lm_kEnabled
      else bind_throws (j_get_string J mode_json) (\<lambda>mode.
        if mode = ''enabled'' then Inr lm_kEnabled
        else if mode = ''disabled'' then Inr lm_kDisabled
        else if mode = ''dry_run'' then Inr lm_kDryRun
        else Inl (Invalid_argument (''Invalid lifecycle mode: '' @ mode))))"

definition parse_lifecycle_type :: "'j json_ops \<Rightarrow> 'j \<Rightarrow> lifecycle_type throws" where
  "parse_lifecycle_type J type_json =
     (if j_is_null J type_json then Inr lt_kDelete
      else bind_throws (j_get_string J type_json) (\<lambda>type.
        if type = ''delete'' then Inr lt_kDelete
        else if type = ''compress'' then Inr lt_kCompress
        else Inl (Invalid_argument (''Invalid lifecycle type: '' @ type))))"

definition parse_status :: "'j json_ops \<Rightarrow> 'j \<Rightarrow> status throws" where
  "parse_status J json =
     (if j_contains J json ''status'' then
        bind_throws (at_string J json ''status'') (\<lambda>status.
          Inr (if status = ''DELETING'' then st_kDeleting else st_kReady))
      else Inr st_kReady)"

section \<open>Bucket settings\<close>

record settings =
  se_max_block_size :: "u64 option"
  se_quota_type :: "quota_type option"
  se_quota_size :: "u64 option"
  se_max_block_records :: "u64 option"

definition no_settings :: settings where
  "no_settings = \<lparr>se_max_block_size = None, se_quota_type = None, se_quota_size = None,
     se_max_block_records = None\<rparr>"

fun quota_type_text :: "quota_type \<Rightarrow> string" where
  "quota_type_text qt_kNone = ''NONE''"
| "quota_type_text qt_kFifo = ''FIFO''"
| "quota_type_text qt_kHard = ''HARD''"

definition bucket_setting_to_json :: "'j json_ops \<Rightarrow> settings \<Rightarrow> 'j" where
  "bucket_setting_to_json J s =
     set_optional J ''max_block_records'' (j_u64 J) (se_max_block_records s)
    (set_optional J ''quota_size'' (j_u64 J) (se_quota_size s)
    (set_optional J ''quota_type'' (\<lambda>q. j_string J (quota_type_text q)) (se_quota_type s)
    (set_optional J ''max_block_size'' (j_u64 J) (se_max_block_size s) (j_null J))))"

text \<open>\<^verbatim>\<open>if (json.contains(k)) field = json[k]\<close>.\<close>

definition contained_u64 :: "'j json_ops \<Rightarrow> 'j \<Rightarrow> string \<Rightarrow> u64 option throws" where
  "contained_u64 J json k =
     (if j_contains J json k then bind_throws (at_u64 J json k) (\<lambda>n. Inr (Some n)) else Inr None)"

definition contained_quota_type :: "'j json_ops \<Rightarrow> 'j \<Rightarrow> quota_type option throws" where
  "contained_quota_type J json =
     (if j_contains J json ''quota_type'' then
        bind_throws (j_at J json ''quota_type'') (\<lambda>q.
          Inr (if j_is_string J q ''NONE'' then Some qt_kNone
               else if j_is_string J q ''FIFO'' then Some qt_kFifo
               else if j_is_string J q ''HARD'' then Some qt_kHard
               else None))
      else Inr None)"

definition parse_bucket_settings :: "'j json_ops \<Rightarrow> 'j \<Rightarrow> settings result throws" where
  "parse_bucket_settings J json =
     try_result no_settings
       (bind_throws (contained_u64 J json ''max_block_size'') (\<lambda>max_block_size.
        bind_throws (contained_quota_type J json) (\<lambda>quota_type.
        bind_throws (contained_u64 J json ''quota_size'') (\<lambda>quota_size.
        bind_throws (contained_u64 J json ''max_block_records'') (\<lambda>max_block_records.
          Inr (ok_result \<lparr>se_max_block_size = max_block_size, se_quota_type = quota_type,
            se_quota_size = quota_size, se_max_block_records = max_block_records\<rparr>))))))"

section \<open>Replications\<close>

record replication_info =
  ri_name :: string
  ri_mode :: replication_mode
  ri_is_active :: bool
  ri_is_provisioned :: bool
  ri_pending_records :: u64

record replication_settings =
  rs_src_bucket :: string
  rs_dst_bucket :: string
  rs_dst_host :: string
  rs_dst_token :: "string option"
  rs_dst_prefix :: string
  rs_entries :: "string list"
  rs_when :: "string option"
  rs_mode :: replication_mode
  rs_compression :: replication_compression

record diagnostics_error =
  de_count :: u64
  de_last_message :: string

record diagnostics_item =
  di_ok :: u64
  di_errored :: u64
  di_errors :: "(int, diagnostics_error) omap"

record full_replication_info =
  fr_info :: replication_info
  fr_settings :: replication_settings
  fr_hourly :: diagnostics_item

definition no_replication_info :: full_replication_info where
  "no_replication_info =
     \<lparr>fr_info = \<lparr>ri_name = [], ri_mode = rm_kEnabled, ri_is_active = False, ri_is_provisioned = False,
        ri_pending_records = 0\<rparr>,
      fr_settings = \<lparr>rs_src_bucket = [], rs_dst_bucket = [], rs_dst_host = [], rs_dst_token = None,
        rs_dst_prefix = [], rs_entries = [], rs_when = None, rs_mode = rm_kEnabled, rs_compression = rc_kNone\<rparr>,
      fr_hourly = \<lparr>di_ok = 0, di_errored = 0, di_errors = []\<rparr>\<rparr>"

text \<open>\<^verbatim>\<open>j.contains("mode") ? ParseReplicationMode(j.at("mode")) : kEnabled\<close>.\<close>

definition mode_of :: "'j json_ops \<Rightarrow> 'j \<Rightarrow> replication_mode throws" where
  "mode_of J j =
     (if j_contains J j ''mode'' then bind_throws (j_at J j ''mode'') (parse_replication_mode J)
      else Inr rm_kEnabled)"

definition parse_replication_info :: "'j json_ops \<Rightarrow> 'j \<Rightarrow> replication_info throws" where
  "parse_replication_info J replication =
     bind_throws (at_string J replication ''name'') (\<lambda>name.
     bind_throws (mode_of J replication) (\<lambda>mode.
     bind_throws (at_bool J replication ''is_active'') (\<lambda>is_active.
     bind_throws (at_bool J replication ''is_provisioned'') (\<lambda>is_provisioned.
     bind_throws (at_u64 J replication ''pending_records'') (\<lambda>pending_records.
       Inr \<lparr>ri_name = name, ri_mode = mode, ri_is_active = is_active, ri_is_provisioned = is_provisioned,
         ri_pending_records = pending_records\<rparr>)))))"

definition parse_replication_list :: "'j json_ops \<Rightarrow> 'j \<Rightarrow> replication_info list result throws" where
  "parse_replication_list J data =
     try_result []
       (bind_throws (j_at J data ''replications'') (\<lambda>json_replications.
        bind_throws
          (fold_throws (\<lambda>replication acc.
             bind_throws (parse_replication_info J replication) (\<lambda>r. Inr (acc @ [r])))
             (j_elements J json_replications) [])
          (\<lambda>replication_list. Inr (ok_result replication_list))))"

definition replication_settings_to_json :: "'j json_ops \<Rightarrow> replication_settings \<Rightarrow> 'j result throws" where
  "replication_settings_to_json J s =
     (let j1 = j_set J ''dst_host'' (j_string J (rs_dst_host s))
                 (j_set J ''dst_bucket'' (j_string J (rs_dst_bucket s))
                    (j_set J ''src_bucket'' (j_string J (rs_src_bucket s)) (j_null J)));
          j2 = set_optional J ''dst_token'' (j_string J) (rs_dst_token s) j1;
          j3 = (if rs_dst_prefix s \<noteq> [] then j_set J ''dst_prefix'' (j_string J (rs_dst_prefix s)) j2 else j2);
          j4 = j_set J ''mode'' (j_string J (replication_mode_to_string (rs_mode s)))
                 (j_set J ''entries'' (j_strings J (rs_entries s)) j3);
          j5 = (if rs_compression s \<noteq> rc_kNone
                then j_set J ''compression'' (j_string J (replication_compression_to_string (rs_compression s))) j4
                else j4)
      in case rs_when s of
           None \<Rightarrow> Inr (ok_result j5)
         | Some w \<Rightarrow>
             try_result (j_null J) (bind_throws (j_parse J w) (\<lambda>v. Inr (ok_result (j_set J ''when'' v j5)))))"

definition parse_replication_settings :: "'j json_ops \<Rightarrow> 'j \<Rightarrow> replication_settings throws" where
  "parse_replication_settings J s =
     bind_throws (at_string J s ''src_bucket'') (\<lambda>src_bucket.
     bind_throws (at_string J s ''dst_bucket'') (\<lambda>dst_bucket.
     bind_throws (at_string J s ''dst_host'') (\<lambda>dst_host.
     bind_throws (at_strings J s ''entries'') (\<lambda>entries.
     bind_throws (mode_of J s) (\<lambda>mode.
     bind_throws
       (if j_contains J s ''compression''
        then bind_throws (j_at J s ''compression'') (parse_replication_compression J) else Inr rc_kNone)
       (\<lambda>compression.
     bind_throws (optional_at J s ''dst_token'' (j_get_string J)) (\<lambda>dst_token.
     bind_throws (optional_at J s ''dst_prefix'' (j_get_string J)) (\<lambda>dst_prefix.
     bind_throws (optional_at J s ''when'' (j_dump J)) (\<lambda>when.
       Inr \<lparr>rs_src_bucket = src_bucket, rs_dst_bucket = dst_bucket, rs_dst_host = dst_host,
         rs_dst_token = dst_token, rs_dst_prefix = (case dst_prefix of None \<Rightarrow> [] | Some p \<Rightarrow> p),
         rs_entries = entries, rs_when = when, rs_mode = mode, rs_compression = compression\<rparr>)))))))))"

text \<open>The key of an error count is an \<^verbatim>\<open>int\<close> that is kept as \<^verbatim>\<open>int16_t\<close>.\<close>

definition diagnostics_step ::
  "'j json_ops \<Rightarrow> string \<times> 'j \<Rightarrow> (int, diagnostics_error) omap \<Rightarrow> (int, diagnostics_error) omap throws" where
  "diagnostics_step J kv errors =
     (case kv of (key, v) \<Rightarrow>
        bind_throws (at_u64 J v ''count'') (\<lambda>count.
        bind_throws (at_string J v ''last_message'') (\<lambda>last_message.
        bind_throws (stoi 10 key) (\<lambda>code.
          Inr (omap_assign (signed_take_bit 15 code)
            \<lparr>de_count = count, de_last_message = last_message\<rparr> errors)))))"

definition parse_full_replication_info :: "'j json_ops \<Rightarrow> 'j \<Rightarrow> full_replication_info result throws" where
  "parse_full_replication_info J data =
     try_result no_replication_info
       (bind_throws (bind_throws (j_at J data ''info'') (parse_replication_info J)) (\<lambda>info.
        bind_throws (bind_throws (j_at J data ''settings'') (parse_replication_settings J)) (\<lambda>settings.
        bind_throws (j_at J data ''diagnostics'') (\<lambda>diagnostics.
        bind_throws (j_at J diagnostics ''hourly'') (\<lambda>hourly.
        bind_throws (at_u64 J hourly ''ok'') (\<lambda>ok.
        bind_throws (at_u64 J hourly ''errored'') (\<lambda>errored.
        bind_throws (j_at J hourly ''errors'') (\<lambda>errors_json.
        bind_throws (fold_throws (diagnostics_step J) (j_items J errors_json) []) (\<lambda>errors.
          Inr (ok_result \<lparr>fr_info = info, fr_settings = settings,
            fr_hourly = \<lparr>di_ok = ok, di_errored = errored, di_errors = errors\<rparr>\<rparr>))))))))))"

section \<open>Query options\<close>

text \<open>Durations are in milliseconds, as \<^verbatim>\<open>std::chrono::milliseconds\<close> keeps them.\<close>

record query_options =
  qo_when :: "string option"
  qo_strict :: "bool option"
  qo_ext :: "string option"
  qo_ttl :: "int option"
  qo_continuous :: bool
  qo_poll_interval :: int
  qo_head_only :: bool

definition default_query_options :: query_options where
  "default_query_options = \<lparr>qo_when = None, qo_strict = None, qo_ext = None, qo_ttl = None,
     qo_continuous = False, qo_poll_interval = 1000, qo_head_only = False\<rparr>"

text \<open>\<^verbatim>\<open>if (text) try { j[k] = parse(*text) } catch ...\<close>; the error ends the function.\<close>

definition set_parsed :: "'j json_ops \<Rightarrow> string \<Rightarrow> string option \<Rightarrow> 'j \<Rightarrow> 'j throws" where
  "set_parsed J k txt j =
     (case txt of
        None \<Rightarrow> Inr j
      | Some t \<Rightarrow> bind_throws (j_parse J t) (\<lambda>v. Inr (j_set J k v j)))"

definition query_options_to_json ::
  "'j json_ops \<Rightarrow> string \<Rightarrow> string list \<Rightarrow> time option \<Rightarrow> time option \<Rightarrow> query_options \<Rightarrow> 'j result throws" where
  "query_options_to_json J type entries start stop options =
     (let j1 = j_set J ''entries'' (j_strings J entries) (j_set J ''query_type'' (j_string J type) (j_null J));
          j2 = set_optional J ''start'' (\<lambda>t. j_int J (to_microseconds t)) start j1;
          j3 = set_optional J ''stop'' (\<lambda>t. j_int J (to_microseconds t)) stop j2;
          j4 = set_optional J ''ttl'' (\<lambda>ms. j_int J (trunc_div ms 1000)) (qo_ttl options) j3;
          j5 = (if qo_continuous options then j_set J ''continuous'' (j_bool J True) j4 else j4)
      in try_result (j_null J)
           (bind_throws (set_parsed J ''when'' (qo_when options) j5) (\<lambda>j6.
              let j7 = set_optional J ''strict'' (j_bool J) (qo_strict options) j6
              in bind_throws (set_parsed J ''ext'' (qo_ext options) j7) (\<lambda>j8. Inr (ok_result j8)))))"

record query_link_options =
  ql_start :: "time option"
  ql_stop :: "time option"
  ql_query_options :: query_options
  ql_record_index :: u64
  ql_record_entry :: "string option"
  ql_record_timestamp :: "time option"
  ql_expire_at :: "time option"
  ql_file_name :: "string option"
  ql_base_url :: "string option"

text \<open>
  \<open>now\<close> is what the clock says. \<^verbatim>\<open>entries.at(0)\<close> throws on an empty list; a day is added to the
  time without a link's own end.
\<close>

definition to_seconds :: "time \<Rightarrow> int" where
  "to_seconds t = trunc_div t (10 ^ 9)"

definition query_link_options_to_json ::
  "'j json_ops \<Rightarrow> time \<Rightarrow> string \<Rightarrow> string list \<Rightarrow> query_link_options \<Rightarrow> 'j result throws" where
  "query_link_options_to_json J now bucket entries options =
     (let j1 = j_set J ''bucket'' (j_string J bucket) (j_null J);
          j2 = (if ql_record_entry options = None \<and> ql_record_timestamp options = None
                then j_set J ''index'' (j_u64 J (ql_record_index options)) j1 else j1);
          j3 = set_optional J ''record_entry'' (j_string J) (ql_record_entry options) j2;
          j4 = set_optional J ''record_timestamp'' (\<lambda>t. j_int J (to_microseconds t))
                 (ql_record_timestamp options) j3
      in bind_throws (vec_at entries 0) (\<lambda>entry.
           let j5 = j_set J ''entry'' (j_string J entry) j4
           in bind_throws
                (query_options_to_json J ''QUERY'' entries (ql_start options) (ql_stop options)
                   (ql_query_options options))
                (\<lambda>query.
                  if is_error (res_error query) then Inr (err_result (j_null J) (res_error query))
                  else
                    let j6 = j_set J ''query'' (res_value query) j5;
                        j7 = j_set J ''expire_at''
                          (j_int J (to_seconds (case ql_expire_at options of
                             Some t \<Rightarrow> t | None \<Rightarrow> now + 24 * 3600 * 10 ^ 9))) j6;
                        j8 = set_optional J ''file_name'' (j_string J) (ql_file_name options) j7;
                        j9 = set_optional J ''base_url'' (j_string J) (ql_base_url options) j8
                    in Inr (ok_result j9))))"

section \<open>Round trips\<close>

lemma enum_texts:
  assumes "json_laws J obj"
  shows "parse_replication_mode J (j_string J (replication_mode_to_string m)) = Inr m"
    and "parse_replication_compression J (j_string J (replication_compression_to_string c)) = Inr c"
    and "parse_lifecycle_mode J (j_string J (lifecycle_mode_to_string lm)) = Inr lm"
    and "parse_lifecycle_type J (j_string J (lifecycle_type_to_string lt)) = Inr lt"
  using json_laws.get_string [OF assms] json_laws.null_iff(3) [OF assms]
  by (cases m; cases c; cases lm; cases lt;
      simp add: parse_replication_mode_def parse_replication_compression_def parse_lifecycle_mode_def
        parse_lifecycle_type_def)+

text \<open>
  The enumerations and their texts: each parser reads what the printer writes, and a text
  that no printer writes is an \<^verbatim>\<open>invalid_argument\<close> with the text in its message.
\<close>

theorem enums_roundtrip:
  assumes "json_laws J obj"
  shows "parse_replication_mode J (j_string J (replication_mode_to_string m)) = Inr m \<and>
    parse_replication_compression J (j_string J (replication_compression_to_string c)) = Inr c \<and>
    parse_lifecycle_mode J (j_string J (lifecycle_mode_to_string lm)) = Inr lm \<and>
    parse_lifecycle_type J (j_string J (lifecycle_type_to_string lt)) = Inr lt \<and>
    (s \<notin> range replication_mode_to_string \<longrightarrow>
       parse_replication_mode J (j_string J s) = Inl (Invalid_argument (''Invalid replication mode: '' @ s))) \<and>
    (s \<notin> range lifecycle_type_to_string \<longrightarrow>
       parse_lifecycle_type J (j_string J s) = Inl (Invalid_argument (''Invalid lifecycle type: '' @ s)))"
proof -
  have rm: "{''enabled'', ''paused'', ''disabled''} \<subseteq> range replication_mode_to_string"
    by (metis (full_types) insert_subset empty_subsetI rangeI replication_mode_to_string.simps)
  have lt: "{''delete'', ''compress''} \<subseteq> range lifecycle_type_to_string"
    by (metis (full_types) insert_subset empty_subsetI rangeI lifecycle_type_to_string.simps)
  show ?thesis
    using enum_texts [OF assms] json_laws.get_string [OF assms] json_laws.null_iff(3) [OF assms] rm lt
    by (auto simp: parse_replication_mode_def parse_lifecycle_type_def)
qed

theorem enums_roundtrip_witness:
  "parse_replication_mode (value_json (\<lambda>s. Inr JNull) (\<lambda>j. Inr [])) (JString ''paused'') = Inr rm_kPaused \<and>
   parse_lifecycle_type (value_json (\<lambda>s. Inr JNull) (\<lambda>j. Inr [])) (JString ''compress'') = Inr lt_kCompress"
  using enums_roundtrip [OF value_json.json_laws_axioms [of "\<lambda>s. Inr JNull" "\<lambda>j. Inr []"],
      of rm_kPaused _ _ lt_kCompress]
  by (simp add: value_json_def)

context json_laws begin

lemma contained_u64_set [simp]:
  "is_obj j \<Longrightarrow> contained_u64 J (set_optional J k (j_u64 J) x j) k =
     (case x of Some n \<Rightarrow> Inr (Some n) | None \<Rightarrow> contained_u64 J j k)"
  by (simp add: contained_u64_def at_u64_def built split: option.split)

lemma contained_u64_other [simp]:
  "is_obj j \<Longrightarrow> k \<noteq> k' \<Longrightarrow> contained_u64 J (set_optional J k' f x j) k = contained_u64 J j k"
  by (simp add: contained_u64_def at_u64_def built split: option.split)

lemma contained_quota_other [simp]:
  "is_obj j \<Longrightarrow> k \<noteq> ''quota_type'' \<Longrightarrow>
     contained_quota_type J (set_optional J k f x j) = contained_quota_type J j"
  by (simp add: contained_quota_type_def built split: option.split)

lemma contained_quota_set [simp]:
  "is_obj j \<Longrightarrow>
     contained_quota_type J (set_optional J ''quota_type'' (\<lambda>q. j_string J (quota_type_text q)) x j) =
       (case x of Some q \<Rightarrow> Inr (Some q) | None \<Rightarrow> contained_quota_type J j)"
proof (cases x)
  case (Some q)
  assume "is_obj j"
  with Some show ?thesis by (cases q) (simp_all add: contained_quota_type_def built)
qed (simp add: contained_quota_type_def built)

lemma settings_back: "parse_bucket_settings J (bucket_setting_to_json J s) = Inr (ok_result s)"
proof -
  have none: "contained_u64 J (j_null J) k = Inr None" "contained_quota_type J (j_null J) = Inr None" for k
    by (simp_all add: contained_u64_def contained_quota_type_def built)
  show ?thesis
    by (cases "se_max_block_size s"; cases "se_quota_type s"; cases "se_quota_size s";
        cases "se_max_block_records s";
        simp add: parse_bucket_settings_def bucket_setting_to_json_def built none)
qed

lemma replication_settings_back:
  assumes "\<And>w. rs_when s = Some w \<Longrightarrow> \<exists>v. j_parse J w = Inr v \<and> \<not> j_is_null J v \<and> j_dump J v = Inr w"
  shows "\<exists>j. replication_settings_to_json J s = Inr (ok_result j) \<and> parse_replication_settings J j = Inr s"
proof -
  define j where "j = (let
      j1 = j_set J ''dst_host'' (j_string J (rs_dst_host s))
             (j_set J ''dst_bucket'' (j_string J (rs_dst_bucket s))
                (j_set J ''src_bucket'' (j_string J (rs_src_bucket s)) (j_null J)));
      j2 = set_optional J ''dst_token'' (j_string J) (rs_dst_token s) j1;
      j3 = (if rs_dst_prefix s \<noteq> [] then j_set J ''dst_prefix'' (j_string J (rs_dst_prefix s)) j2 else j2);
      j4 = j_set J ''mode'' (j_string J (replication_mode_to_string (rs_mode s)))
             (j_set J ''entries'' (j_strings J (rs_entries s)) j3)
    in (if rs_compression s \<noteq> rc_kNone
        then j_set J ''compression'' (j_string J (replication_compression_to_string (rs_compression s))) j4
        else j4))"
  note texts = enum_texts [OF json_laws_axioms]
  note at_defs = at_string_def at_strings_def mode_of_def optional_at_def j_strings_def
  have obj: "is_obj j" by (simp add: j_def Let_def built)
  have fields: "at_string J j ''src_bucket'' = Inr (rs_src_bucket s)"
    "at_string J j ''dst_bucket'' = Inr (rs_dst_bucket s)" "at_string J j ''dst_host'' = Inr (rs_dst_host s)"
    "at_strings J j ''entries'' = Inr (rs_entries s)" "mode_of J j = Inr (rs_mode s)"
    "(if j_contains J j ''compression'' then bind_throws (j_at J j ''compression'') (parse_replication_compression J)
      else Inr rc_kNone) = Inr (rs_compression s)"
    "optional_at J j ''dst_token'' (j_get_string J) = Inr (rs_dst_token s)"
    "\<exists>p. optional_at J j ''dst_prefix'' (j_get_string J) = Inr p \<and> (case p of None \<Rightarrow> [] | Some p \<Rightarrow> p) = rs_dst_prefix s"
    "\<not> j_contains J j ''when''"
    by (simp_all add: j_def Let_def built at_defs texts split: option.split)
  show ?thesis
  proof (cases "rs_when s")
    case None
    have "parse_replication_settings J j = Inr s"
      using fields None by (auto simp: parse_replication_settings_def optional_at_def [of J j "''when''"])
    with None show ?thesis by (auto simp: replication_settings_to_json_def j_def Let_def)
  next
    case (Some w)
    then obtain v where v: "j_parse J w = Inr v" "\<not> j_is_null J v" "j_dump J v = Inr w"
      using assms by blast
    let ?j = "j_set J ''when'' v j"
    have "parse_replication_settings J ?j = Inr s"
      using fields Some v obj
      by (auto simp: parse_replication_settings_def at_defs built split: if_splits)
    with Some v show ?thesis by (auto simp: replication_settings_to_json_def j_def Let_def)
  qed
qed

end

text \<open>Bucket settings survive the way to JSON and back, whichever of them are set.\<close>

theorem bucket_settings_roundtrip:
  assumes "json_laws J obj"
  shows "parse_bucket_settings J (bucket_setting_to_json J s) = Inr (ok_result s)"
  by (rule json_laws.settings_back [OF assms])

theorem bucket_settings_roundtrip_witness:
  "parse_bucket_settings (value_json (\<lambda>s. Inr JNull) (\<lambda>j. Inr []))
     (bucket_setting_to_json (value_json (\<lambda>s. Inr JNull) (\<lambda>j. Inr [])) (no_settings\<lparr>se_quota_size := Some 7\<rparr>)) =
   Inr (ok_result (no_settings\<lparr>se_quota_size := Some 7\<rparr>))"
  by (rule bucket_settings_roundtrip [OF value_json.json_laws_axioms])

text \<open>
  Replication settings survive the way to JSON and back, with the token, the prefix, the mode,
  the compression and a condition whose text is the one JSON prints.
\<close>

theorem replication_settings_roundtrip:
  assumes "json_laws J obj"
    and "\<And>w. rs_when s = Some w \<Longrightarrow> \<exists>v. j_parse J w = Inr v \<and> \<not> j_is_null J v \<and> j_dump J v = Inr w"
  shows "\<exists>j. replication_settings_to_json J s = Inr (ok_result j) \<and> parse_replication_settings J j = Inr s"
  by (rule json_laws.replication_settings_back [OF assms])

definition sample_replication :: replication_settings where
  "sample_replication = \<lparr>rs_src_bucket = ''a'', rs_dst_bucket = ''b'', rs_dst_host = ''h'', rs_dst_token = Some ''t'',
     rs_dst_prefix = [], rs_entries = [''e''], rs_when = Some ''1'', rs_mode = rm_kPaused, rs_compression = rc_kZstd\<rparr>"

theorem replication_settings_roundtrip_witness:
  "\<exists>j. replication_settings_to_json (value_json (\<lambda>s. Inr (JInt 1)) (\<lambda>j. Inr ''1'')) sample_replication =
     Inr (ok_result j) \<and>
   parse_replication_settings (value_json (\<lambda>s. Inr (JInt 1)) (\<lambda>j. Inr ''1'')) j = Inr sample_replication"
  by (rule replication_settings_roundtrip [OF value_json.json_laws_axioms])
    (simp add: sample_replication_def value_json_def)

end
