(* ===== verification/Bucket_Base.thy ===== *)
theory Bucket_Base
  imports Serialisation Upload
begin

text \<open>
  \<^verbatim>\<open>class Bucket\<close> (bucket.cc): its state, the requests about the bucket and its entries, the
  writing of one record, and the helpers that decide which batch protocol is used. \<open>lib\<close> is
  the HTTP library, \<open>J\<close> the JSON library, \<open>now\<close> what the clock says. The worker thread and its
  task queue are in the theories Reader and Bucket_Read.
\<close>

section \<open>State\<close>

record 'n bucket =
  bk_client :: "'n http_client"
  bk_name :: string
  bk_path :: string
  bk_io_path :: string

definition build_bucket :: "string \<Rightarrow> string \<Rightarrow> http_options \<Rightarrow> string option \<Rightarrow> 'n \<Rightarrow> 'n bucket" where
  "build_bucket url name options api_version net =
     (let c = build_http_client url options net
      in \<lparr>bk_client = (case api_version of None \<Rightarrow> c | Some v \<Rightarrow> c\<lparr>cl_api_version := Some v\<rparr>),
          bk_name = name, bk_path = ''/b/'' @ name, bk_io_path = ''/io/'' @ name\<rparr>)"

definition on_client :: "('n http_client, 'a) io \<Rightarrow> ('n bucket, 'a) io" where
  "on_client m b = bind_throws (m (bk_client b)) (\<lambda>(x, c). Inr (x, b\<lparr>bk_client := c\<rparr>))"

lemma on_client_keeps:
  "on_client m b = Inr (x, b') \<Longrightarrow> bk_name b' = bk_name b \<and> bk_path b' = bk_path b \<and> bk_io_path b' = bk_io_path b"
  by (auto simp: on_client_def bind_throws_Inr_iff)

text \<open>The error side of a result, and a result whose body is read as JSON.\<close>

definition error_of :: "('s, 'a result) io \<Rightarrow> ('s, error) io" where
  "error_of m = bind_io m (\<lambda>r. ret_io (res_error r))"

definition json_result ::
  "'j json_ops \<Rightarrow> 'a \<Rightarrow> ('j \<Rightarrow> 'a result throws) \<Rightarrow> string result \<Rightarrow> 'a result throws" where
  "json_result J dflt f r =
     (if is_error (res_error r) then Inr (err_result dflt (res_error r))
      else try_result dflt (bind_throws (j_parse J (res_value r)) f))"

section \<open>The bucket and its entries\<close>

record bucket_info =
  bi_name :: string
  bi_entry_count :: u64
  bi_size :: u64
  bi_oldest_record :: time
  bi_latest_record :: time
  bi_is_provisioned :: bool
  bi_status :: status

record entry_info =
  ei_name :: string
  ei_record_count :: u64
  ei_block_count :: u64
  ei_size :: u64
  ei_oldest_record :: time
  ei_latest_record :: time
  ei_status :: status

text \<open>The stream operators.\<close>

definition settings_text :: "'j json_ops \<Rightarrow> settings \<Rightarrow> string throws" where
  "settings_text J settings = j_dump J (bucket_setting_to_json J settings)"

definition status_text :: "status \<Rightarrow> string" where
  "status_text s = (if s = st_kReady then ''READY'' else ''DELETING'')"

definition bucket_info_text :: "bucket_info \<Rightarrow> string" where
  "bucket_info_text info =
     ''<BucketInfo name='' @ bi_name info @ '', entry_count='' @ show_nat (unat (bi_entry_count info)) @
     '', size='' @ show_nat (unat (bi_size info)) @
     '', oldest_record='' @ show_int (trunc_div (bi_oldest_record info) 1000) @
     '', latest_record='' @ show_int (trunc_div (bi_latest_record info) 1000) @
     '', is_provisioned='' @ (if bi_is_provisioned info then ''true'' else ''false'') @
     '', status='' @ status_text (bi_status info) @ ''>''"

definition entry_info_text :: "entry_info \<Rightarrow> string" where
  "entry_info_text info =
     ''<EntryInfo name='' @ ei_name info @ '', record_count='' @ show_nat (unat (ei_record_count info)) @
     '', block_count='' @ show_nat (unat (ei_block_count info)) @ '', size='' @ show_nat (unat (ei_size info)) @
     '', oldest_record='' @ show_int (trunc_div (ei_oldest_record info) 1000) @
     '', latest_record='' @ show_int (trunc_div (ei_latest_record info) 1000) @
     '', status='' @ status_text (ei_status info) @ ''>''"

definition no_bucket_info :: bucket_info where
  "no_bucket_info = \<lparr>bi_name = [], bi_entry_count = 0, bi_size = 0, bi_oldest_record = 0,
     bi_latest_record = 0, bi_is_provisioned = False, bi_status = st_kReady\<rparr>"

definition at_time :: "'j json_ops \<Rightarrow> 'j \<Rightarrow> string \<Rightarrow> time throws" where
  "at_time J j k = bind_throws (at_int J j k) (\<lambda>us. Inr (time_of_us us))"

definition parse_bucket_info :: "'j json_ops \<Rightarrow> 'j \<Rightarrow> bucket_info throws" where
  "parse_bucket_info J info =
     bind_throws (at_string J info ''name'') (\<lambda>name.
     bind_throws (at_u64 J info ''entry_count'') (\<lambda>entry_count.
     bind_throws (at_u64 J info ''size'') (\<lambda>sz.
     bind_throws (at_time J info ''oldest_record'') (\<lambda>oldest.
     bind_throws (at_time J info ''latest_record'') (\<lambda>latest.
     bind_throws (j_value_bool J info ''is_provisioned'' False) (\<lambda>is_provisioned.
     bind_throws (parse_status J info) (\<lambda>status.
       Inr \<lparr>bi_name = name, bi_entry_count = entry_count, bi_size = sz, bi_oldest_record = oldest,
         bi_latest_record = latest, bi_is_provisioned = is_provisioned, bi_status = status\<rparr>)))))))"

definition parse_entry_info :: "'j json_ops \<Rightarrow> 'j \<Rightarrow> entry_info throws" where
  "parse_entry_info J entry =
     bind_throws (at_string J entry ''name'') (\<lambda>name.
     bind_throws (at_u64 J entry ''record_count'') (\<lambda>record_count.
     bind_throws (at_u64 J entry ''block_count'') (\<lambda>block_count.
     bind_throws (at_u64 J entry ''size'') (\<lambda>sz.
     bind_throws (at_time J entry ''oldest_record'') (\<lambda>oldest.
     bind_throws (at_time J entry ''latest_record'') (\<lambda>latest.
     bind_throws (parse_status J entry) (\<lambda>status.
       Inr \<lparr>ei_name = name, ei_record_count = record_count, ei_block_count = block_count, ei_size = sz,
         ei_oldest_record = oldest, ei_latest_record = latest, ei_status = status\<rparr>)))))))"

definition get_settings :: "'n httplib \<Rightarrow> 'j json_ops \<Rightarrow> ('n bucket, settings result) io" where
  "get_settings lib J =
     bind_io (get_io bk_path) (\<lambda>path.
     bind_io (on_client (http_get lib path)) (\<lambda>r. throws_io (json_result J no_settings
       (\<lambda>data. bind_throws (j_at J data ''settings'') (parse_bucket_settings J)) r)))"

text \<open>\<^verbatim>\<open>dump()\<close> is called outside of a \<^verbatim>\<open>try\<close> block.\<close>

definition update_settings :: "'n httplib \<Rightarrow> 'j json_ops \<Rightarrow> settings \<Rightarrow> ('n bucket, error) io" where
  "update_settings lib J settings =
     bind_io (get_io bk_path) (\<lambda>path.
     bind_io (throws_io (j_dump J (bucket_setting_to_json J settings))) (\<lambda>body.
       on_client (http_put lib path body ''application/json'')))"

definition get_bucket_info :: "'n httplib \<Rightarrow> 'j json_ops \<Rightarrow> ('n bucket, bucket_info result) io" where
  "get_bucket_info lib J =
     bind_io (get_io bk_path) (\<lambda>path.
     bind_io (on_client (http_get lib path)) (\<lambda>r. throws_io (json_result J no_bucket_info
       (\<lambda>data. bind_throws (j_at J data ''info'') (\<lambda>info.
          bind_throws (parse_bucket_info J info) (\<lambda>i. Inr (ok_result i)))) r)))"

definition get_entry_list :: "'n httplib \<Rightarrow> 'j json_ops \<Rightarrow> ('n bucket, entry_info list result) io" where
  "get_entry_list lib J =
     bind_io (get_io bk_path) (\<lambda>path.
     bind_io (on_client (http_get lib path)) (\<lambda>r. throws_io (json_result J []
       (\<lambda>data. bind_throws (j_at J data ''entries'') (\<lambda>json_entries.
          bind_throws (j_indexed J json_entries) (\<lambda>items.
          bind_throws (fold_throws (\<lambda>entry acc.
              bind_throws (parse_entry_info J entry) (\<lambda>e. Inr (acc @ [e]))) items [])
            (\<lambda>entries. Inr (ok_result entries))))) r)))"

definition remove_bucket :: "'n httplib \<Rightarrow> ('n bucket, error) io" where
  "remove_bucket lib = bind_io (get_io bk_path) (\<lambda>path. error_of (on_client (http_delete lib path [])))"

definition remove_entry :: "'n httplib \<Rightarrow> string \<Rightarrow> ('n bucket, error) io" where
  "remove_entry lib entry_name =
     bind_io (get_io bk_path) (\<lambda>path. error_of (on_client (http_delete lib (path @ ''/'' @ entry_name) [])))"

definition record_path :: "string \<Rightarrow> string \<Rightarrow> time \<Rightarrow> string" where
  "record_path path entry_name ts = path @ ''/'' @ entry_name @ ''?ts='' @ show_int (to_microseconds ts)"

definition remove_record :: "'n httplib \<Rightarrow> string \<Rightarrow> time \<Rightarrow> ('n bucket, error) io" where
  "remove_record lib entry_name timestamp =
     bind_io (get_io bk_path) (\<lambda>path.
       error_of (on_client (http_delete lib (record_path path entry_name timestamp) [])))"

definition rename_entry :: "'n httplib \<Rightarrow> 'j json_ops \<Rightarrow> string \<Rightarrow> string \<Rightarrow> ('n bucket, error) io" where
  "rename_entry lib J old_name new_name =
     bind_io (get_io bk_path) (\<lambda>path.
     bind_io (throws_io (j_dump J (j_set J ''new_name'' (j_string J new_name) (j_null J)))) (\<lambda>body.
       on_client (http_put lib (path @ ''/'' @ old_name @ ''/rename'') body ''application/json'')))"

text \<open>The member \<^verbatim>\<open>name_\<close> keeps the old name.\<close>

definition rename_bucket :: "'n httplib \<Rightarrow> 'j json_ops \<Rightarrow> string \<Rightarrow> ('n bucket, error) io" where
  "rename_bucket lib J new_name =
     bind_io (get_io bk_path) (\<lambda>path.
     bind_io (throws_io (j_dump J (j_set J ''new_name'' (j_string J new_name) (j_null J)))) (\<lambda>body.
     bind_io (on_client (http_put lib (path @ ''/rename'') body ''application/json'')) (\<lambda>err.
       if is_error err then ret_io err
       else (\<lambda>b. Inr (kOk, b\<lparr>bk_path := ''/b/'' @ new_name, bk_io_path := ''/io/'' @ new_name\<rparr>)))))"

section \<open>One record\<close>

record write_options =
  wo_timestamp :: "time option"
  wo_labels :: label_map
  wo_content_type :: string

definition make_headers_from_labels :: "write_options \<Rightarrow> headers" where
  "make_headers_from_labels options =
     fold (\<lambda>(key, v). umap_emplace (kHeaderLabelPrefix @ key) v) (wo_labels options) []"

text \<open>The user's callback fills the record; a content length that it leaves unset is read anyway.\<close>

definition write_record ::
  "'n httplib \<Rightarrow> time \<Rightarrow> string \<Rightarrow> write_options \<Rightarrow> (writable_record \<Rightarrow> writable_record) \<Rightarrow> ('n bucket, error) io" where
  "write_record lib now entry_name options callback =
     (let record = callback new_writable_record;
          ts = (case wo_timestamp options of Some t \<Rightarrow> t | None \<Rightarrow> now);
          content_type = (if wo_content_type options = [] then ''application/octet-stream''
                          else wo_content_type options);
          hs = make_headers_from_labels options
      in bind_io (get_io bk_path) (\<lambda>path.
           case wr_content_length record of
             None \<Rightarrow> throws_io (Inl (Undefined_behaviour ''content_length_ is not set''))
           | Some content_length \<Rightarrow>
               error_of (on_client (post_chunked lib (record_path path entry_name ts) content_type
                 content_length hs (wr_callback record)))))"

definition write_record_at ::
  "'n httplib \<Rightarrow> time \<Rightarrow> string \<Rightarrow> time option \<Rightarrow> (writable_record \<Rightarrow> writable_record) \<Rightarrow> ('n bucket, error) io" where
  "write_record_at lib now entry_name ts callback =
     write_record lib now entry_name \<lparr>wo_timestamp = ts, wo_labels = [], wo_content_type = []\<rparr> callback"

definition update_record :: "'n httplib \<Rightarrow> string \<Rightarrow> write_options \<Rightarrow> ('n bucket, error) io" where
  "update_record lib entry_name options =
     (case wo_timestamp options of
        None \<Rightarrow> ret_io (mk_error 400 ''Timestamp is required'')
      | Some ts \<Rightarrow>
          bind_io (get_io bk_path) (\<lambda>path.
            error_of (on_client (http_patch lib (record_path path entry_name ts) []
              (make_headers_from_labels options)))))"

section \<open>Which protocol\<close>

definition supports_batch_protocol_v2 :: "('n bucket, bool) io" where
  "supports_batch_protocol_v2 =
     bind_io (on_client get_api_version) (\<lambda>v.
       case v of None \<Rightarrow> ret_io False | Some version \<Rightarrow> throws_io (is_compatible ''1.18'' version))"

definition ensure_api_version :: "'n httplib \<Rightarrow> ('n bucket, string result) io" where
  "ensure_api_version lib =
     bind_io (on_client get_api_version) (\<lambda>v.
       case v of
         Some version \<Rightarrow> ret_io (ok_result version)
       | None \<Rightarrow>
           bind_io (on_client (http_get lib ''/info'')) (\<lambda>r.
             if is_error (res_error r) then ret_io (err_result [] (res_error r))
             else bind_io (on_client get_api_version) (\<lambda>v'.
               ret_io (case v' of
                 Some version \<Rightarrow> ok_result version
               | None \<Rightarrow> err_result [] (mk_error (- 1) ''Failed to determine ReductStore API version'')))))"

text \<open>A bucket for the examples.\<close>

definition sample_bucket :: "string option \<Rightarrow> unit bucket" where
  "sample_bucket version = build_bucket ''http://localhost:8383'' ''x''
     \<lparr>ho_api_token = [], ho_ssl_verification = True, ho_connection_timeout = None, ho_request_timeout = None\<rparr> version ()"

end
