(* ===== verification/Bucket_Batch.thy ===== *)
theory Bucket_Batch
  imports Bucket_Base Batch_V1 Batch_V2_Process
begin

text \<open>
  The batch requests of a bucket (bucket.cc): the callback fills a batch, the version of the
  server decides the protocol. With it, the writing of attachments and the first error of a
  map of errors.
\<close>

type_synonym fill_batch = "batch \<Rightarrow> batch"
type_synonym sort_fn = "(nat \<Rightarrow> nat \<Rightarrow> bool) \<Rightarrow> nat list \<Rightarrow> nat list"

section \<open>Dispatch\<close>

definition process_entry_batch ::
  "sort_fn \<Rightarrow> 'n httplib \<Rightarrow> string \<Rightarrow> fill_batch \<Rightarrow> batch_type \<Rightarrow> ('n bucket, batch_errors result) io" where
  "process_entry_batch srt lib entry_name callback type =
     (let b = callback empty_batch
      in bind_io supports_batch_protocol_v2 (\<lambda>v2.
         bind_io (get_io bk_io_path) (\<lambda>io_path.
         bind_io (get_io bk_path) (\<lambda>path.
           if v2 then on_client (process_batch_v2 srt lib io_path entry_name b type)
           else on_client (process_batch_v1 srt lib path entry_name b type)))))"

text \<open>The entry of the first record that names one.\<close>

definition first_named_entry :: "batch_record list \<Rightarrow> string" where
  "first_named_entry rs = (case filter (\<lambda>r. br_entry r \<noteq> []) rs of [] \<Rightarrow> [] | r # _ \<Rightarrow> br_entry r)"

definition process_records_batch ::
  "sort_fn \<Rightarrow> 'n httplib \<Rightarrow> fill_batch \<Rightarrow> batch_type \<Rightarrow> ('n bucket, batch_record_errors result) io" where
  "process_records_batch srt lib callback type =
     (let b = callback empty_batch
      in if batch_records b = [] then ret_io (ok_result [])
         else bind_io supports_batch_protocol_v2 (\<lambda>v2.
              bind_io (get_io bk_io_path) (\<lambda>io_path.
              bind_io (get_io bk_path) (\<lambda>path.
                if v2 then on_client (process_batch_v2_records srt lib io_path b type)
                else
                  let entry_name = first_named_entry (batch_records b)
                  in if entry_name = [] then ret_io (err_result [] (mk_error 400 ''Entry name is required''))
                     else bind_io (on_client (process_batch_v1 srt lib path entry_name b type)) (\<lambda>r.
                       ret_io (if is_error (res_error r) then err_result [] (res_error r)
                               else ok_result (omap_emplace entry_name (res_value r) [])))))))"

definition write_entry_batch ::
  "sort_fn \<Rightarrow> 'n httplib \<Rightarrow> string \<Rightarrow> fill_batch \<Rightarrow> ('n bucket, batch_errors result) io" where
  "write_entry_batch srt lib entry_name callback = process_entry_batch srt lib entry_name callback kWrite"

definition update_entry_batch ::
  "sort_fn \<Rightarrow> 'n httplib \<Rightarrow> string \<Rightarrow> fill_batch \<Rightarrow> ('n bucket, batch_errors result) io" where
  "update_entry_batch srt lib entry_name callback = process_entry_batch srt lib entry_name callback kUpdate"

definition remove_entry_batch ::
  "sort_fn \<Rightarrow> 'n httplib \<Rightarrow> string \<Rightarrow> fill_batch \<Rightarrow> ('n bucket, batch_errors result) io" where
  "remove_entry_batch srt lib entry_name callback = process_entry_batch srt lib entry_name callback kRemove"

definition write_batch ::
  "sort_fn \<Rightarrow> 'n httplib \<Rightarrow> fill_batch \<Rightarrow> ('n bucket, batch_record_errors result) io" where
  "write_batch srt lib callback = process_records_batch srt lib callback kWrite"

definition update_batch ::
  "sort_fn \<Rightarrow> 'n httplib \<Rightarrow> fill_batch \<Rightarrow> ('n bucket, batch_record_errors result) io" where
  "update_batch srt lib callback = process_records_batch srt lib callback kUpdate"

definition remove_batch ::
  "sort_fn \<Rightarrow> 'n httplib \<Rightarrow> fill_batch \<Rightarrow> ('n bucket, batch_record_errors result) io" where
  "remove_batch srt lib callback = process_records_batch srt lib callback kRemove"

section \<open>Attachments\<close>

definition first_batch_record_error :: "batch_record_errors \<Rightarrow> error" where
  "first_batch_record_error errors =
     (case filter (\<lambda>m. m \<noteq> []) (map snd errors) of
        (te # _) # _ \<Rightarrow> snd te
      | _ \<Rightarrow> kOk)"

definition meta_entry_of :: "string \<Rightarrow> string" where
  "meta_entry_of entry_name = entry_name @ ''/$meta''"

text \<open>One attachment; the state is the batch and the next timestamp.\<close>

definition attachment_step ::
  "'j json_ops \<Rightarrow> string \<Rightarrow> string \<times> string \<Rightarrow> batch \<times> time \<Rightarrow> (batch \<times> time) throws" where
  "attachment_step J meta_entry kv st =
     (case kv of (key, payload) \<Rightarrow> case st of (b, ts) \<Rightarrow>
        bind_throws (j_parse J payload) (\<lambda>parsed.
          Inr (add_record meta_entry ts payload ''application/json'' [(''key'', key)] b, ts + 1000)))"

definition write_attachments ::
  "sort_fn \<Rightarrow> 'n httplib \<Rightarrow> 'j json_ops \<Rightarrow> time \<Rightarrow> string \<Rightarrow> (string, string) omap \<Rightarrow> ('n bucket, error) io" where
  "write_attachments srt lib J now entry_name attachments =
     (if attachments = [] then ret_io kOk
      else
        let start = trunc_div now 1000 * 1000
        in case fold_throws (attachment_step J (meta_entry_of entry_name)) attachments (empty_batch, start) of
             Inl e \<Rightarrow> throws_io (if is_ub e then Inl e else Inr (mk_error (- 1) (what e)))
           | Inr (b, ts) \<Rightarrow>
               bind_io (get_io bk_io_path) (\<lambda>io_path.
               bind_io (on_client (process_batch_v2_records srt lib io_path b kWrite)) (\<lambda>r.
                 ret_io (if is_error (res_error r) then res_error r
                         else first_batch_record_error (res_value r)))))"

section \<open>Properties\<close>

lemma on_client_get_version: "on_client get_api_version b = Inr (cl_api_version (bk_client b), b)"
  by (simp add: on_client_def get_api_version_def get_io_def)

lemma supports_v2_run:
  "supports_batch_protocol_v2 b =
     (case cl_api_version (bk_client b) of
        None \<Rightarrow> Inr (False, b)
      | Some v \<Rightarrow> bind_throws (is_compatible ''1.18'' v) (\<lambda>c. Inr (c, b)))"
  by (simp add: supports_batch_protocol_v2_def bind_io_def on_client_get_version ret_io_def throws_io_def
      split: option.splits)

lemma version_text: "getlines (CHR ''.'') (show_nat a @ ''.'' @ show_nat c) = [show_nat a, show_nat c]"
proof -
  have "CHR ''.'' \<notin> set (show_nat n)" for n
    by (rule show_nat_no_char) (simp add: cis_digit_def code_of_def)
  then show ?thesis by (simp add: getlines_append getlines_no_delim)
qed

lemma is_compatible_numbers:
  assumes "a < 2 ^ 31" "b < 2 ^ 31" "c < 2 ^ 31" "d < 2 ^ 31"
  shows "is_compatible (show_nat a @ ''.'' @ show_nat b) (show_nat c @ ''.'' @ show_nat d) =
    Inr (a = c \<and> b \<le> d)"
  using assms by (simp add: is_compatible_def parse_version_def version_text [simplified] stoi_show_nat)

text \<open>
  The version that the server reported decides the protocol of a batch: v2 from 1.18 on, and
  v1 for an older server and for one that has not reported a version.
\<close>

theorem batch_protocol_by_version:
  assumes "cl_api_version (bk_client b) = map_option (\<lambda>(major, minor). show_nat major @ ''.'' @ show_nat minor) version"
    and "\<forall>(major, minor) \<in> set_option version. major < 2 ^ 31 \<and> minor < 2 ^ 31"
  shows "process_entry_batch srt lib entry_name callback type b =
    (if \<exists>minor. version = Some (1, minor) \<and> 18 \<le> minor
     then on_client (process_batch_v2 srt lib (bk_io_path b) entry_name (callback empty_batch) type) b
     else on_client (process_batch_v1 srt lib (bk_path b) entry_name (callback empty_batch) type) b)"
proof (cases version)
  case None
  with assms(1) show ?thesis
    by (simp add: process_entry_batch_def Let_def bind_io_def supports_v2_run get_io_def)
next
  case (Some v)
  obtain major minor where v: "v = (major, minor)" by (cases v)
  have "show_nat 1 = ''1''" "show_nat 18 = ''18''" by code_simp+
  then have "is_compatible ''1.18'' (show_nat major @ ''.'' @ show_nat minor) = Inr (1 = major \<and> 18 \<le> minor)"
    using is_compatible_numbers [of 1 18 major minor] assms(2) Some v by simp
  with assms(1) Some v show ?thesis
    by (auto simp: process_entry_batch_def Let_def bind_io_def supports_v2_run get_io_def)
qed

theorem batch_protocol_by_version_witness:
  "process_entry_batch isort (answering \<lparr>hr_status = 200, hr_headers = [], hr_body = []\<rparr>) ''e'' id kWrite
      (sample_bucket (Some ''1.17'')) =
    on_client (process_batch_v1 isort (answering \<lparr>hr_status = 200, hr_headers = [], hr_body = []\<rparr>) ''/b/x'' ''e''
      empty_batch kWrite) (sample_bucket (Some ''1.17''))"
proof -
  have "show_nat 1 = ''1''" "show_nat 17 = ''17''" by code_simp+
  then have "cl_api_version (bk_client (sample_bucket (Some ''1.17''))) =
      map_option (\<lambda>(major, minor). show_nat major @ ''.'' @ show_nat minor) (Some (1, 17))"
    by (simp add: sample_bucket_def build_bucket_def)
  from batch_protocol_by_version [OF this, of isort "answering \<lparr>hr_status = 200, hr_headers = [], hr_body = []\<rparr>"
      "''e''" id kWrite]
  show ?thesis by (simp add: sample_bucket_def build_bucket_def)
qed

definition version_text :: "nat \<times> nat \<Rightarrow> string" where
  "version_text v = show_nat (fst v) @ ''.'' @ show_nat (snd v)"

text \<open>What \<^verbatim>\<open>CheckRequest\<close> makes of a response whose version, if it names one, is \<open>version\<close>.\<close>

definition answer_verdict ::
  "'n httplib \<Rightarrow> http_response \<Rightarrow> (nat \<times> nat) option \<Rightarrow> 'n http_client \<Rightarrow> error \<times> 'n http_client" where
  "answer_verdict lib r version c =
     (if hr_status r \<noteq> 200 then
        (mk_error (hr_status r)
           (case hl_find lib (hr_headers r) kHeaderError of Some msg \<Rightarrow> msg | None \<Rightarrow> ''Unknown error''), c)
      else case version of
          None \<Rightarrow> (kOk, c)
        | Some v \<Rightarrow>
            if fst v \<noteq> 1 then (mk_error (- 1) (''Unsupported API version: '' @ version_text v), c)
            else (kOk, c\<lparr>cl_api_version := Some (version_text v),
                   cl_log := cl_log c @ (if snd v < 19 then [too_old_warning (version_text v)] else [])\<rparr>))"

lemma no_dot_in_number: "CHR ''.'' \<notin> set (show_nat n)"
  by (rule show_nat_no_char) (simp add: cis_digit_def code_of_def)

lemma check_request_verdict:
  assumes "hl_find lib (hr_headers r) kHeaderApi = map_option version_text version"
    and "\<forall>v \<in> set_option version. fst v < 2 ^ 31 \<and> snd v + 2 < 2 ^ 31"
  shows "check_request lib (Http_response r) c = Inr (answer_verdict lib r version c)"
proof (cases version)
  case None
  with assms(1) show ?thesis by (simp add: check_request_def answer_verdict_def split: option.split)
next
  case (Some v)
  obtain major minor where v: "v = (major, minor)" by (cases v)
  have small: "major < 2 ^ 31" "minor < 2 ^ 31" "\<not> 2 ^ 31 \<le> int minor + 2" using assms(2) Some v by auto
  have "find_char (CHR ''.'') (version_text v) = Some (length (show_nat major))"
    by (simp add: version_text_def v find_char_first no_dot_in_number)
  moreover have "stoi 10 (substr (version_text v) 0 (length (show_nat major))) = Inr (int major)"
    "stoi 10 (substr_from (version_text v) (length (show_nat major) + 1)) = Inr (int minor)"
    using small by (simp_all add: version_text_def v substr_def substr_from_def stoi_show_nat)
  ultimately show ?thesis
    using assms(1) Some small(3)
    by (auto simp: check_request_def answer_verdict_def v major_version_def minor_version_def show_int_def
        version_text_def split: option.split)
qed

text \<open>
  C15: The answers of the server decide what a client does next. A status other than 200 is the code
  of the error, with the message of the server, and an answer that names another major version is
  refused; both leave the client as it was. Any other answer is a success, and the version it names
  is kept, with a warning when it is three minor versions behind: from then on batches of the object
  go over v2 if the version is 1.18 or later, and over v1 if it is older.
\<close>

theorem answers_decide_protocol:
  assumes "hl_find lib (hr_headers r) kHeaderApi = map_option version_text version"
    and "\<forall>v \<in> set_option version. fst v < 2 ^ 31 \<and> snd v + 2 < 2 ^ 31"
    and "answer_verdict lib r version (bk_client b) = (err, c)"
  shows "check_request lib (Http_response r) (bk_client b) = Inr (err, c) \<and>
    (\<forall>minor. hr_status r = 200 \<and> version = Some (1, minor) \<longrightarrow> \<not> is_error err \<and>
       process_entry_batch srt lib entry_name callback type (b\<lparr>bk_client := c\<rparr>) =
       on_client
         (if 18 \<le> minor then process_batch_v2 srt lib (bk_io_path b) entry_name (callback empty_batch) type
          else process_batch_v1 srt lib (bk_path b) entry_name (callback empty_batch) type)
         (b\<lparr>bk_client := c\<rparr>))"
proof (intro conjI allI impI)
  show "check_request lib (Http_response r) (bk_client b) = Inr (err, c)"
    using check_request_verdict [OF assms(1,2)] assms(3) by simp
  fix minor assume learned: "hr_status r = 200 \<and> version = Some (1, minor)"
  with assms(3) show "\<not> is_error err" by (auto simp: answer_verdict_def)
  have "cl_api_version (bk_client (b\<lparr>bk_client := c\<rparr>)) =
      map_option (\<lambda>(major, minor). show_nat major @ ''.'' @ show_nat minor) (Some (1, minor))"
    using learned assms(3) by (auto simp: answer_verdict_def version_text_def)
  from batch_protocol_by_version [OF this] learned assms(2)
  show "process_entry_batch srt lib entry_name callback type (b\<lparr>bk_client := c\<rparr>) =
      on_client
        (if 18 \<le> minor then process_batch_v2 srt lib (bk_io_path b) entry_name (callback empty_batch) type
         else process_batch_v1 srt lib (bk_path b) entry_name (callback empty_batch) type)
        (b\<lparr>bk_client := c\<rparr>)"
    by simp
qed

definition old_reply :: http_response where
  "old_reply = \<lparr>hr_status = 200, hr_headers = [(''x-reduct-api'', ''1.17'')], hr_body = []\<rparr>"

theorem answers_decide_protocol_witness:
  "process_entry_batch isort (answering old_reply) ''e'' id kWrite ((sample_bucket None)
       \<lparr>bk_client := snd (answer_verdict (answering old_reply) old_reply (Some (1, 17)) (bk_client (sample_bucket None)))\<rparr>) =
     on_client (process_batch_v1 isort (answering old_reply) ''/b/x'' ''e'' empty_batch kWrite) ((sample_bucket None)
       \<lparr>bk_client := snd (answer_verdict (answering old_reply) old_reply (Some (1, 17)) (bk_client (sample_bucket None)))\<rparr>)"
proof -
  let ?b = "sample_bucket None" and ?lib = "answering old_reply"
  let ?verdict = "answer_verdict ?lib old_reply (Some (1, 17)) (bk_client ?b)"
  have printed: "version_text (1, 17) = ''1.17''" by code_simp
  have find: "hl_find ?lib (hr_headers old_reply) kHeaderApi = map_option version_text (Some (1, 17))"
    by (simp add: printed [simplified] answering_def old_reply_def header_names)
  have status: "hr_status old_reply = 200" by (simp add: old_reply_def)
  have "?verdict = (fst ?verdict, snd ?verdict)" by simp
  from answers_decide_protocol [OF find _ this, of isort "''e''" id kWrite] status
  show ?thesis by (simp add: sample_bucket_def build_bucket_def)
qed

lemma attachment_step_parsed:
  "j_parse J payload = Inr j \<Longrightarrow> attachment_step J meta (key, payload) (b, ts) =
     Inr (add_record meta ts payload ''application/json'' [(''key'', key)] b, ts + 1000)"
  by (simp add: attachment_step_def)

lemma attachment_fold_fails:
  assumes "(k, p) \<in> set attachments" and "j_parse J p = Inl e"
    and "\<forall>(k, p) \<in> set attachments. \<forall>e. j_parse J p = Inl e \<longrightarrow> \<not> is_ub e"
  shows "\<exists>e. fold_throws (attachment_step J meta) attachments st = Inl e \<and> \<not> is_ub e"
  using assms
proof (induction attachments arbitrary: st)
  case (Cons kp attachments)
  obtain k' p' where kp: "kp = (k', p')" by (cases kp)
  obtain b ts where st: "st = (b, ts)" by (cases st)
  show ?case
  proof (cases "j_parse J p'")
    case (Inl e')
    with Cons.prems(3) kp show ?thesis by (simp add: attachment_step_def st)
  next
    case (Inr j)
    with Cons.prems kp have "(k, p) \<in> set attachments" by auto
    from Cons.IH [OF this Cons.prems(2)] Cons.prems(3) show ?thesis
      by (simp add: kp st attachment_step_parsed [OF Inr])
  qed
qed simp

text \<open>The records of the attachments: a microsecond apart, in the order of the keys.\<close>

primrec attachment_records :: "string \<Rightarrow> time \<Rightarrow> (string \<times> string) list \<Rightarrow> (string \<times> time \<times> label_map \<times> nat) list" where
  "attachment_records meta ts [] = []"
| "attachment_records meta ts (kp # kps) =
     (meta, ts, [(''key'', fst kp)], length (snd kp)) # attachment_records meta (ts + 1000) kps"

definition record_summary :: "batch_record \<Rightarrow> string \<times> time \<times> label_map \<times> nat" where
  "record_summary r = (br_entry r, br_timestamp r, br_labels r, br_size r)"

lemma attachment_fold_records:
  assumes "\<forall>(k, p) \<in> set attachments. \<exists>j. j_parse J p = Inr j"
  shows "\<exists>b' ts'. fold_throws (attachment_step J meta) attachments (b, ts) = Inr (b', ts') \<and>
    map record_summary (batch_records b') = map record_summary (batch_records b) @ attachment_records meta ts attachments \<and>
    batch_body b' = batch_body b @ map snd attachments"
  using assms
proof (induction attachments arbitrary: b ts)
  case (Cons kp attachments)
  obtain k p where kp: "kp = (k, p)" by (cases kp)
  then obtain j where "j_parse J p = Inr j" using Cons.prems by auto
  note step = attachment_step_parsed [OF this, of meta k b ts]
  from Cons.prems have "\<forall>(k, p) \<in> set attachments. \<exists>j. j_parse J p = Inr j" by simp
  from Cons.IH [OF this, of "add_record meta ts p ''application/json'' [(''key'', k)] b" "ts + 1000"]
  show ?case by (simp add: kp step) (auto simp: add_ops_defs batch_simps record_summary_def)
qed simp

text \<open>
  C36: \<^verbatim>\<open>WriteAttachments\<close> sends all attachments or none: one payload that is not JSON gives an error
  and no request, with the object as it was; otherwise one batch goes out with a record per key,
  in the order of the keys, a microsecond apart, labelled with its key and holding its text.
\<close>

theorem attachments_all_or_nothing:
  assumes "attachments \<noteq> []"
    and "\<forall>(k, p) \<in> set attachments. \<forall>e. j_parse J p = Inl e \<longrightarrow> \<not> is_ub e"
  shows "if \<exists>(k, p) \<in> set attachments. \<exists>e. j_parse J p = Inl e
    then \<exists>msg. write_attachments srt lib J now entry_name attachments b = Inr (mk_error (- 1) msg, b)
    else \<exists>batch. map record_summary (batch_records batch) =
          attachment_records (meta_entry_of entry_name) (trunc_div now 1000 * 1000) attachments \<and>
        batch_body batch = map snd attachments \<and>
        write_attachments srt lib J now entry_name attachments b =
          bind_io (on_client (process_batch_v2_records srt lib (bk_io_path b) batch kWrite)) (\<lambda>r.
            ret_io (if is_error (res_error r) then res_error r else first_batch_record_error (res_value r))) b"
proof (cases "\<exists>(k, p) \<in> set attachments. \<exists>e. j_parse J p = Inl e")
  case True
  then obtain k p e where "(k, p) \<in> set attachments" "j_parse J p = Inl e" by blast
  from attachment_fold_fails [OF this assms(2), of "meta_entry_of entry_name" "(empty_batch, trunc_div now 1000 * 1000)"]
  obtain e where "fold_throws (attachment_step J (meta_entry_of entry_name)) attachments
      (empty_batch, trunc_div now 1000 * 1000) = Inl e" "\<not> is_ub e"
    by blast
  with assms(1) have "write_attachments srt lib J now entry_name attachments b = Inr (mk_error (- 1) (what e), b)"
    by (simp add: write_attachments_def Let_def throws_io_def)
  with True show ?thesis by (simp only: if_True) blast
next
  case False
  have "\<exists>j. j_parse J p = Inr j" if "(k, p) \<in> set attachments" for k p
    using False that by (cases "j_parse J p") auto
  then have "\<forall>(k, p) \<in> set attachments. \<exists>j. j_parse J p = Inr j" by blast
  from attachment_fold_records [OF this, of "meta_entry_of entry_name" empty_batch "trunc_div now 1000 * 1000"]
  obtain batch ts where "fold_throws (attachment_step J (meta_entry_of entry_name)) attachments
      (empty_batch, trunc_div now 1000 * 1000) = Inr (batch, ts)"
    and "map record_summary (batch_records batch) =
      attachment_records (meta_entry_of entry_name) (trunc_div now 1000 * 1000) attachments"
    and "batch_body batch = map snd attachments"
    by (auto simp: empty_batch_def)
  with assms(1) False show ?thesis
    by (simp add: write_attachments_def Let_def get_run) blast
qed

text \<open>A parser that knows one text.\<close>

definition strict_json :: "json_value json_ops" where
  "strict_json = value_json (\<lambda>s. if s = ''1'' then Inr (JInt 1) else Inl (Json_error ''syntax error'')) (\<lambda>j. Inr [])"

theorem attachments_all_or_nothing_witness:
  "\<exists>msg. write_attachments isort (answering \<lparr>hr_status = 200, hr_headers = [], hr_body = []\<rparr>) strict_json 5000 ''e''
      [(''a'', ''1''), (''b'', ''?'')] (sample_bucket None) = Inr (mk_error (- 1) msg, sample_bucket None)"
proof -
  have "\<exists>(k, p) \<in> set [(''a'', ''1''), (''b'', ''?'')]. \<exists>e. j_parse strict_json p = Inl e"
    by (simp add: strict_json_def value_json_def)
  then show ?thesis
    using attachments_all_or_nothing [of "[(''a'', ''1''), (''b'', ''?'')]" strict_json isort
        "answering \<lparr>hr_status = 200, hr_headers = [], hr_body = []\<rparr>" 5000 "''e''" "sample_bucket None"]
    by (simp add: strict_json_def value_json_def)
qed

end
