(* ===== verification/Batch_Errors.thy ===== *)
theory Batch_Errors
  imports Bucket_Batch
begin

text \<open>
  The shape of what a batch request returns, for every library, server and response: the maps of
  errors are \<^verbatim>\<open>std::map\<close>s (ordered, one error per key), and a failed request has no errors of
  records.
\<close>

text \<open>A result with an error carries the default value.\<close>

definition result_ok :: "('a \<Rightarrow> bool) \<Rightarrow> 'a \<Rightarrow> 'a result \<Rightarrow> bool" where
  "result_ok ok dflt r \<longleftrightarrow> ok (res_value r) \<and> (is_error (res_error r) \<longrightarrow> res_value r = dflt)"

lemma result_ok_intros [simp]:
  "result_ok ok dflt (err_result dflt e) \<longleftrightarrow> ok dflt"
  "result_ok ok dflt (ok_result x) \<longleftrightarrow> ok x"
  by (simp_all add: result_ok_def)

text \<open>What a computation returns has a property.\<close>

definition returns :: "('a \<Rightarrow> bool) \<Rightarrow> ('s, 'a) io \<Rightarrow> bool" where
  "returns Q m \<longleftrightarrow> (\<forall>s x s'. m s = Inr (x, s') \<longrightarrow> Q x)"

lemma returns_ret: "Q x \<Longrightarrow> returns Q (ret_io x)"
  by (simp add: returns_def ret_io_def)

lemma returns_throws: "(\<And>x. t = Inr x \<Longrightarrow> Q x) \<Longrightarrow> returns Q (throws_io t)"
  by (auto simp: returns_def throws_io_def bind_throws_Inr_iff)

lemma returns_bind: "(\<And>x. returns Q (f x)) \<Longrightarrow> returns Q (bind_io m f)"
  by (fastforce simp: returns_def bind_run)

lemma returns_if: "(b \<Longrightarrow> returns Q m) \<Longrightarrow> (\<not> b \<Longrightarrow> returns Q n) \<Longrightarrow> returns Q (if b then m else n)"
  by simp

lemmas returns_intros = returns_if returns_bind returns_ret returns_throws

section \<open>The loops over the headers\<close>

lemma error_step_v1_ok: "batch_error_step_v1 kv errors = Inr errors' \<Longrightarrow> omap_ok errors \<Longrightarrow> omap_ok errors'"
  by (auto simp: batch_error_step_v1_def bind_throws_Inr_iff omap.ok_emplace split: prod.splits if_splits option.splits)

lemma error_step_v2_ok: "batch_error_step s kv errors = Inr errors' \<Longrightarrow> omap_ok errors \<Longrightarrow> omap_ok errors'"
  by (auto simp: batch_error_step_def bind_throws_Inr_iff omap.ok_emplace Let_def
      split: prod.splits if_splits option.splits)

lemma record_error_step_ok:
  "record_error_step entries s kv errors = Inr errors' \<Longrightarrow> record_errors_ok errors \<Longrightarrow> record_errors_ok errors'"
  by (auto simp: record_error_step_def bind_throws_Inr_iff emplace_record_error_ok(1) Let_def
      split: prod.splits if_splits option.splits)

lemma folds_ok:
  "fold_throws batch_error_step_v1 hs [] = Inr errors1 \<Longrightarrow> omap_ok errors1"
  "fold_throws (batch_error_step s) hs [] = Inr errors1 \<Longrightarrow> omap_ok errors1"
  "fold_throws (record_error_step entries s) hs [] = Inr errors2 \<Longrightarrow> record_errors_ok errors2"
proof -
  have "record_errors_ok []" by (simp add: record_errors_ok_def)
  then show "fold_throws (record_error_step entries s) hs [] = Inr errors2 \<Longrightarrow> record_errors_ok errors2"
    by (auto elim!: fold_throws_invariant intro: record_error_step_ok)
qed (auto elim!: fold_throws_invariant intro: error_step_v1_ok error_step_v2_ok)

section \<open>The functions\<close>

lemma batches_return:
  "returns (result_ok omap_ok []) (process_batch_v1 srt lib path entry_name b type)"
  "returns (result_ok omap_ok []) (process_batch_v2 srt lib path entry_name b type)"
  "returns (result_ok record_errors_ok []) (process_batch_v2_records srt lib path b type)"
  unfolding process_batch_v1_def process_batch_v2_def process_batch_v2_records_def Let_def
  by (intro returns_intros; auto simp: bind_throws_Inr_iff folds_ok record_errors_ok_def dest: folds_ok)+

lemma returns_on_client: "returns Q m \<Longrightarrow> returns Q (on_client m)"
  by (auto simp: returns_def on_client_def bind_throws_Inr_iff)

lemma returns_bind_known:
  assumes "returns R m" and "\<And>x. R x \<Longrightarrow> returns Q (f x)"
  shows "returns Q (bind_io m f)"
  using assms by (fastforce simp: returns_def bind_run)

lemma single_entry_ok: "omap_ok m \<Longrightarrow> record_errors_ok (omap_emplace e m [])"
  by (simp add: record_errors_ok_def omap_emplace_def omap_ok_def)


end
