(* ===== verification/Upload_Bounds.thy ===== *)
theory Upload_Bounds
  imports Upload Sort_Spec
begin

text \<open>
  How much an upload sends with each request for bytes, how many requests it takes, and that the
  upload of a batch ends with the whole body sent, whatever sizes \<^verbatim>\<open>httplib\<close> asks for.
\<close>

lemma provider_chunk:
  assumes "content_provider cb off n = Inr (Some d)" and "0 < n"
  shows "0 < length d \<and> length d \<le> n \<and> length d \<le> kMaxChunkSize"
  using assms by (auto simp: content_provider_def Let_def bind_throws_Inr_iff min_def split: if_splits prod.splits)
    (simp_all add: kMaxChunkSize_def)

text \<open>One step, for any callback: at least one byte, at most a chunk, never past the end.\<close>

lemma upload_step_chunk:
  assumes "upload_step (content_provider cb) len s t"
  shows "\<exists>d. snd t = snd s @ d \<and> fst t = fst s + length d \<and> 0 < length d \<and> length d \<le> kMaxChunkSize \<and> fst t \<le> len"
  using assms
proof (cases rule: upload_step.cases)
  case (upload_chunk off n d sent)
  then show ?thesis using provider_chunk [OF upload_chunk(6) upload_chunk(4)] by auto
qed

lemma upload_run_bounds:
  assumes "(upload_step (content_provider cb) len ^^ k) (0, []) (off, sent)"
  shows "k \<le> off \<and> off \<le> len \<and> off \<le> k * kMaxChunkSize \<and> length sent = off"
proof -
  have "k \<le> fst s \<and> fst s \<le> len \<and> fst s \<le> k * kMaxChunkSize \<and> length (snd s) = fst s"
    if "(upload_step (content_provider cb) len ^^ k) (0, []) s" for s k
    using that
  proof (induction k arbitrary: s)
    case 0
    then show ?case by auto
  next
    case (Suc k)
    then obtain t where t: "(upload_step (content_provider cb) len ^^ k) (0, []) t"
      and "upload_step (content_provider cb) len t s" by auto
    from upload_step_chunk [OF this(2)] obtain d where "snd s = snd t @ d" "fst s = fst t + length d"
      "0 < length d" "length d \<le> kMaxChunkSize" "fst s \<le> len" by blast
    with Suc.IH [OF t] show ?case by (simp del: length_greater_0_conv)
  qed
  from this [OF assms] show ?thesis by simp
qed

section \<open>Properties\<close>

text \<open>
  C30: An upload with any callback, also one that breaks its contract, sends at least one byte and at
  most \<open>kMaxChunkSize\<close> bytes with each step, never more than the announced length, and so makes
  at most as many steps as there are bytes and at least one for each full chunk.
\<close>

theorem upload_bounded:
  assumes "(upload_step (content_provider cb) len ^^ k) (0, []) (off, sent)"
  shows "k \<le> off \<and> off \<le> len \<and> off \<le> k * kMaxChunkSize \<and> length sent = off \<and>
    (\<forall>t. upload_step (content_provider cb) len (off, sent) t \<longrightarrow>
       off < fst t \<and> fst t \<le> off + kMaxChunkSize \<and> fst t \<le> len)"
  using upload_run_bounds [OF assms] upload_step_chunk by fastforce

definition too_much :: write_callback where
  "too_much offset sz = Inr (True, replicate (sz + 5) (CHR ''x''))"

theorem upload_bounded_witness:
  "\<exists>t. upload_step (content_provider too_much) 3 (2, ''xx'') t \<and> 2 < fst t \<and> fst t \<le> 3"
proof -
  have "upload_step (content_provider too_much) 3 (0, []) (0 + length ''xx'', [] @ ''xx'')"
    by (rule upload_chunk [where n = 2]) (simp_all add: content_provider_def too_much_def kMaxChunkSize_def
        numeral_2_eq_2 Let_def)
  then have run: "(upload_step (content_provider too_much) 3 ^^ 1) (0, []) (2, ''xx'')"
    unfolding relpowp_1 by (simp add: numeral_2_eq_2)
  have "upload_step (content_provider too_much) 3 (2, ''xx'') (2 + length ''x'', ''xx'' @ ''x'')"
    by (rule upload_chunk [where n = 1]) (simp_all add: content_provider_def too_much_def kMaxChunkSize_def Let_def)
  with upload_bounded [OF run] show ?thesis by blast
qed

text \<open>
  C13: The upload of a batch ends: no step fails, as long as bytes are missing there is a next step,
  a run has at most as many steps as the batch has bytes, and when the announced length is reached
  what was sent is the payloads of the records in the order of the headers.
\<close>

theorem batch_upload_ends:
  assumes "std_sort srt" and "built b" and "total_bytes b < 2 ^ 64"
    and "ordered = sort_records srt b d by_entry"
    and "(upload_step (content_provider (batch_callback ordered b)) (unat (batch_size b)) ^^ k) (0, []) (off, sent)"
  shows "\<not> upload_fails (content_provider (batch_callback ordered b)) (unat (batch_size b)) off \<and>
    k \<le> unat (batch_size b) \<and> sent = take off (ordered_payload b ordered) \<and>
    (if off < unat (batch_size b)
     then \<exists>t. upload_step (content_provider (batch_callback ordered b)) (unat (batch_size b)) (off, sent) t
     else sent = ordered_payload b ordered)"
proof -
  note ok = built_ok [OF assms(2)]
  have source: "body_source (batch_callback ordered b) (ordered_payload b ordered)"
    unfolding assms(4) by (rule batch_source [OF assms(1) ok assms(3)])
  have len: "unat (batch_size b) = length (ordered_payload b ordered)"
    using ordered_payload_total [OF ok] sort_records_perm [OF assms(1)] unat_batch_size [OF ok assms(3)] assms(4)
    by metis
  have run: "(upload_step (content_provider (batch_callback ordered b)) (unat (batch_size b)))\<^sup>*\<^sup>* (0, []) (off, sent)"
    using assms(5) by (rule relpowp_imp_rtranclp)
  show ?thesis
    using body_source.never_fails [OF source] body_source.run_prefix [OF source run [unfolded len]]
      body_source.progress [OF source run [unfolded len]] upload_run_bounds [OF assms(5)]
    by (auto simp: len)
qed

definition one_record :: batch where
  "one_record = add_record ''a'' 1000 ''abc'' [] [] empty_batch"

theorem batch_upload_ends_witness:
  "\<exists>t. upload_step (content_provider (batch_callback (sort_records isort one_record [] True) one_record)) 3 (0, []) t"
proof -
  have b: "built one_record" "total_bytes one_record < 2 ^ 64" "unat (batch_size one_record) = 3"
    unfolding one_record_def by (intro built_record built_empty)
      (simp_all add: add_record_def batch_simps empty_batch_def total_bytes_def)
  have run: "(upload_step (content_provider (batch_callback (sort_records isort one_record [] True) one_record))
      (unat (batch_size one_record)) ^^ 0) (0, []) (0, [])"
    by simp
  from batch_upload_ends [OF isort.std_sort_axioms b(1,2) refl run] show ?thesis by (simp add: b(3))
qed

end
