(* ===== verification/Bucket_Read.thy ===== *)
theory Bucket_Read
  imports Bucket_Base Read_All Batch_V1 Batch_V2_Parse
begin

text \<open>
  Reading records (bucket.cc, \<^verbatim>\<open>ReadRecord\<close>, \<^verbatim>\<open>ReadRecordV2\<close>, \<^verbatim>\<open>Read\<close>, \<^verbatim>\<open>Head\<close>): the request,
  the queue of chunks, and the user's callback for every record. A call from the worker thread
  runs the callbacks itself, after the response has arrived; this is a function. A call from
  any other thread queues one task per record for the worker thread while the chunks still
  arrive; this is the step relation \<open>deliver_step\<close>. The last section shows that the two agree.
\<close>

section \<open>A single record\<close>

definition is_label_header :: "string \<times> string \<Rightarrow> bool" where
  "is_label_header kv \<longleftrightarrow> starts_with (fst kv) kHeaderLabelPrefix"

definition single_labels :: "headers \<Rightarrow> label_map" where
  "single_labels hs =
     fold (\<lambda>kv. if is_label_header kv
                then omap_emplace (substr_from (fst kv) (length kHeaderLabelPrefix)) (snd kv)
                else id) hs []"

text \<open>\<^verbatim>\<open>headers[key]\<close> is the empty string for a header that is missing; \<^verbatim>\<open>stoi\<close> throws on it.\<close>

definition parse_and_build_single_record :: "bool \<Rightarrow> headers \<Rightarrow> readable_record throws" where
  "parse_and_build_single_record head hs =
     bind_throws (from_microseconds (umap_get hs kHeaderTime)) (\<lambda>ts.
     bind_throws (stoi 10 (umap_get hs ''content-length'')) (\<lambda>sz.
       Inr \<lparr>rr_entry = [], rr_timestamp = ts, rr_size = word_of_int sz,
         rr_last = (umap_get hs kHeaderLast = ''1''), rr_labels = single_labels hs,
         rr_content_type = umap_get hs ''content-type'', rr_read = Read_single head\<rparr>))"

section \<open>Callbacks on the worker thread\<close>

text \<open>
  A callback may read the record's content from the queue, and answers whether to go on. It may
  not return, which is \<open>None\<close>; \<open>'u\<close> is what it changes.
\<close>

type_synonym 'u read_callback =
  "readable_record \<Rightarrow> 'u \<times> chunk_queue \<Rightarrow> (bool \<times> 'u \<times> chunk_queue) throws option"

fun run_callbacks_inline ::
  "'u read_callback \<Rightarrow> readable_record list \<Rightarrow> bool \<times> 'u \<times> chunk_queue \<Rightarrow>
   (bool \<times> 'u \<times> chunk_queue) throws option" where
  "run_callbacks_inline callback [] st = Some (Inr st)"
| "run_callbacks_inline callback (record # records) (stopped, uq) =
     (if stopped then Some (Inr (stopped, uq))
      else case callback record uq of
             None \<Rightarrow> None
           | Some (Inl e) \<Rightarrow> Some (Inl e)
           | Some (Inr (go_on, uq')) \<Rightarrow>
               run_callbacks_inline callback records (if \<not> go_on then True else rr_last record, uq'))"

section \<open>The request\<close>

text \<open>The error, the headers that arrived, and the queue without the mark of its end.\<close>

definition receive ::
  "'n httplib \<Rightarrow> bool \<Rightarrow> string \<Rightarrow> headers \<Rightarrow> ('n http_client, error \<times> headers option \<times> chunk_queue) io" where
  "receive lib head path hs =
     (if head then
        bind_io (http_head lib path hs) (\<lambda>ret.
          ret_io (if is_error (res_error ret) then (res_error ret, None, [])
                  else (kOk, Some (res_value ret), [])))
      else
        http_get_stream lib path hs
          (\<lambda>hs (_, data). Inr (Some hs, data))
          (\<lambda>chunk (response_headers, data). (True, (response_headers, data @ [Some chunk])))
          (None, []))"

type_synonym 'a diverges = "'a throws option"

definition read_record_inline ::
  "'n httplib \<Rightarrow> (bool \<Rightarrow> headers \<Rightarrow> readable_record list throws) \<Rightarrow> bool \<Rightarrow> string \<Rightarrow> headers \<Rightarrow>
   'u read_callback \<Rightarrow> 'n bucket \<times> 'u \<Rightarrow> ((bool \<times> error) \<times> 'n bucket \<times> 'u) diverges" where
  "read_record_inline lib build_records head path hs callback bu =
     (case bu of (b, u) \<Rightarrow>
        case on_client (receive lib head path hs) b of
          Inl e \<Rightarrow> Some (Inl e)
        | Inr ((err, response_headers, data), b') \<Rightarrow>
            if is_error err then Some (Inr ((False, err), b', u))
            else case response_headers of
                   None \<Rightarrow> Some (Inl (Undefined_behaviour ''*response_headers of nullopt''))
                 | Some hs' \<Rightarrow>
                     case build_records head hs' of
                       Inl e \<Rightarrow> Some (Inl e)
                     | Inr records \<Rightarrow>
                         case run_callbacks_inline callback records
                                (False, u, if head then data else data @ [None]) of
                           None \<Rightarrow> None
                         | Some (Inl e) \<Rightarrow> Some (Inl e)
                         | Some (Inr (stopped, u', _)) \<Rightarrow> Some (Inr ((stopped, err), b', u')))"

datatype read_type = kSingle | kBatched

definition build_records_v1 :: "read_type \<Rightarrow> bool \<Rightarrow> headers \<Rightarrow> readable_record list throws" where
  "build_records_v1 type head hs =
     (case type of
        kBatched \<Rightarrow> parse_and_build_batched_records_v1 head hs
      | kSingle \<Rightarrow> bind_throws (parse_and_build_single_record head hs) (\<lambda>r. Inr [r]))"

definition read_record ::
  "'n httplib \<Rightarrow> string \<Rightarrow> read_type \<Rightarrow> bool \<Rightarrow> 'u read_callback \<Rightarrow> 'n bucket \<times> 'u \<Rightarrow>
   ((bool \<times> error) \<times> 'n bucket \<times> 'u) diverges" where
  "read_record lib path type head callback = read_record_inline lib (build_records_v1 type) head path [] callback"

type_synonym header_sort =
  "(parsed_header \<Rightarrow> parsed_header \<Rightarrow> bool) \<Rightarrow> parsed_header list \<Rightarrow> parsed_header list"

definition read_record_v2 ::
  "header_sort \<Rightarrow> 'n httplib \<Rightarrow> u64 \<Rightarrow> bool \<Rightarrow> 'u read_callback \<Rightarrow> 'n bucket \<times> 'u \<Rightarrow>
   ((bool \<times> error) \<times> 'n bucket \<times> 'u) diverges" where
  "read_record_v2 srt lib query_id head callback bu =
     read_record_inline lib (parse_and_build_batched_records_v2 srt) head (bk_io_path (fst bu) @ ''/read'')
       [(kHeaderQueryId, show_nat (unat query_id))] callback bu"

definition map_result :: "('a \<Rightarrow> 'b) \<Rightarrow> ('a \<times> 's) diverges \<Rightarrow> ('b \<times> 's) diverges" where
  "map_result f r = map_option (map_sum id (map_prod f id)) r"

definition read_path :: "string \<Rightarrow> string \<Rightarrow> time option \<Rightarrow> string" where
  "read_path path entry_name ts =
     path @ ''/'' @ entry_name @
       (case ts of None \<Rightarrow> [] | Some t \<Rightarrow> ''?ts='' @ show_int (to_microseconds t))"

definition read_one ::
  "'n httplib \<Rightarrow> string \<Rightarrow> time option \<Rightarrow> 'u read_callback \<Rightarrow> 'n bucket \<times> 'u \<Rightarrow> (error \<times> 'n bucket \<times> 'u) diverges" where
  "read_one lib entry_name ts callback bu =
     map_result snd (read_record lib (read_path (bk_path (fst bu)) entry_name ts) kSingle False callback bu)"

definition head_one ::
  "'n httplib \<Rightarrow> string \<Rightarrow> time option \<Rightarrow> 'u read_callback \<Rightarrow> 'n bucket \<times> 'u \<Rightarrow> (error \<times> 'n bucket \<times> 'u) diverges" where
  "head_one lib entry_name ts callback bu =
     map_result snd (read_record lib (read_path (bk_path (fst bu)) entry_name ts) kSingle True callback bu)"

section \<open>Callbacks on another thread\<close>

text \<open>
  The callbacks of this section read the whole content and then decide; \<open>decide\<close> gives the
  answer and the change of \<open>'u\<close>. \<open>dv_tasks\<close> are the tasks in the queue of the worker thread,
  \<open>dv_got\<close> collects the contents for the proofs.
\<close>

type_synonym 'u verdict = "readable_record \<Rightarrow> string \<Rightarrow> 'u \<Rightarrow> bool \<times> 'u"

record 'u delivery =
  dv_pending :: chunk_queue
  dv_queue :: chunk_queue
  dv_tasks :: "readable_record list"
  dv_current :: "(readable_record \<times> u64 \<times> string) option"
  dv_stopped :: bool
  dv_user :: 'u
  dv_got :: "string list"

inductive deliver_step :: "'u verdict \<Rightarrow> 'u delivery \<Rightarrow> 'u delivery \<Rightarrow> bool" for decide where
  dv_push:
    "dv_pending s = x # xs \<Longrightarrow>
     deliver_step decide s (s\<lparr>dv_pending := xs, dv_queue := dv_queue s @ [x]\<rparr>)"
| dv_skip:
    "dv_current s = None \<Longrightarrow> dv_tasks s = r # rs \<Longrightarrow> dv_stopped s \<Longrightarrow>
     deliver_step decide s (s\<lparr>dv_tasks := rs\<rparr>)"
| dv_start:
    "dv_current s = None \<Longrightarrow> dv_tasks s = r # rs \<Longrightarrow> \<not> dv_stopped s \<Longrightarrow>
     deliver_step decide s (s\<lparr>dv_tasks := rs, dv_current := Some (r, 0, [])\<rparr>)"
| dv_again:
    "dv_current s = Some (r, tot, got) \<Longrightarrow>
     read_iter (rr_read r) append_chunk tot got (dv_queue s) = Inr (Reading tot' got', q) \<Longrightarrow>
     deliver_step decide s (s\<lparr>dv_current := Some (r, tot', got'), dv_queue := q\<rparr>)"
| dv_return:
    "dv_current s = Some (r, tot, got) \<Longrightarrow>
     read_iter (rr_read r) append_chunk tot got (dv_queue s) = Inr (Finished got', q) \<Longrightarrow>
     decide r got' (dv_user s) = (go_on, u') \<Longrightarrow>
     deliver_step decide s
       (s\<lparr>dv_current := None, dv_queue := q, dv_stopped := (if \<not> go_on then True else rr_last r),
          dv_user := u', dv_got := dv_got s @ [got']\<rparr>)"

inductive_cases deliver_stepE: "deliver_step decide s t"

definition deliver_init :: "string list \<Rightarrow> readable_record list \<Rightarrow> 'u \<Rightarrow> 'u delivery" where
  "deliver_init chunks records u =
     \<lparr>dv_pending = map Some chunks @ [None], dv_queue = [], dv_tasks = records, dv_current = None,
      dv_stopped = False, dv_user = u, dv_got = []\<rparr>"

text \<open>The last future is ready.\<close>

definition deliver_done :: "'u delivery \<Rightarrow> bool" where
  "deliver_done s \<longleftrightarrow> dv_tasks s = [] \<and> dv_current s = None"

text \<open>The same callback for the worker thread: the loop of \<^verbatim>\<open>Read\<close>, then the decision.\<close>

partial_function (option) read_to_end ::
  "read_fn \<Rightarrow> u64 \<Rightarrow> string \<Rightarrow> chunk_queue \<Rightarrow> (string \<times> chunk_queue) throws option" where
  "read_to_end f tot got q =
     (case read_iter f append_chunk tot got q of
        Inl e \<Rightarrow> Some (Inl e)
      | Inr (Reading tot' got', q') \<Rightarrow> read_to_end f tot' got' q'
      | Inr (Finished got', q') \<Rightarrow> Some (Inr (got', q')))"

definition reading_callback :: "'u verdict \<Rightarrow> 'u read_callback" where
  "reading_callback decide r uq =
     (case uq of (u, q) \<Rightarrow>
        case read_to_end (rr_read r) 0 [] q of
          None \<Rightarrow> None
        | Some (Inl e) \<Rightarrow> Some (Inl e)
        | Some (Inr (got, q')) \<Rightarrow> (case decide r got u of (go_on, u') \<Rightarrow> Some (Inr (go_on, u', q'))))"

text \<open>What both compute: the records with their contents, in order, until one stops.\<close>

fun deliver_all :: "'u verdict \<Rightarrow> (readable_record \<times> string) list \<Rightarrow> bool \<times> 'u \<Rightarrow> bool \<times> 'u" where
  "deliver_all decide [] st = st"
| "deliver_all decide ((r, got) # rest) (stopped, u) =
     (if stopped then (stopped, u)
      else case decide r got u of (go_on, u') \<Rightarrow> deliver_all decide rest (if \<not> go_on then True else rr_last r, u'))"

end
