(* ===== verification/Callbacks.thy ===== *)
theory Callbacks
  imports Bucket_Read
begin

text \<open>
  Two ways of running the callbacks of a response (\<^verbatim>\<open>run_callbacks_inline\<close> and the worker
  thread) compared: every finished run of \<open>deliver_step\<close>, and the call on the complete queue,
  give what \<open>deliver_all\<close> says. The tasks of the worker thread simulate the reading system of
  the theory Reader as long as no callback has stopped.
\<close>

section \<open>The specification\<close>

lemma deliver_all_stopped [simp]: "deliver_all decide xs (True, u) = (True, u)"
  by (cases xs) auto

lemma deliver_all_append:
  "deliver_all decide (xs @ ys) st = deliver_all decide ys (deliver_all decide xs st)"
proof (induction xs arbitrary: st)
  case (Cons x xs)
  obtain r got where x: "x = (r, got)" by (cases x)
  obtain stopped u where st: "st = (stopped, u)" by (cases st)
  show ?case by (cases stopped) (simp_all add: x st Cons.IH split: prod.split)
qed simp

lemma deliver_all_last:
  assumes "xs \<noteq> []" and "rr_last (fst (last xs))"
  shows "fst (deliver_all decide xs st)"
proof -
  obtain r got where x: "last xs = (r, got)" by (cases "last xs")
  then have "xs = butlast xs @ [(r, got)]" "rr_last r"
    using assms append_butlast_last_id [OF assms(1)] by simp_all
  moreover have "fst (deliver_all decide [(r, got)] st')" if "rr_last r" for st'
    using that by (cases st') (auto split: prod.split)
  ultimately show ?thesis by (metis deliver_all_append)
qed

section \<open>The worker thread simulates the reading system\<close>

definition sys_of :: "'u delivery \<Rightarrow> read_sys" where
  "sys_of s = \<lparr>sy_pending = dv_pending s, sy_queue = dv_queue s, sy_todo = map rr_read (dv_tasks s),
     sy_current = map_option (\<lambda>(r, tot, got). (rr_read r, tot, got)) (dv_current s), sy_out = dv_got s\<rparr>"

lemma sys_of_simps [simp]:
  "sy_pending (sys_of s) = dv_pending s" "sy_queue (sys_of s) = dv_queue s"
  "sy_todo (sys_of s) = map rr_read (dv_tasks s)"
  "sy_current (sys_of s) = map_option (\<lambda>(r, tot, got). (rr_read r, tot, got)) (dv_current s)"
  "sy_out (sys_of s) = dv_got s"
  by (simp_all add: sys_of_def)

lemma sys_of_init: "sys_of (deliver_init chunks records u) = sys_init chunks (map rr_read records)"
  by (simp add: sys_of_def deliver_init_def sys_init_def)

lemma deliver_step_sys:
  assumes "deliver_step decide s t" and "\<not> dv_stopped s"
  shows "sys_step (sys_of s) (sys_of t)"
  using assms(1)
proof (cases rule: deliver_step.cases)
  case (dv_push x xs)
  with sys_push [of "sys_of s" x xs] show ?thesis by (simp add: sys_of_def)
next
  case (dv_start r rs)
  with sys_start [of "sys_of s" "rr_read r" "map rr_read rs"] show ?thesis by (simp add: sys_of_def)
next
  case (dv_again r tot got tot' got' q)
  with sys_again [of "sys_of s" "rr_read r" tot got tot' got' q] show ?thesis by (simp add: sys_of_def)
next
  case (dv_return r tot got got' q go_on u')
  with sys_finish [of "sys_of s" "rr_read r" tot got got' q] show ?thesis by (simp add: sys_of_def)
qed (use assms(2) in simp)

lemma sys_step_deliver:
  assumes "sys_step (sys_of s) t" and "\<not> dv_stopped s"
  shows "\<exists>s'. deliver_step decide s s' \<and> sys_of s' = t"
  using assms(1)
proof (cases rule: sys_step.cases)
  case (sys_push x xs)
  then have p: "dv_pending s = x # xs" by simp
  show ?thesis
    by (rule exI, rule conjI, rule deliver_step.dv_push [where decide = decide, OF p]) (simp add: sys_push(1) sys_of_def)
next
  case (sys_start f fs)
  then obtain r rs where r: "dv_current s = None" "dv_tasks s = r # rs" "f = rr_read r" "fs = map rr_read rs"
    by auto
  show ?thesis
    by (rule exI, rule conjI, rule deliver_step.dv_start [where decide = decide, OF r(1,2) assms(2)])
      (simp add: sys_start(1) sys_of_def r)
next
  case (sys_again f tot got tot' got' q)
  then obtain r where r: "dv_current s = Some (r, tot, got)" "f = rr_read r" by auto
  with sys_again(3) have it: "read_iter (rr_read r) append_chunk tot got (dv_queue s) = Inr (Reading tot' got', q)"
    by simp
  show ?thesis
    by (rule exI, rule conjI, rule deliver_step.dv_again [where decide = decide, OF r(1) it])
      (simp add: sys_again(1) sys_of_def r)
next
  case (sys_finish f tot got got' q)
  then obtain r where r: "dv_current s = Some (r, tot, got)" "f = rr_read r" by auto
  with sys_finish(3) have it: "read_iter (rr_read r) append_chunk tot got (dv_queue s) = Inr (Finished got', q)"
    by simp
  obtain go_on u' where d: "decide r got' (dv_user s) = (go_on, u')" by fastforce
  show ?thesis
    by (rule exI, rule conjI, rule deliver_step.dv_return [where decide = decide, OF r(1) it d])
      (simp add: sys_finish(1) sys_of_def r)
qed

section \<open>The invariant of the tasks\<close>

definition current_record :: "'u delivery \<Rightarrow> readable_record list" where
  "current_record s = (case dv_current s of None \<Rightarrow> [] | Some (r, _) \<Rightarrow> [r])"

definition deliver_inv ::
  "'u verdict \<Rightarrow> readable_record list \<Rightarrow> nat list \<Rightarrow> string \<Rightarrow> 'u \<Rightarrow> 'u delivery \<Rightarrow> bool" where
  "deliver_inv decide rs ns body u0 s \<longleftrightarrow>
     deliver_all decide (zip (take (length (dv_got s)) rs) (dv_got s)) (False, u0) = (dv_stopped s, dv_user s) \<and>
     length (dv_got s) \<le> length rs \<and>
     (if dv_stopped s then
        dv_current s = None \<and> dv_got s = take (length (dv_got s)) (split_sizes ns body)
      else sys_inv ns body (sys_of s) \<and> drop (length (dv_got s)) rs = current_record s @ dv_tasks s)"

lemma sys_inv_out_prefix:
  assumes "sys_inv ns body s" shows "sy_out s = take (length (sy_out s)) (split_sizes ns body)"
proof -
  obtain rest where "concat (sy_out s) @ rest = body" "map length (sy_out s) = take (length (sy_out s)) ns"
    using assms by (auto simp: sys_inv_def split: option.splits)
  moreover have "take k (split_sizes ms b) = split_sizes (take k ms) b" for k ms b
    by (induction ms arbitrary: k b) (auto simp: take_Cons split: nat.splits)
  ultimately show ?thesis using split_sizes_unique [of "sy_out s" rest] by simp
qed

lemma deliver_inv_init:
  assumes "list_all2 fn_size (map rr_read rs) ns" and "\<forall>c \<in> set chunks. length c < 2 ^ 63"
  shows "deliver_inv decide rs ns (concat chunks) u (deliver_init chunks rs u)"
  using sys_inv_init [OF assms]
  by (simp add: deliver_inv_def sys_of_init) (simp add: deliver_init_def current_record_def)

lemma deliver_inv_returned:
  assumes "deliver_all decide (zip (take (length (dv_got s)) rs) (dv_got s)) (False, u0) = (dv_stopped s, dv_user s)"
    and "length (dv_got s) \<le> length rs" and "dv_current s = None" and "sys_inv ns body (sys_of s)"
    and "drop (length (dv_got s)) rs = dv_tasks s"
  shows "deliver_inv decide rs ns body u0 s"
  using assms sys_inv_out_prefix [OF assms(4)] by (simp add: deliver_inv_def current_record_def)

text \<open>A callback that returns adds its record to the delivered ones.\<close>

lemma deliver_return_all:
  assumes "drop k rs = r # tasks" and "k = length got"
  shows "deliver_all decide (zip (take (Suc k) rs) (got @ [x])) st =
    deliver_all decide [(r, x)] (deliver_all decide (zip (take k rs) got) st)"
proof -
  have "k < length rs" "rs ! k = r" using assms(1) by (auto simp: nth_via_drop intro: ccontr)
  then have "zip (take (Suc k) rs) (got @ [x]) = zip (take k rs) got @ [(r, x)]"
    using assms(2) by (simp add: take_Suc_conv_app_nth zip_append)
  then show ?thesis by (simp add: deliver_all_append)
qed

lemma deliver_step_inv:
  assumes step: "deliver_step decide s t" and inv: "deliver_inv decide rs ns body u0 s"
    and le: "sum_list ns \<le> length body"
  shows "deliver_inv decide rs ns body u0 t"
proof (cases "dv_stopped s")
  case True
  from step show ?thesis
    by (cases rule: deliver_step.cases) (use True inv in \<open>auto simp: deliver_inv_def\<close>)
next
  case False
  have sys: "sys_inv ns body (sys_of t)"
    using sys_step_inv [OF deliver_step_sys [OF step False] _ le] inv False by (simp add: deliver_inv_def)
  have rs: "drop (length (dv_got s)) rs = current_record s @ dv_tasks s"
    and all: "deliver_all decide (zip (take (length (dv_got s)) rs) (dv_got s)) (False, u0) = (False, dv_user s)"
    and len: "length (dv_got s) \<le> length rs"
    using inv False by (simp_all add: deliver_inv_def)
  from step show ?thesis
  proof (cases rule: deliver_step.cases)
    case (dv_return r tot got got' q go_on u')
    from dv_return(2) rs have rs': "drop (length (dv_got s)) rs = r # dv_tasks s"
      by (simp add: current_record_def)
    then have len': "Suc (length (dv_got s)) \<le> length rs" by (metis Suc_leI drop_all list.distinct(1) not_less)
    have "deliver_all decide (zip (take (Suc (length (dv_got s))) rs) (dv_got s @ [got'])) (False, u0) =
        (if \<not> go_on then True else rr_last r, u')"
      using deliver_return_all [OF rs' refl, of decide got' "(False, u0)"] all dv_return(4) by simp
    moreover have "drop (Suc (length (dv_got s))) rs = dv_tasks s"
      using rs' by (metis drop_Suc list.sel(3) tl_drop)
    ultimately show ?thesis
      using sys len' dv_return(1) by (intro deliver_inv_returned) simp_all
  qed (use sys rs all len False in \<open>auto simp: deliver_inv_def current_record_def split: option.splits\<close>)
qed

lemma deliver_reach_inv:
  assumes "(deliver_step decide)\<^sup>*\<^sup>* (deliver_init chunks rs u) s"
    and "list_all2 fn_size (map rr_read rs) ns" and "\<forall>c \<in> set chunks. length c < 2 ^ 63"
    and "sum_list ns \<le> length (concat chunks)"
  shows "deliver_inv decide rs ns (concat chunks) u s"
  using assms(1)
proof (induction rule: rtranclp_induct)
  case base
  then show ?case by (rule deliver_inv_init [OF assms(2,3)])
next
  case (step s t)
  show ?case by (rule deliver_step_inv [OF step(2,3) assms(4)])
qed

lemma deliver_done_all:
  assumes inv: "deliver_inv decide rs ns body u0 s" and "deliver_done s"
  shows "(dv_stopped s, dv_user s) = deliver_all decide (zip rs (split_sizes ns body)) (False, u0)"
proof (cases "dv_stopped s")
  case True
  let ?k = "length (dv_got s)" and ?p = "split_sizes ns body"
  have "zip rs ?p = zip (take ?k rs) (take ?k ?p) @ zip (drop ?k rs) (drop ?k ?p)"
    by (metis append_take_drop_id take_zip drop_zip)
  moreover have "deliver_all decide (zip (take ?k rs) (take ?k ?p)) (False, u0) = (True, dv_user s)"
    using inv True by (simp add: deliver_inv_def)
  ultimately show ?thesis using True by (simp add: deliver_all_append)
next
  case False
  have "sy_out (sys_of s) = split_sizes ns body"
    using inv False assms(2) by (intro sys_done_out) (auto simp: deliver_inv_def deliver_done_def sys_done_def)
  moreover have "take (length (dv_got s)) rs = rs"
    using inv False assms(2) by (simp add: deliver_inv_def deliver_done_def current_record_def)
  ultimately show ?thesis using inv False by (simp add: deliver_inv_def)
qed

lemma deliver_progress:
  assumes inv: "deliver_inv decide rs ns body u0 s" and le: "sum_list ns \<le> length body" and "\<not> deliver_done s"
  shows "\<exists>t. deliver_step decide s t \<and> sys_measure (sys_of t) < sys_measure (sys_of s)"
proof (cases "dv_stopped s")
  case True
  with inv have cur: "dv_current s = None" by (simp add: deliver_inv_def)
  with assms(3) obtain r ts where ts: "dv_tasks s = r # ts" by (cases "dv_tasks s") (auto simp: deliver_done_def)
  show ?thesis
    by (rule exI, rule conjI, rule deliver_step.dv_skip [where decide = decide, OF cur ts True])
      (simp add: sys_measure_def ts)
next
  case False
  then have "sys_inv ns body (sys_of s)" using inv by (simp add: deliver_inv_def)
  moreover have "\<not> sys_done (sys_of s)" using assms(3) by (auto simp: deliver_done_def sys_done_def)
  ultimately obtain t where "sys_step (sys_of s) t" "sys_measure t < sys_measure (sys_of s)"
    using sys_progress le by blast
  with sys_step_deliver [OF _ False, of t decide] show ?thesis by blast
qed

lemma deliver_can_finish:
  assumes "deliver_inv decide rs ns body u0 s" and "sum_list ns \<le> length body"
  shows "\<exists>t. (deliver_step decide)\<^sup>*\<^sup>* s t \<and> deliver_done t"
  using assms(1)
proof (induction "sys_measure (sys_of s)" arbitrary: s rule: less_induct)
  case less
  show ?case
  proof (cases "deliver_done s")
    case False
    then obtain t where t: "deliver_step decide s t" "sys_measure (sys_of t) < sys_measure (sys_of s)"
      using deliver_progress [OF less.prems assms(2)] by blast
    moreover have "deliver_inv decide rs ns body u0 t" by (rule deliver_step_inv [OF t(1) less.prems assms(2)])
    ultimately show ?thesis using less.hyps by (meson converse_rtranclp_into_rtranclp)
  qed blast
qed

section \<open>The worker thread itself\<close>

lemma queue_after:
  assumes "\<forall>c \<in> set (ch # cs). length c < (m :: nat)" and "d < length ch"
  shows "\<exists>cs'. Some (drop d ch) # map Some cs @ [None] = map Some cs' @ [None] \<and>
    concat cs' = drop d ch @ concat cs \<and> (\<forall>c \<in> set cs'. length c < m)"
  using assms by (intro exI [of _ "drop d ch # cs"]) auto

lemma read_to_end_sized:
  assumes "fn_size f n" and "length got < n" and "n \<le> length got + length (concat cs)"
    and "\<forall>c \<in> set cs. length c < 2 ^ 63"
  shows "\<exists>cs'. read_to_end f (of_nat (length got)) got (map Some cs @ [None]) =
      Some (Inr (got @ take (n - length got) (concat cs), map Some cs' @ [None])) \<and>
    concat cs' = drop (n - length got) (concat cs) \<and> (\<forall>c \<in> set cs'. length c < 2 ^ 63)"
  using assms(2-)
proof (induction cs arbitrary: got)
  case Nil
  then show ?case by simp
next
  case (Cons ch cs)
  have "n < 2 ^ 63" "length ch < 2 ^ 63" using assms(1) Cons.prems(3) by (auto simp: fn_size_def)
  note step = sized_reader.chunk [OF fn_size_reader [OF assms(1)] this(1) Cons.prems(1) this(2),
      of got "map Some cs @ [None]"]
  show ?case
  proof (cases "length got + length ch < n")
    case True
    then have "read_to_end f (of_nat (length got)) got (map Some (ch # cs) @ [None]) =
        read_to_end f (of_nat (length (got @ ch))) (got @ ch) (map Some cs @ [None])"
      using step by (subst read_to_end.simps) auto
    with Cons.IH [of "got @ ch"] Cons.prems True show ?thesis by simp
  next
    case False
    then have run: "read_to_end f (of_nat (length got)) got (map Some (ch # cs) @ [None]) =
        Some (Inr (got @ take (n - length got) ch,
          if length got + length ch = n then map Some cs @ [None]
          else Some (drop (n - length got) ch) # map Some cs @ [None]))"
      using step Cons.prems(1) by (subst read_to_end.simps) auto
    show ?thesis
    proof (cases "length got + length ch = n")
      case True
      then show ?thesis using run Cons.prems(3) by (intro exI [of _ cs]) auto
    next
      case ne: False
      with False Cons.prems(1) have "n - length got < length ch" by linarith
      then show ?thesis using queue_after [OF Cons.prems(3), of "n - length got"] run ne by simp
    qed
  qed
qed

lemma run_inline_sized:
  assumes "list_all2 fn_size (map rr_read rs) ns" and "sum_list ns \<le> length (concat cs)"
    and "\<forall>c \<in> set cs. length c < 2 ^ 63"
  shows "\<exists>q. run_callbacks_inline (reading_callback decide) rs (stopped, u, map Some cs @ [None]) =
    Some (Inr (fst (deliver_all decide (zip rs (split_sizes ns (concat cs))) (stopped, u)),
               snd (deliver_all decide (zip rs (split_sizes ns (concat cs))) (stopped, u)), q))"
  using assms
proof (induction rs arbitrary: ns cs stopped u)
  case Nil
  then show ?case by simp
next
  case (Cons r rs)
  then obtain n ns' where ns: "ns = n # ns'" "fn_size (rr_read r) n" "list_all2 fn_size (map rr_read rs) ns'"
    by (cases ns) auto
  have "0 < n" using ns(2) by (simp add: fn_size_def)
  moreover have "n \<le> length (concat cs)" using Cons.prems(2) ns(1) by simp
  ultimately obtain cs' where cs': "read_to_end (rr_read r) 0 [] (map Some cs @ [None]) =
      Some (Inr (take n (concat cs), map Some cs' @ [None]))"
    "concat cs' = drop n (concat cs)" "\<forall>c \<in> set cs'. length c < 2 ^ 63"
    using read_to_end_sized [OF ns(2), of "[]" cs] Cons.prems(3) by auto
  obtain go_on u' where d: "decide r (take n (concat cs)) u = (go_on, u')" by fastforce
  have "sum_list ns' \<le> length (concat cs')" using Cons.prems(2) ns(1) cs'(2) by simp
  from Cons.IH [OF ns(3) this cs'(3), of "if \<not> go_on then True else rr_last r" u']
  show ?case by (simp add: ns(1) reading_callback_def cs' d)
qed

lemma read_to_end_single:
  assumes "\<forall>c \<in> set cs. c \<noteq> []"
  shows "read_to_end (Read_single False) 0 got (map Some cs @ [None]) = Some (Inr (got @ concat cs, []))"
  using assms
proof (induction cs arbitrary: got)
  case Nil
  show ?case
    by (subst read_to_end.simps) (simp add: read_iter_def read_iter_single_def take_front_single_def)
next
  case (Cons ch cs)
  then have "read_to_end (Read_single False) 0 got (map Some (ch # cs) @ [None]) =
      read_to_end (Read_single False) 0 (got @ ch) (map Some cs @ [None])"
    by (subst read_to_end.simps)
      (simp add: read_iter_def read_iter_single_def take_front_single_def append_chunk_def)
  with Cons show ?case by simp
qed

section \<open>Properties\<close>

text \<open>
  The callbacks of a batch run on the worker thread under any interleaving with the network
  have, when they are done, the effect and the answer that the worker thread gets when it runs
  them itself on the complete body.
\<close>

theorem threads_agree_with_inline:
  assumes "(deliver_step decide)\<^sup>*\<^sup>* (deliver_init chunks rs u) s" and "deliver_done s"
    and "list_all2 fn_size (map rr_read rs) ns" and "\<forall>c \<in> set chunks. length c < 2 ^ 63"
    and "sum_list ns \<le> length (concat chunks)"
  shows "\<exists>q. run_callbacks_inline (reading_callback decide) rs (False, u, map Some chunks @ [None]) =
    Some (Inr (dv_stopped s, dv_user s, q))"
  using run_inline_sized [OF assms(3,5,4), of decide False u]
    deliver_done_all [OF deliver_reach_inv [OF assms(1,3,4,5)] assms(2)]
  by (metis fst_conv snd_conv)

definition sample_record :: "nat \<Rightarrow> bool \<Rightarrow> readable_record" where
  "sample_record n last_one = \<lparr>rr_entry = ''e'', rr_timestamp = 0, rr_size = of_nat n, rr_last = last_one,
     rr_labels = [], rr_content_type = [], rr_read = Read_batched_v2 (of_nat n) False\<rparr>"

text \<open>A callback that keeps what it got, and goes on unless that is empty.\<close>

definition keep_all :: "string list verdict" where
  "keep_all r got u = (got \<noteq> [], u @ [got])"

theorem threads_agree_with_inline_witness:
  "\<exists>s :: string list delivery. deliver_done s \<and>
     (\<exists>q. run_callbacks_inline (reading_callback keep_all) [sample_record 1 False, sample_record 2 True]
        (False, [], map Some [''ab'', ''c''] @ [None]) = Some (Inr (dv_stopped s, dv_user s, q)))"
proof -
  let ?rs = "[sample_record 1 False, sample_record 2 True]" and ?cs = "[''ab'', ''c'']"
  have fn: "list_all2 fn_size (map rr_read ?rs) [1, 2]"
    by (simp add: fn_size_def sample_record_def)
  have "deliver_inv keep_all ?rs [1, 2] (concat ?cs) [] (deliver_init ?cs ?rs [])"
    by (rule deliver_inv_init [OF fn]) simp
  then obtain s where "(deliver_step keep_all)\<^sup>*\<^sup>* (deliver_init ?cs ?rs []) s" "deliver_done s"
    by (rule exE [OF deliver_can_finish]) auto
  from threads_agree_with_inline [OF this fn] this(2) show ?thesis by auto
qed

text \<open>
  Whatever the worker thread and the network have done so far, they can finish: the caller
  that waits for the last task is not stuck in any reachable state.
\<close>

theorem callbacks_can_finish:
  assumes "(deliver_step decide)\<^sup>*\<^sup>* (deliver_init chunks rs u) s"
    and "list_all2 fn_size (map rr_read rs) ns" and "\<forall>c \<in> set chunks. length c < 2 ^ 63"
    and "sum_list ns \<le> length (concat chunks)"
  shows "\<exists>t. (deliver_step decide)\<^sup>*\<^sup>* s t \<and> deliver_done t \<and>
    (dv_stopped t, dv_user t) = deliver_all decide (zip rs (split_sizes ns (concat chunks))) (False, u)"
proof -
  note inv = deliver_reach_inv [OF assms]
  obtain t where t: "(deliver_step decide)\<^sup>*\<^sup>* s t" "deliver_done t"
    using deliver_can_finish [OF inv assms(4)] by blast
  with assms(1) have "(deliver_step decide)\<^sup>*\<^sup>* (deliver_init chunks rs u) t" by simp
  from deliver_done_all [OF deliver_reach_inv [OF this assms(2-4)] t(2)] t show ?thesis by blast
qed

theorem callbacks_can_finish_witness:
  "\<exists>t. (deliver_step keep_all)\<^sup>*\<^sup>* (deliver_init [''ab'', ''c''] [sample_record 1 False, sample_record 2 True] []) t \<and>
     deliver_done t \<and> (dv_stopped t, dv_user t) = (True, [''a'', ''bc''])"
  using callbacks_can_finish [where decide = keep_all and chunks = "[''ab'', ''c'']" and u = "[]"
      and rs = "[sample_record 1 False, sample_record 2 True]" and ns = "[1, 2]", OF rtranclp.rtrancl_refl]
  by (simp add: fn_size_def sample_record_def keep_all_def)

text \<open>
  \<^verbatim>\<open>Read\<close> of one record: when the server answers 200 with a timestamp and a length, the
  callback is called once, with the metadata of the headers and with the whole body, whatever
  the chunks were; the result is what the check of the response says.
\<close>

theorem read_one_delivers_body:
  assumes "hl_stream lib (cl_transport (bk_client b))
      \<lparr>rq_method = GET, rq_path = add_api_prefix (bk_client b) (read_path (bk_path b) entry_name ts),
       rq_headers = [], rq_body = No_body\<rparr> (cl_net (bk_client b)) =
      Inr (\<lparr>hs_head = Some r, hs_chunks = chunks, hs_result = res\<rparr>, net)"
    and "hr_status r = 200" and "\<forall>c \<in> set chunks. c \<noteq> []"
    and "check_request lib res (bk_client b\<lparr>cl_net := net\<rparr>) = Inr (kOk, c)"
    and "parse_and_build_single_record False (normalize_headers (hr_headers r)) = Inr rec"
    and "decide rec (concat chunks) u = (go_on, u')"
  shows "read_one lib entry_name ts (reading_callback decide) (b, u) = Some (Inr (kOk, b\<lparr>bk_client := c\<rparr>, u'))"
proof -
  have feed: "feed (\<lambda>chunk (hs, data). (True, hs, data @ [Some chunk])) cs (hs, data) =
      (True, hs, data @ map Some cs)" for cs hs and data :: chunk_queue
    by (induction cs arbitrary: data) simp_all
  have "rr_read rec = Read_single False"
    using assms(5) by (auto simp: parse_and_build_single_record_def bind_throws_Inr_iff)
  with read_to_end_single [OF assms(3), of "[]"] assms(6)
  have cb: "reading_callback decide rec (u, map Some chunks @ [None]) = Some (Inr (go_on, u', []))"
    by (simp add: reading_callback_def)
  have rcv: "on_client (receive lib False (read_path (bk_path b) entry_name ts) []) b =
      Inr ((kOk, Some (normalize_headers (hr_headers r)), map Some chunks), b\<lparr>bk_client := c\<rparr>)"
    using assms(1,2,4) by (simp add: on_client_def receive_def http_get_stream_def feed)
  show ?thesis
    using cb assms(5) by (simp add: read_one_def read_record_def read_record_inline_def rcv
        build_records_v1_def map_result_def)
qed

definition one_record_reply :: http_response where
  "one_record_reply = \<lparr>hr_status = 200,
     hr_headers = [(''X-Reduct-Time'', ''5''), (''Content-Length'', ''3''), (''X-Reduct-Label-k'', ''v'')],
     hr_body = ''abc''\<rparr>"

lemma one_record_checked:
  "check_request (answering one_record_reply) (Http_response one_record_reply) (bk_client (sample_bucket None)) =
     Inr (kOk, bk_client (sample_bucket None))"
  by code_simp

lemma one_record_headers:
  "normalize_headers (hr_headers one_record_reply) =
     [(''x-reduct-time'', ''5''), (''content-length'', ''3''), (''x-reduct-label-k'', ''v'')]"
  by code_simp

lemma one_record_parsed:
  "parse_and_build_single_record False (normalize_headers (hr_headers one_record_reply)) =
     Inr \<lparr>rr_entry = [], rr_timestamp = 5000, rr_size = 3, rr_last = False, rr_labels = [(''k'', ''v'')],
       rr_content_type = [], rr_read = Read_single False\<rparr>"
proof -
  let ?hs = "[(''x-reduct-time'', ''5''), (''content-length'', ''3''), (''x-reduct-label-k'', ''v'')] :: headers"
  have "show_nat 5 = ''5''" "show_nat 3 = ''3''" by code_simp+
  then have n: "from_microseconds ''5'' = Inr 5000" "stoi 10 ''3'' = Inr 3"
    using from_microseconds_show [of 5] stoi_show_nat [of 3] by (simp_all add: time_of_us_def int64_id is_int64_def)
  have hs: "umap_get ?hs kHeaderTime = ''5''" "umap_get ?hs ''content-length'' = ''3''"
    "umap_get ?hs kHeaderLast = []" "umap_get ?hs ''content-type'' = []"
    "single_labels ?hs = [(''k'', ''v'')]"
    by code_simp+
  show ?thesis
    unfolding one_record_headers parse_and_build_single_record_def hs n by simp
qed

lemma bk_net: "bk_client (sample_bucket v)\<lparr>cl_net := ()\<rparr> = bk_client (sample_bucket v)"
  by (simp add: http_client.equality)

theorem read_one_delivers_body_witness:
  "read_one (answering one_record_reply) ''e'' None (reading_callback keep_all) (sample_bucket None, []) =
     Some (Inr (kOk, sample_bucket None, [''abc'']))"
proof -
  have "check_request (answering one_record_reply) (Http_response one_record_reply)
      (bk_client (sample_bucket None)\<lparr>cl_net := ()\<rparr>) = Inr (kOk, bk_client (sample_bucket None))"
    using one_record_checked by (simp only: bk_net)
  then have "read_one (answering one_record_reply) ''e'' None (reading_callback keep_all) (sample_bucket None, []) =
      Some (Inr (kOk, sample_bucket None\<lparr>bk_client := bk_client (sample_bucket None)\<rparr>, [''abc'']))"
    by - (rule read_one_delivers_body [OF _ _ _ _ one_record_parsed, where chunks = "[''abc'']"],
      simp_all add: answering_def one_record_reply_def keep_all_def)
  then show ?thesis by simp
qed

end
