(* ===== verification/Read_Threads.thy ===== *)
theory Read_Threads
  imports Callbacks
begin

text \<open>
  \<^verbatim>\<open>ReadRecord\<close> and \<^verbatim>\<open>ReadRecordV2\<close> called from a thread other than the worker (bucket.cc), with the
  worker thread that runs the tasks they queue: the caller goes through the response, marks the end
  of the queue and waits for the last task, or returns at once when the request failed. The tasks
  refer to variables of the caller's frame (the queue, its mutex, \<^verbatim>\<open>stopped\<close>, the callback); a step
  of the worker after the call has returned uses them when they are gone, which \<open>rc_dangling\<close>
  records. Tasks of other calls that wait before these only delay them and are left out. The tasks
  of a response are queued in one step: a worker that starts the first of them while the caller
  queues the rest finds nothing in \<open>data\<close> before the first chunk either, since the caller receives
  no chunk before its handler of the headers has returned.
\<close>

section \<open>The system\<close>

datatype call_phase =
    Sent
  | Streaming
  | Received error
  | Waiting error
  | Returned bool error
  | Terminated

record 'u read_call =
  rc_phase :: call_phase
  rc_chunks :: "string list"
  rc_future :: bool
  rc_d :: "'u delivery"
  rc_dangling :: bool

definition no_delivery :: "'u \<Rightarrow> 'u delivery" where
  "no_delivery u = \<lparr>dv_pending = [], dv_queue = [], dv_tasks = [], dv_current = None, dv_stopped = False,
     dv_user = u, dv_got = []\<rparr>"

definition call_init :: "'u \<Rightarrow> 'u read_call" where
  "call_init u = \<lparr>rc_phase = Sent, rc_chunks = [], rc_future = False, rc_d = no_delivery u, rc_dangling = False\<rparr>"

text \<open>One task per record; \<^verbatim>\<open>future\<close> is that of the last one.\<close>

definition queue_tasks :: "readable_record list \<Rightarrow> 'u read_call \<Rightarrow> 'u read_call" where
  "queue_tasks records s = s\<lparr>rc_d := rc_d s\<lparr>dv_tasks := records\<rparr>, rc_future := (records \<noteq> [])\<rparr>"

definition push_chunk :: "string option \<Rightarrow> 'u read_call \<Rightarrow> 'u read_call" where
  "push_chunk x s = s\<lparr>rc_d := rc_d s\<lparr>dv_queue := dv_queue (rc_d s) @ [x]\<rparr>\<rparr>"

definition has_returned :: "'u read_call \<Rightarrow> bool" where
  "has_returned s \<longleftrightarrow> (case rc_phase s of Returned stopped e \<Rightarrow> True | _ \<Rightarrow> False)"

text \<open>A response for which the handler of \<^verbatim>\<open>Get\<close> calls \<^verbatim>\<open>resp_callback\<close>.\<close>

definition handled :: "http_stream \<Rightarrow> http_response \<Rightarrow> bool" where
  "handled stream r \<longleftrightarrow> hs_head stream = Some r \<and> (hr_status r = 200 \<or> hr_status r = 0)"

text \<open>
  \<open>stream\<close> is what arrives, \<open>verdict\<close> what \<^verbatim>\<open>CheckRequest\<close> says of the result at its end; with \<open>head\<close>
  the answer is that of a HEAD request. What the handler throws ends the program.
\<close>

inductive call_step ::
  "'u verdict \<Rightarrow> (headers \<Rightarrow> readable_record list throws) \<Rightarrow> bool \<Rightarrow> http_stream \<Rightarrow> error \<Rightarrow>
   'u read_call \<Rightarrow> 'u read_call \<Rightarrow> bool"
  for decide build head stream verdict where
  call_headers:
    "rc_phase s = Sent \<Longrightarrow> \<not> head \<Longrightarrow> handled stream r \<Longrightarrow> build (normalize_headers (hr_headers r)) = Inr records \<Longrightarrow>
     call_step decide build head stream verdict s
       (queue_tasks records s\<lparr>rc_phase := Streaming, rc_chunks := hs_chunks stream\<rparr>)"
| call_throws:
    "rc_phase s = Sent \<Longrightarrow> \<not> head \<Longrightarrow> handled stream r \<Longrightarrow> build (normalize_headers (hr_headers r)) = Inl e \<Longrightarrow>
     call_step decide build head stream verdict s (s\<lparr>rc_phase := Terminated\<rparr>)"
| call_unhandled:
    "rc_phase s = Sent \<Longrightarrow> \<not> head \<Longrightarrow> \<not> (\<exists>r. handled stream r) \<Longrightarrow>
     call_step decide build head stream verdict s (s\<lparr>rc_phase := Received verdict\<rparr>)"
| call_chunk:
    "rc_phase s = Streaming \<Longrightarrow> rc_chunks s = ch # chunks \<Longrightarrow>
     call_step decide build head stream verdict s (push_chunk (Some ch) s\<lparr>rc_chunks := chunks\<rparr>)"
| call_end:
    "rc_phase s = Streaming \<Longrightarrow> rc_chunks s = [] \<Longrightarrow>
     call_step decide build head stream verdict s (s\<lparr>rc_phase := Received verdict\<rparr>)"
| call_head:
    "rc_phase s = Sent \<Longrightarrow> head \<Longrightarrow> \<not> is_error verdict \<Longrightarrow> hs_head stream = Some r \<Longrightarrow>
     build (normalize_headers (hr_headers r)) = Inr records \<Longrightarrow>
     call_step decide build head stream verdict s (queue_tasks records s\<lparr>rc_phase := Received verdict\<rparr>)"
| call_head_throws:
    "rc_phase s = Sent \<Longrightarrow> head \<Longrightarrow> \<not> is_error verdict \<Longrightarrow> hs_head stream = Some r \<Longrightarrow>
     build (normalize_headers (hr_headers r)) = Inl e \<Longrightarrow>
     call_step decide build head stream verdict s (s\<lparr>rc_phase := Terminated\<rparr>)"
| call_head_fails:
    "rc_phase s = Sent \<Longrightarrow> head \<Longrightarrow> is_error verdict \<Longrightarrow>
     call_step decide build head stream verdict s (s\<lparr>rc_phase := Received verdict\<rparr>)"
| call_mark:
    "rc_phase s = Received e \<Longrightarrow> \<not> is_error e \<Longrightarrow>
     call_step decide build head stream verdict s
       ((if head then s else push_chunk None s)\<lparr>rc_phase := Waiting e\<rparr>)"
| call_fails:
    "rc_phase s = Received e \<Longrightarrow> is_error e \<Longrightarrow>
     call_step decide build head stream verdict s (s\<lparr>rc_phase := Returned (dv_stopped (rc_d s)) e\<rparr>)"
| call_wait:
    "rc_phase s = Waiting e \<Longrightarrow> rc_future s \<longrightarrow> deliver_done (rc_d s) \<Longrightarrow>
     call_step decide build head stream verdict s (s\<lparr>rc_phase := Returned (dv_stopped (rc_d s)) e\<rparr>)"
| call_worker:
    "rc_phase s \<noteq> Terminated \<Longrightarrow> deliver_step decide (rc_d s) d \<Longrightarrow>
     call_step decide build head stream verdict s (s\<lparr>rc_d := d, rc_dangling := (rc_dangling s \<or> has_returned s)\<rparr>)"

inductive_cases call_stepE: "call_step decide build head stream verdict s t"

section \<open>The worker and the network, seen from the caller\<close>

text \<open>What has still to be put into the queue.\<close>

definition still_pending :: "'u read_call \<Rightarrow> chunk_queue" where
  "still_pending s =
     (case rc_phase s of
        Streaming \<Rightarrow> map Some (rc_chunks s) @ [None]
      | Received e \<Rightarrow> [None]
      | _ \<Rightarrow> [])"

definition abs_delivery :: "'u read_call \<Rightarrow> 'u delivery" where
  "abs_delivery s = rc_d s\<lparr>dv_pending := still_pending s\<rparr>"

lemma worker_step_lift:
  assumes "deliver_step decide d d'" and "dv_pending d = []"
  shows "dv_pending d' = [] \<and> deliver_step decide (d\<lparr>dv_pending := p\<rparr>) (d'\<lparr>dv_pending := p\<rparr>)"
  using assms(1)
proof (cases rule: deliver_step.cases)
  case (dv_skip r rs)
  with deliver_step.dv_skip [of "d\<lparr>dv_pending := p\<rparr>" r rs decide] assms(2) show ?thesis by (cases d) simp
next
  case (dv_start r rs)
  with deliver_step.dv_start [of "d\<lparr>dv_pending := p\<rparr>" r rs decide] assms(2) show ?thesis by (cases d) simp
next
  case (dv_again r tot got tot' got' q)
  with deliver_step.dv_again [of "d\<lparr>dv_pending := p\<rparr>" r tot got tot' got' q decide] assms(2) show ?thesis by (cases d) simp
next
  case (dv_return r tot got got' q go_on u')
  with deliver_step.dv_return [of "d\<lparr>dv_pending := p\<rparr>" r tot got got' q decide go_on u'] assms(2) show ?thesis by (cases d) simp
qed (use assms(2) in simp)

lemma deliver_done_stuck: "deliver_done d \<Longrightarrow> dv_pending d = [] \<Longrightarrow> \<not> deliver_step decide d d'"
  by (auto simp: deliver_done_def elim: deliver_stepE)

lemma deliver_done_pending [simp]: "deliver_done (d\<lparr>dv_pending := p\<rparr>) = deliver_done d"
  by (simp add: deliver_done_def)

lemma no_records_done:
  assumes "(deliver_step decide)\<^sup>*\<^sup>* (deliver_init chunks [] u) s"
  shows "deliver_done s"
  using assms
  by (induction rule: rtranclp_induct) (auto simp: deliver_init_def deliver_done_def elim: deliver_stepE)

section \<open>A call that is answered\<close>

text \<open>The response is handled, its headers are records, and the request does not fail.\<close>

definition answered ::
  "(headers \<Rightarrow> readable_record list throws) \<Rightarrow> http_stream \<Rightarrow> error \<Rightarrow> readable_record list \<Rightarrow> bool" where
  "answered build stream verdict records \<longleftrightarrow>
     (\<exists>r. handled stream r \<and> build (normalize_headers (hr_headers r)) = Inr records) \<and> \<not> is_error verdict"

definition call_inv ::
  "'u verdict \<Rightarrow> http_stream \<Rightarrow> error \<Rightarrow> readable_record list \<Rightarrow> 'u \<Rightarrow> 'u read_call \<Rightarrow> bool" where
  "call_inv decide stream verdict records u s \<longleftrightarrow>
     dv_pending (rc_d s) = [] \<and> \<not> rc_dangling s \<and>
     (case rc_phase s of
        Sent \<Rightarrow> s = call_init u
      | Streaming \<Rightarrow> True
      | Received e \<Rightarrow> e = verdict
      | Waiting e \<Rightarrow> e = verdict
      | Returned stopped e \<Rightarrow> e = verdict \<and> stopped = dv_stopped (rc_d s) \<and> deliver_done (rc_d s)
      | Terminated \<Rightarrow> False) \<and>
     (rc_phase s \<noteq> Sent \<longrightarrow>
        rc_future s = (records \<noteq> []) \<and>
        (deliver_step decide)\<^sup>*\<^sup>* (deliver_init (hs_chunks stream) records u) (abs_delivery s))"

lemma call_inv_init: "call_inv decide stream verdict records u (call_init u)"
  by (simp add: call_inv_def call_init_def no_delivery_def)

lemma still_pending_cong:
  "rc_phase t = rc_phase s \<Longrightarrow> rc_chunks t = rc_chunks s \<Longrightarrow> still_pending t = still_pending s"
  by (simp add: still_pending_def split: call_phase.split)

lemma abs_delivery_push:
  assumes "still_pending s = x # xs" and "rc_d t = rc_d s\<lparr>dv_queue := dv_queue (rc_d s) @ [x]\<rparr>"
    and "still_pending t = xs"
  shows "deliver_step decide (abs_delivery s) (abs_delivery t)"
proof -
  have "abs_delivery t = abs_delivery s\<lparr>dv_pending := xs, dv_queue := dv_queue (abs_delivery s) @ [x]\<rparr>"
    by (cases "rc_d s") (simp add: abs_delivery_def assms(2,3))
  then show ?thesis
    using deliver_step.dv_push [of "abs_delivery s" x xs decide] assms(1) by (simp add: abs_delivery_def)
qed

text \<open>A call whose last task is ready has delivered everything, and a step of the worker keeps the invariant.\<close>

lemma waiting_done:
  assumes "call_inv decide stream verdict records u s" and "rc_phase s = Waiting e"
    and "rc_future s \<longrightarrow> deliver_done (rc_d s)"
  shows "abs_delivery s = rc_d s" and "deliver_done (rc_d s)"
proof -
  note inv = assms(1) [unfolded call_inv_def]
  show abs: "abs_delivery s = rc_d s"
    using inv assms(2) by (cases "rc_d s"; simp add: abs_delivery_def still_pending_def)
  show "deliver_done (rc_d s)"
  proof (cases "records = []")
    case True
    with inv assms(2) have "(deliver_step decide)\<^sup>*\<^sup>* (deliver_init (hs_chunks stream) [] u) (rc_d s)"
      by (simp add: abs)
    then show ?thesis by (rule no_records_done)
  qed (use inv assms(2,3) in auto)
qed

lemma call_worker_inv:
  assumes "call_inv decide stream verdict records u s" and "deliver_step decide (rc_d s) d"
  shows "call_inv decide stream verdict records u (s\<lparr>rc_d := d, rc_dangling := (rc_dangling s \<or> has_returned s)\<rparr>)"
    (is "call_inv _ _ _ _ _ ?t")
proof -
  note inv = assms(1) [unfolded call_inv_def]
  have lift: "dv_pending d = []" "deliver_step decide (abs_delivery s) (abs_delivery ?t)"
    using worker_step_lift [OF assms(2), of "still_pending s"] inv still_pending_cong [of ?t s]
    by (simp_all add: abs_delivery_def)
  have "\<not> deliver_done (rc_d s)" using deliver_done_stuck [of "rc_d s"] assms(2) inv by blast
  then have running: "\<not> has_returned s" using inv by (auto simp: has_returned_def split: call_phase.splits)
  have "rc_phase s \<noteq> Sent"
    using inv assms(2) by (auto simp: call_init_def no_delivery_def elim: deliver_stepE)
  then show ?thesis
    using inv lift running
      rtranclp.rtrancl_into_rtrancl [of "deliver_step decide" "deliver_init (hs_chunks stream) records u"]
    by (auto simp: call_inv_def has_returned_def split: call_phase.splits)
qed

lemma call_step_inv:
  assumes "call_step decide build False stream verdict s t" and "call_inv decide stream verdict records u s"
    and "answered build stream verdict records"
  shows "call_inv decide stream verdict records u t"
proof -
  have handled: "handled stream r \<Longrightarrow> build (normalize_headers (hr_headers r)) = Inr records" for r
    using assms(3) by (auto simp: answered_def handled_def)
  have ok: "\<not> is_error verdict" and ex: "\<exists>r. handled stream r"
    using assms(3) by (auto simp: answered_def)
  note inv = assms(2) [unfolded call_inv_def]
  note step_to = rtranclp.rtrancl_into_rtrancl [of "deliver_step decide" "deliver_init (hs_chunks stream) records u"]
  from assms(1) show ?thesis
  proof (cases rule: call_step.cases)
    case (call_headers r records')
    then have "records' = records" "s = call_init u" using handled inv by auto
    then show ?thesis using call_headers(1)
      by (simp add: call_inv_def queue_tasks_def call_init_def no_delivery_def abs_delivery_def still_pending_def
          deliver_init_def)
  next
    case (call_chunk ch chunks)
    have "deliver_step decide (abs_delivery s) (abs_delivery t)"
      by (rule abs_delivery_push [where x = "Some ch" and xs = "map Some chunks @ [None]"])
        (use call_chunk in \<open>simp_all add: still_pending_def push_chunk_def\<close>)
    then show ?thesis using inv call_chunk step_to
      by (auto simp: call_inv_def push_chunk_def)
  next
    case call_end
    then have "abs_delivery t = abs_delivery s" by (simp add: abs_delivery_def still_pending_def)
    then show ?thesis using inv call_end by (simp add: call_inv_def)
  next
    case (call_mark e)
    have "deliver_step decide (abs_delivery s) (abs_delivery t)"
      by (rule abs_delivery_push [where x = None and xs = "[]"])
        (use call_mark in \<open>simp_all add: still_pending_def push_chunk_def\<close>)
    then show ?thesis using inv call_mark step_to
      by (auto simp: call_inv_def push_chunk_def)
  next
    case (call_wait e)
    note ready = waiting_done [OF assms(2) call_wait(2,3)]
    have "abs_delivery t = abs_delivery s"
      using call_wait by (simp add: abs_delivery_def still_pending_def)
    then show ?thesis using inv call_wait ready by (simp add: call_inv_def)
  next
    case (call_worker d)
    then show ?thesis using call_worker_inv [OF assms(2) call_worker(3)] by simp
  qed (use handled ok ex inv in \<open>auto\<close>)
qed

lemma call_reach_inv:
  assumes "(call_step decide build False stream verdict)\<^sup>*\<^sup>* (call_init u) s"
    and "answered build stream verdict records"
  shows "call_inv decide stream verdict records u s"
  using assms(1)
  by (induction rule: rtranclp_induct) (auto intro: call_inv_init call_step_inv [OF _ _ assms(2)])

section \<open>It returns\<close>

lemma chunks_arrive:
  assumes "rc_phase s = Streaming"
  shows "\<exists>q. (call_step decide build head stream verdict)\<^sup>*\<^sup>* s
    (s\<lparr>rc_phase := Received verdict, rc_chunks := [], rc_d := rc_d s\<lparr>dv_queue := q\<rparr>\<rparr>)"
  using assms
proof (induction "rc_chunks s" arbitrary: s)
  case Nil
  from call_end [OF Nil(2) Nil(1) [symmetric], of decide build head stream verdict] Nil(1)
  show ?case by (intro exI [of _ "dv_queue (rc_d s)"] r_into_rtranclp) (cases s; simp)
next
  case (Cons ch chunks)
  let ?s = "push_chunk (Some ch) s\<lparr>rc_chunks := chunks\<rparr>"
  have step: "call_step decide build head stream verdict s ?s"
    by (rule call_chunk [OF Cons(3) Cons(2) [symmetric]])
  have "chunks = rc_chunks ?s" "rc_phase ?s = Streaming" using Cons(3) by (simp_all add: push_chunk_def)
  from Cons(1) [OF this] obtain q where "(call_step decide build head stream verdict)\<^sup>*\<^sup>* ?s
      (?s\<lparr>rc_phase := Received verdict, rc_chunks := [], rc_d := rc_d ?s\<lparr>dv_queue := q\<rparr>\<rparr>)" by blast
  with step have "(call_step decide build head stream verdict)\<^sup>*\<^sup>* s
      (?s\<lparr>rc_phase := Received verdict, rc_chunks := [], rc_d := rc_d ?s\<lparr>dv_queue := q\<rparr>\<rparr>)"
    by (rule converse_rtranclp_into_rtranclp)
  then show ?case by (intro exI [of _ q]) (cases s; simp add: push_chunk_def)
qed

lemma worker_runs:
  assumes "(deliver_step decide)\<^sup>*\<^sup>* d d'" and "dv_pending d = []" and "rc_d s = d" and "rc_phase s \<noteq> Terminated"
  shows "\<exists>t. (call_step decide build head stream verdict)\<^sup>*\<^sup>* s t \<and> rc_d t = d' \<and> rc_phase t = rc_phase s"
  using assms
proof (induction arbitrary: s rule: converse_rtranclp_induct)
  case base
  then show ?case by blast
next
  case (step d d1)
  let ?s = "s\<lparr>rc_d := d1, rc_dangling := (rc_dangling s \<or> has_returned s)\<rparr>"
  have "call_step decide build head stream verdict s ?s"
    using step.hyps(1) step.prems by (intro call_worker) simp_all
  moreover have "dv_pending d1 = []" using worker_step_lift [OF step.hyps(1) step.prems(1)] by simp
  ultimately show ?case using step.IH [of ?s] step.prems(3) by (auto intro: converse_rtranclp_into_rtranclp)
qed

text \<open>The rest of a call: it waits, it marks the end of the queue, it receives the chunks that are left.\<close>

lemma waiting_call_returns:
  assumes reach: "(call_step decide build False stream verdict)\<^sup>*\<^sup>* (call_init u) s"
    and answered: "answered build stream verdict records"
    and "list_all2 fn_size (map rr_read records) ns" and "\<forall>c \<in> set (hs_chunks stream). length c < 2 ^ 63"
    and "sum_list ns \<le> length (concat (hs_chunks stream))" and "rc_phase s = Waiting verdict"
  shows "\<exists>t stopped. (call_step decide build False stream verdict)\<^sup>*\<^sup>* s t \<and> rc_phase t = Returned stopped verdict"
proof -
  let ?step = "call_step decide build False stream verdict"
  from call_reach_inv [OF reach answered, unfolded call_inv_def] assms(6) have pend: "dv_pending (rc_d s) = []" and
    run: "(deliver_step decide)\<^sup>*\<^sup>* (deliver_init (hs_chunks stream) records u) (abs_delivery s)" by auto
  have abs: "abs_delivery s = rc_d s"
    using pend assms(6) by (cases "rc_d s") (simp add: abs_delivery_def still_pending_def)
  obtain d where d: "(deliver_step decide)\<^sup>*\<^sup>* (rc_d s) d" "deliver_done d"
    using deliver_can_finish [OF deliver_reach_inv [OF run assms(3-5)] assms(5)] unfolding abs by blast
  obtain t where t: "?step\<^sup>*\<^sup>* s t" "rc_d t = d" "rc_phase t = Waiting verdict"
    using worker_runs [OF d(1) pend refl, of build False stream verdict] assms(6) by auto
  have "?step t (t\<lparr>rc_phase := Returned (dv_stopped (rc_d t)) verdict\<rparr>)"
    using t d(2) by (intro call_wait) simp_all
  from rtranclp.rtrancl_into_rtrancl [OF t(1) this] show ?thesis
    by (intro exI conjI) (assumption, simp)
qed

lemma received_call_waits:
  assumes "rc_phase s = Received verdict" and "\<not> is_error verdict"
  shows "\<exists>t. (call_step decide build False stream verdict)\<^sup>*\<^sup>* s t \<and> rc_phase t = Waiting verdict"
  using call_mark [OF assms, of decide build False stream verdict]
  by (intro exI [of _ "push_chunk None s\<lparr>rc_phase := Waiting verdict\<rparr>"]) auto

lemma running_call_waits:
  assumes "answered build stream verdict records" and "rc_phase s = Sent \<or> rc_phase s = Streaming"
  shows "\<exists>t. (call_step decide build False stream verdict)\<^sup>*\<^sup>* s t \<and> rc_phase t = Waiting verdict"
proof -
  let ?step = "call_step decide build False stream verdict"
  obtain s' where s': "?step\<^sup>*\<^sup>* s s'" "rc_phase s' = Streaming"
  proof (cases "rc_phase s = Sent")
    case True
    obtain r where "handled stream r" "build (normalize_headers (hr_headers r)) = Inr records"
      using assms(1) by (auto simp: answered_def)
    with call_headers [of s False stream r build records decide verdict] True show thesis
      by (intro that [of "queue_tasks records s\<lparr>rc_phase := Streaming, rc_chunks := hs_chunks stream\<rparr>"]) auto
  qed (use assms(2) in auto)
  then obtain t where "?step\<^sup>*\<^sup>* s' t" "rc_phase t = Received verdict"
    using chunks_arrive [OF s'(2), of decide build False stream verdict] by fastforce
  with s'(1) received_call_waits [of t verdict decide build stream] assms(1) show ?thesis
    by (auto simp: answered_def intro: rtranclp_trans)
qed

lemma call_can_return:
  assumes reach: "(call_step decide build False stream verdict)\<^sup>*\<^sup>* (call_init u) s"
    and answered: "answered build stream verdict records"
    and "list_all2 fn_size (map rr_read records) ns" and "\<forall>c \<in> set (hs_chunks stream). length c < 2 ^ 63"
    and "sum_list ns \<le> length (concat (hs_chunks stream))"
  shows "\<exists>t stopped. (call_step decide build False stream verdict)\<^sup>*\<^sup>* s t \<and> rc_phase t = Returned stopped verdict"
proof -
  let ?step = "call_step decide build False stream verdict"
  note inv = call_reach_inv [OF reach answered, unfolded call_inv_def]
  have "(\<exists>stopped. rc_phase s = Returned stopped verdict) \<or> (\<exists>t. ?step\<^sup>*\<^sup>* s t \<and> rc_phase t = Waiting verdict)"
    using inv running_call_waits [OF answered, of s decide] received_call_waits [of s verdict decide build stream]
      answered
    by (cases "rc_phase s") (auto simp: answered_def)
  then show ?thesis
  proof (elim disjE exE conjE)
    fix t assume t: "?step\<^sup>*\<^sup>* s t" "rc_phase t = Waiting verdict"
    have "?step\<^sup>*\<^sup>* (call_init u) t" using reach t(1) by (rule rtranclp_trans)
    from waiting_call_returns [OF this assms(2-5) t(2)] t(1) show ?thesis by (auto intro: rtranclp_trans)
  qed auto
qed

text \<open>What a call that has returned has done.\<close>

lemma answered_call_result:
  assumes reach: "(call_step decide build False stream verdict)\<^sup>*\<^sup>* (call_init u) s"
    and answered: "answered build stream verdict records"
    and "list_all2 fn_size (map rr_read records) ns" and "\<forall>c \<in> set (hs_chunks stream). length c < 2 ^ 63"
    and "sum_list ns \<le> length (concat (hs_chunks stream))"
    and returned: "rc_phase s = Returned stopped e"
  shows "e = verdict \<and> (stopped, dv_user (rc_d s)) =
    deliver_all decide (zip records (split_sizes ns (concat (hs_chunks stream)))) (False, u)"
proof -
  note inv = call_reach_inv [OF reach answered, unfolded call_inv_def]
  have run: "(deliver_step decide)\<^sup>*\<^sup>* (deliver_init (hs_chunks stream) records u) (abs_delivery s)"
    using inv returned by simp
  have "deliver_done (abs_delivery s)" using inv returned by (simp add: abs_delivery_def)
  from deliver_done_all [OF deliver_reach_inv [OF run assms(3-5)] this] inv returned
  show ?thesis by (simp add: abs_delivery_def)
qed

section \<open>Properties\<close>

text \<open>
  C10: A call of \<^verbatim>\<open>ReadRecord\<close> from any thread, when the server answers with records and the request
  does not fail: in every reachable state no task has used a variable of a call that is over, the
  call can return, and when it has returned, its answer and the effect of the callbacks are those
  of the call that the worker thread makes itself, on the complete body.
\<close>

theorem answered_call_returns:
  assumes reach: "(call_step decide build False stream verdict)\<^sup>*\<^sup>* (call_init u) s"
    and answered: "answered build stream verdict records"
    and "list_all2 fn_size (map rr_read records) ns" and "\<forall>c \<in> set (hs_chunks stream). length c < 2 ^ 63"
    and "sum_list ns \<le> length (concat (hs_chunks stream))"
  shows "\<not> rc_dangling s \<and>
    (\<exists>t stopped. (call_step decide build False stream verdict)\<^sup>*\<^sup>* s t \<and> rc_phase t = Returned stopped verdict) \<and>
    (\<forall>stopped e. rc_phase s = Returned stopped e \<longrightarrow> e = verdict \<and>
       (\<exists>q. run_callbacks_inline (reading_callback decide) records
          (False, u, map Some (hs_chunks stream) @ [None]) = Some (Inr (stopped, dv_user (rc_d s), q))))"
proof -
  note inv = call_reach_inv [OF reach answered, unfolded call_inv_def]
  have "\<exists>q. run_callbacks_inline (reading_callback decide) records
      (False, u, map Some (hs_chunks stream) @ [None]) = Some (Inr (stopped, dv_user (rc_d s), q))"
    if "rc_phase s = Returned stopped e" for stopped e
    using run_inline_sized [OF assms(3,5,4), of decide False u]
    unfolding answered_call_result [OF assms that, THEN conjunct2, symmetric] by simp
  with inv call_can_return [OF assms] show ?thesis by auto
qed

text \<open>
  C25: When the request fails after its headers have arrived (the connection breaks in the body),
  the call returns the error while the tasks it has queued are still there: the worker can start
  one, which uses the variables of the call that is over.
\<close>

theorem failed_call_leaves_tasks:
  assumes "handled stream r" and "build (normalize_headers (hr_headers r)) = Inr (record # records)"
    and "is_error verdict"
  shows "\<exists>s. (call_step decide build False stream verdict)\<^sup>*\<^sup>* (call_init u) s \<and>
    rc_phase s = Returned False verdict \<and> rc_dangling s"
proof -
  let ?step = "call_step decide build False stream verdict"
  let ?s1 = "queue_tasks (record # records) (call_init u)\<lparr>rc_phase := Streaming, rc_chunks := hs_chunks stream\<rparr>"
  have "?step (call_init u) ?s1"
    using call_headers [of "call_init u" False stream r build "record # records" decide verdict] assms(1,2)
    by (simp add: call_init_def)
  moreover obtain q where "?step\<^sup>*\<^sup>* ?s1
      (?s1\<lparr>rc_phase := Received verdict, rc_chunks := [], rc_d := rc_d ?s1\<lparr>dv_queue := q\<rparr>\<rparr>)"
    using chunks_arrive [of ?s1 decide build False stream verdict] by auto
  moreover define s2 where
    "s2 = ?s1\<lparr>rc_phase := Received verdict, rc_chunks := [], rc_d := rc_d ?s1\<lparr>dv_queue := q\<rparr>\<rparr>"
  ultimately have reach: "?step\<^sup>*\<^sup>* (call_init u) s2" by (simp add: converse_rtranclp_into_rtranclp)
  have s2: "rc_phase s2 = Received verdict" "dv_tasks (rc_d s2) = record # records"
    "dv_current (rc_d s2) = None" "\<not> dv_stopped (rc_d s2)"
    by (simp_all add: s2_def queue_tasks_def call_init_def no_delivery_def)
  define s3 where "s3 = s2\<lparr>rc_phase := Returned (dv_stopped (rc_d s2)) verdict\<rparr>"
  have "?step s2 s3" unfolding s3_def by (rule call_fails [OF s2(1) assms(3)])
  with reach have reach3: "?step\<^sup>*\<^sup>* (call_init u) s3" by (rule rtranclp.rtrancl_into_rtrancl)
  have s3: "rc_phase s3 = Returned False verdict" "dv_tasks (rc_d s3) = record # records"
    "dv_current (rc_d s3) = None" "\<not> dv_stopped (rc_d s3)"
    using s2 by (simp_all add: s3_def)
  obtain d where "deliver_step decide (rc_d s3) d" using dv_start [OF s3(3,2,4), of decide] by blast
  from call_worker [OF _ this, of build False stream verdict] s3(1)
  have "?step s3 (s3\<lparr>rc_d := d, rc_dangling := True\<rparr>)" by (simp add: has_returned_def)
  with reach3 have "?step\<^sup>*\<^sup>* (call_init u) (s3\<lparr>rc_d := d, rc_dangling := True\<rparr>)"
    by (rule rtranclp.rtrancl_into_rtrancl)
  with s3(1) show ?thesis by (intro exI conjI) (assumption, simp_all)
qed

section \<open>Examples\<close>

definition two_records :: "headers \<Rightarrow> readable_record list throws" where
  "two_records hs = Inr [sample_record 1 False, sample_record 2 True]"

definition two_chunks :: "http_result \<Rightarrow> http_stream" where
  "two_chunks res = \<lparr>hs_head = Some \<lparr>hr_status = 200, hr_headers = [], hr_body = []\<rparr>, hs_chunks = [''ab'', ''c''],
     hs_result = res\<rparr>"

theorem failed_call_leaves_tasks_witness:
  "\<exists>s. (call_step keep_all two_records False (two_chunks (Transport_error ''reset'')) (mk_error (- 1) ''reset''))\<^sup>*\<^sup>*
      (call_init []) s \<and> rc_phase s = Returned False (mk_error (- 1) ''reset'') \<and> rc_dangling s"
  by (rule failed_call_leaves_tasks [where r = "\<lparr>hr_status = 200, hr_headers = [], hr_body = []\<rparr>"])
    (simp_all add: handled_def two_chunks_def two_records_def)

theorem answered_call_returns_witness:
  "\<exists>t stopped. (call_step keep_all two_records False
      (two_chunks (Http_response \<lparr>hr_status = 200, hr_headers = [], hr_body = []\<rparr>)) kOk)\<^sup>*\<^sup>* (call_init []) t \<and>
    rc_phase t = Returned stopped kOk"
proof -
  let ?stream = "two_chunks (Http_response \<lparr>hr_status = 200, hr_headers = [], hr_body = []\<rparr>)"
  have "answered two_records ?stream kOk [sample_record 1 False, sample_record 2 True]"
    by (auto simp: answered_def handled_def two_chunks_def two_records_def)
  from answered_call_returns [where decide = keep_all and u = "[]" and ns = "[1, 2]", OF rtranclp.rtrancl_refl this]
  show ?thesis by (simp add: fn_size_def sample_record_def two_chunks_def)
qed

end
