(* ===== verification/Worker.thy ===== *)
theory Worker
  imports Prelude
begin

text \<open>
  The worker thread of a \<^verbatim>\<open>Bucket\<close> and its end (bucket.cc, the constructor and the destructor). The
  thread tests \<^verbatim>\<open>stop_\<close>, waits for a task and runs it if it is valid; the destructor sets \<^verbatim>\<open>stop_\<close>,
  puts an empty task into the queue to wake the thread up, and joins it. The queue is that of one
  producer, for which it is first in, first out. \<open>'a\<close> are the tasks; an empty task is \<open>None\<close>.
\<close>

section \<open>The system\<close>

datatype 'a worker_at = Testing | Dequeuing | Running 'a | Exited

record 'a worker =
  wk_at :: "'a worker_at"
  wk_stop :: bool
  wk_queue :: "'a option list"
  wk_woken :: bool
  wk_submitted :: "'a list"
  wk_ran :: "'a list"

definition worker_init :: "'a worker" where
  "worker_init = \<lparr>wk_at = Testing, wk_stop = False, wk_queue = [], wk_woken = False, wk_submitted = [], wk_ran = []\<rparr>"

text \<open>The loop of the thread.\<close>

inductive worker_step :: "'a worker \<Rightarrow> 'a worker \<Rightarrow> bool" where
  wk_enter: "wk_at w = Testing \<Longrightarrow> \<not> wk_stop w \<Longrightarrow> worker_step w (w\<lparr>wk_at := Dequeuing\<rparr>)"
| wk_leave: "wk_at w = Testing \<Longrightarrow> wk_stop w \<Longrightarrow> worker_step w (w\<lparr>wk_at := Exited\<rparr>)"
| wk_take: "wk_at w = Dequeuing \<Longrightarrow> wk_queue w = Some t # q \<Longrightarrow>
    worker_step w (w\<lparr>wk_at := Running t, wk_queue := q\<rparr>)"
| wk_wake: "wk_at w = Dequeuing \<Longrightarrow> wk_queue w = None # q \<Longrightarrow>
    worker_step w (w\<lparr>wk_at := Testing, wk_queue := q\<rparr>)"
| wk_run: "wk_at w = Running t \<Longrightarrow> worker_step w (w\<lparr>wk_at := Testing, wk_ran := wk_ran w @ [t]\<rparr>)"

inductive_cases worker_stepE: "worker_step w w'"

text \<open>What the other threads do: the readers queue tasks, then the destructor runs.\<close>

inductive owner_step :: "'a worker \<Rightarrow> 'a worker \<Rightarrow> bool" where
  wk_submit: "\<not> wk_stop w \<Longrightarrow>
    owner_step w (w\<lparr>wk_queue := wk_queue w @ [Some t], wk_submitted := wk_submitted w @ [t]\<rparr>)"
| wk_set_stop: "\<not> wk_stop w \<Longrightarrow> owner_step w (w\<lparr>wk_stop := True\<rparr>)"
| wk_wake_up: "wk_stop w \<Longrightarrow> \<not> wk_woken w \<Longrightarrow>
    owner_step w (w\<lparr>wk_queue := wk_queue w @ [None], wk_woken := True\<rparr>)"

inductive_cases owner_stepE: "owner_step w w'"

definition bucket_thread_step :: "'a worker \<Rightarrow> 'a worker \<Rightarrow> bool" where
  "bucket_thread_step w w' \<longleftrightarrow> worker_step w w' \<or> owner_step w w'"

section \<open>Invariants\<close>

definition running :: "'a worker \<Rightarrow> 'a list" where
  "running w = (case wk_at w of Running t \<Rightarrow> [t] | _ \<Rightarrow> [])"

definition queued :: "'a worker \<Rightarrow> 'a list" where
  "queued w = List.map_filter id (wk_queue w)"

definition worker_inv :: "'a worker \<Rightarrow> bool" where
  "worker_inv w \<longleftrightarrow>
     wk_submitted w = wk_ran w @ running w @ queued w \<and>
     (wk_woken w \<longrightarrow> wk_stop w) \<and>
     (wk_at w = Exited \<longrightarrow> wk_stop w) \<and>
     (\<not> wk_woken w \<longrightarrow> None \<notin> set (wk_queue w)) \<and>
     (wk_woken w \<and> wk_at w = Dequeuing \<longrightarrow> None \<in> set (wk_queue w))"

lemma map_filter_id_append: "List.map_filter id (xs @ ys) = List.map_filter id xs @ List.map_filter id ys"
  by (induction xs) (auto simp: List.map_filter_simps split: option.splits)

lemma worker_inv_step: "bucket_thread_step w w' \<Longrightarrow> worker_inv w \<Longrightarrow> worker_inv w'"
  unfolding bucket_thread_step_def worker_inv_def running_def queued_def
  by (elim disjE worker_stepE owner_stepE)
    (auto simp: List.map_filter_simps map_filter_id_append split: worker_at.splits)

lemma worker_reach_inv:
  assumes "bucket_thread_step\<^sup>*\<^sup>* worker_init w" shows "worker_inv w"
  using assms
proof (induction rule: rtranclp_induct)
  case base
  then show ?case by (simp add: worker_inv_def worker_init_def running_def queued_def List.map_filter_simps)
qed (rule worker_inv_step)

text \<open>How far the thread is from its end, once \<^verbatim>\<open>stop_\<close> is set.\<close>

fun steps_left :: "'a worker_at \<Rightarrow> nat" where
  "steps_left Exited = 0"
| "steps_left Testing = 1"
| "steps_left (Running t) = 2"
| "steps_left Dequeuing = 3"

fun tasks_left :: "'a worker_at \<Rightarrow> nat" where
  "tasks_left (Running t) = 1"
| "tasks_left Dequeuing = 1"
| "tasks_left _ = 0"

lemma tasks_left_le: "tasks_left x \<le> 1"
  by (cases x) auto

lemma stopping_step:
  "worker_step w w' \<Longrightarrow> wk_stop w \<Longrightarrow>
     wk_stop w' \<and> wk_woken w' = wk_woken w \<and> steps_left (wk_at w') < steps_left (wk_at w) \<and>
     length (wk_ran w') + tasks_left (wk_at w') \<le> length (wk_ran w) + tasks_left (wk_at w)"
  by (elim worker_stepE) auto

lemma stopping_run:
  "(worker_step ^^ k) w w' \<Longrightarrow> wk_stop w \<Longrightarrow>
     wk_stop w' \<and> wk_woken w' = wk_woken w \<and> k + steps_left (wk_at w') \<le> steps_left (wk_at w) \<and>
     length (wk_ran w') + tasks_left (wk_at w') \<le> length (wk_ran w) + tasks_left (wk_at w)"
proof (induction k arbitrary: w')
  case (Suc k)
  then obtain v where v: "(worker_step ^^ k) w v" "worker_step v w'" by auto
  with Suc.IH [OF v(1) Suc.prems(2)] stopping_step [OF v(2)] show ?case by simp
qed simp

lemma worker_runs_reach:
  assumes "bucket_thread_step\<^sup>*\<^sup>* w0 w" and "(worker_step ^^ k) w w'"
  shows "bucket_thread_step\<^sup>*\<^sup>* w0 w'"
  using assms(2)
proof (induction k arbitrary: w')
  case 0
  then show ?case using assms(1) by simp
next
  case (Suc k)
  then obtain v where "(worker_step ^^ k) w v" "bucket_thread_step v w'" by (auto simp: bucket_thread_step_def)
  with Suc.IH show ?case by (meson rtranclp.rtrancl_into_rtrancl)
qed

lemma woken_progress:
  assumes "worker_inv w" and "wk_woken w" and "wk_at w \<noteq> Exited"
  shows "\<exists>w'. worker_step w w'"
proof (cases "wk_at w")
  case Testing
  from wk_enter [OF this] wk_leave [OF this] show ?thesis by (cases "wk_stop w") auto
next
  case Dequeuing
  then obtain t q where "wk_queue w = t # q" using assms by (cases "wk_queue w") (auto simp: worker_inv_def)
  with wk_take [OF Dequeuing, of _ q] wk_wake [OF Dequeuing, of q] show ?thesis by (cases t) auto
next
  case (Running t)
  from wk_run [OF this] show ?thesis by (rule exI)
qed (use assms(3) in simp)

section \<open>Property\<close>

text \<open>
  C26: The worker thread runs the tasks one at a time, each once, in the order in which they were
  queued. After the destructor has woken it up, the thread ends: in any state that it then
  reaches it has ended or has a next step, and it makes at most three steps and runs at most one
  more task; the tasks that are still queued are never run.
\<close>

theorem worker_ends:
  assumes "bucket_thread_step\<^sup>*\<^sup>* worker_init w" and "wk_woken w" and "(worker_step ^^ k) w w'"
  shows "wk_submitted w' = wk_ran w' @ running w' @ queued w' \<and>
    (wk_at w' = Exited \<or> (\<exists>w''. worker_step w' w'')) \<and>
    k \<le> 3 \<and> length (wk_ran w') \<le> length (wk_ran w) + 1"
proof -
  have "wk_stop w" using worker_reach_inv [OF assms(1)] assms(2) by (simp add: worker_inv_def)
  from stopping_run [OF assms(3) this] have run: "wk_woken w'" "k + steps_left (wk_at w') \<le> steps_left (wk_at w)"
    "length (wk_ran w') + tasks_left (wk_at w') \<le> length (wk_ran w) + tasks_left (wk_at w)"
    using assms(2) by simp_all
  have inv: "worker_inv w'" by (rule worker_reach_inv [OF worker_runs_reach [OF assms(1,3)]])
  have "steps_left (wk_at w) \<le> 3" by (cases "wk_at w") auto
  with run inv woken_progress [OF inv run(1)] tasks_left_le [of "wk_at w"] show ?thesis
    by (auto simp: worker_inv_def)
qed

text \<open>The thread waits for a task when the bucket is destroyed, and one task comes before the empty one.\<close>

definition waiting_worker :: "nat worker" where
  "waiting_worker = \<lparr>wk_at = Dequeuing, wk_stop = True, wk_queue = [Some 7, None], wk_woken = True,
     wk_submitted = [7], wk_ran = []\<rparr>"

theorem worker_ends_witness:
  "\<exists>w'. worker_step waiting_worker w' \<and> wk_at w' = Running 7"
proof -
  let ?w0 = "worker_init :: nat worker"
  let ?w1 = "?w0\<lparr>wk_at := Dequeuing\<rparr>"
  let ?w2 = "?w1\<lparr>wk_queue := [Some 7], wk_submitted := [7]\<rparr>"
  let ?w3 = "?w2\<lparr>wk_stop := True\<rparr>"
  have steps: "bucket_thread_step ?w0 ?w1" "bucket_thread_step ?w1 ?w2" "bucket_thread_step ?w2 ?w3"
    "bucket_thread_step ?w3 waiting_worker"
    using wk_enter [of ?w0] wk_submit [of ?w1 7] wk_set_stop [of ?w2] wk_wake_up [of ?w3]
    by (simp_all add: bucket_thread_step_def worker_init_def waiting_worker_def)
  note step_on = rtranclp.rtrancl_into_rtrancl [of bucket_thread_step]
  have "bucket_thread_step\<^sup>*\<^sup>* worker_init waiting_worker"
    by (rule step_on [OF step_on [OF step_on [OF r_into_rtranclp [of bucket_thread_step, OF steps(1)] steps(2)] steps(3)] steps(4)])
  from worker_ends [OF this, of 0 waiting_worker] obtain w' where "worker_step waiting_worker w'"
    by (auto simp: waiting_worker_def)
  then show ?thesis by (intro exI [of _ w']) (auto simp: waiting_worker_def elim: worker_stepE)
qed

end
