(* ===== verification/Keeps.thy ===== *)
theory Keeps
  imports Effects
begin

text \<open>
  Preservation of a property of the state by code that reads and changes it: \<open>keeps P m\<close> says
  that \<open>m\<close>, when it returns, leaves \<open>P\<close> as it was. The rules \<open>keeps_intros\<close> follow the
  structure of the code.
\<close>

definition keeps :: "('s \<Rightarrow> bool) \<Rightarrow> ('s, 'a) io \<Rightarrow> bool" where
  "keeps P m \<longleftrightarrow> (\<forall>s x s'. P s \<longrightarrow> m s = Inr (x, s') \<longrightarrow> P s')"

named_theorems keeps_intros \<open>code that keeps a property\<close>

lemma keepsI: "(\<And>s x s'. P s \<Longrightarrow> m s = Inr (x, s') \<Longrightarrow> P s') \<Longrightarrow> keeps P m"
  by (auto simp: keeps_def)

lemma keepsD: "keeps P m \<Longrightarrow> m s = Inr (x, s') \<Longrightarrow> P s \<Longrightarrow> P s'"
  by (auto simp: keeps_def)

lemma keeps_ret [keeps_intros]: "keeps P (ret_io x)"
  by (simp add: keeps_def ret_io_def)

lemma keeps_throws [keeps_intros]: "keeps P (throws_io t)"
  by (auto simp: keeps_def throws_io_def bind_throws_Inr_iff)

lemma keeps_get [keeps_intros]: "keeps P (get_io f)"
  by (simp add: keeps_def get_io_def)

lemma keeps_bind [keeps_intros]:
  assumes "keeps P m" and "\<And>x. keeps P (f x)"
  shows "keeps P (bind_io m f)"
proof (rule keepsI)
  fix s y s' assume "P s" and "bind_io m f s = Inr (y, s')"
  then obtain x s1 where "m s = Inr (x, s1)" "f x s1 = Inr (y, s')" by (auto simp: bind_run)
  with \<open>P s\<close> show "P s'" by (blast intro: keepsD [OF assms(1)] keepsD [OF assms(2)])
qed

lemma keeps_if [keeps_intros]:
  "(b \<Longrightarrow> keeps P m) \<Longrightarrow> (\<not> b \<Longrightarrow> keeps P n) \<Longrightarrow> keeps P (if b then m else n)"
  by simp

lemma keeps_option [keeps_intros]:
  "keeps P m \<Longrightarrow> (\<And>x. keeps P (f x)) \<Longrightarrow> keeps P (case v of None \<Rightarrow> m | Some x \<Rightarrow> f x)"
  by (simp split: option.split)

lemma keeps_sum [keeps_intros]:
  "(\<And>e. keeps P (f e)) \<Longrightarrow> (\<And>x. keeps P (g x)) \<Longrightarrow> keeps P (case v of Inl e \<Rightarrow> f e | Inr x \<Rightarrow> g x)"
  by (simp split: sum.split)

lemma keeps_prod [keeps_intros]: "(\<And>x y. keeps P (f x y)) \<Longrightarrow> keeps P (case v of (x, y) \<Rightarrow> f x y)"
  by (simp split: prod.split)

lemma keeps_let [keeps_intros]: "(\<And>x. keeps P (f x)) \<Longrightarrow> keeps P (let x = v in f x)"
  by simp

text \<open>Code that may not return: the result is optional.\<close>

definition keeps_maybe :: "('s \<Rightarrow> bool) \<Rightarrow> ('s \<Rightarrow> ('a \<times> 's) throws option) \<Rightarrow> bool" where
  "keeps_maybe P m \<longleftrightarrow> (\<forall>s x s'. P s \<longrightarrow> m s = Some (Inr (x, s')) \<longrightarrow> P s')"

lemma keeps_maybeD: "keeps_maybe P m \<Longrightarrow> m s = Some (Inr (x, s')) \<Longrightarrow> P s \<Longrightarrow> P s'"
  by (auto simp: keeps_maybe_def)

text \<open>A call that returns, and changes the state so.\<close>

definition runs :: "('s, 'a) io \<Rightarrow> 's \<Rightarrow> 's \<Rightarrow> bool" where
  "runs m s s' \<longleftrightarrow> (\<exists>x. m s = Inr (x, s'))"

lemma keeps_runs: "runs m s s' \<Longrightarrow> keeps P m \<Longrightarrow> P s \<Longrightarrow> P s'"
  by (auto simp: runs_def keeps_def)

end
