(* ===== verification/Civil_Time.thy ===== *)
theory Civil_Time
  imports Cpp_Number
begin

text \<open>
  What the sources use of the C and C++ library on calendar times: \<^verbatim>\<open>timegm\<close> and \<^verbatim>\<open>gmtime\<close> (the
  proleptic Gregorian calendar, seconds since 1970), and the format \<^verbatim>\<open>%Y-%m-%dT%H:%M:%S\<close> of
  \<^verbatim>\<open>std::put_time\<close> and \<^verbatim>\<open>std::get_time\<close> (numbers with leading zeros permitted but not required, in
  the ranges of \<^verbatim>\<open>strptime\<close>; literal characters in either case; white space before the time is
  skipped, and what follows it is left in the stream).
\<close>

section \<open>The calendar\<close>

text \<open>\<^verbatim>\<open>std::tm\<close> with the year as it is written and months from 1.\<close>

record tm =
  tm_year :: int
  tm_mon :: int
  tm_mday :: int
  tm_hour :: int
  tm_min :: int
  tm_sec :: int

definition leap_year :: "int \<Rightarrow> bool" where
  "leap_year y \<longleftrightarrow> 4 dvd y \<and> (\<not> 100 dvd y \<or> 400 dvd y)"

text \<open>The days from 1970-01-01 to the first of January of a year.\<close>

definition year_start :: "int \<Rightarrow> int" where
  "year_start y = 365 * y + (y - 1) div 4 - (y - 1) div 100 + (y - 1) div 400 - 719527"

definition month_lengths :: "bool \<Rightarrow> int list" where
  "month_lengths leap = [31, if leap then 29 else 28, 31, 30, 31, 30, 31, 31, 30, 31, 30, 31]"

definition month_start :: "bool \<Rightarrow> nat \<Rightarrow> int" where
  "month_start leap m = sum_list (take m (month_lengths leap))"

definition timegm :: "tm \<Rightarrow> int" where
  "timegm t =
     (let days = year_start (tm_year t) + month_start (leap_year (tm_year t)) (nat (tm_mon t - 1)) + tm_mday t - 1
      in ((days * 24 + tm_hour t) * 60 + tm_min t) * 60 + tm_sec t)"

text \<open>The year of a day: an estimate by the mean length of a year, and a correction by one.\<close>

definition year_of_day :: "int \<Rightarrow> int" where
  "year_of_day d =
     (let y = (d + 719527) * 400 div 146097
      in if d < year_start y then y - 1 else if year_start (y + 1) \<le> d then y + 1 else y)"

fun split_month :: "nat \<Rightarrow> int list \<Rightarrow> int \<Rightarrow> nat \<times> int" where
  "split_month m [] n = (m, n)"
| "split_month m (l # ls) n = (if n < l then (m, n) else split_month (Suc m) ls (n - l))"

definition gmtime :: "int \<Rightarrow> tm" where
  "gmtime s =
     (let d = s div 86400; r = s mod 86400; y = year_of_day d;
          (m, dd) = split_month 1 (month_lengths (leap_year y)) (d - year_start y)
      in \<lparr>tm_year = y, tm_mon = int m, tm_mday = dd + 1,
          tm_hour = r div 3600, tm_min = r mod 3600 div 60, tm_sec = r mod 60\<rparr>)"

section \<open>Text\<close>

definition pad2 :: "int \<Rightarrow> string" where
  "pad2 n = [digit_char (nat (n div 10)), digit_char (nat (n mod 10))]"

definition put_time :: "tm \<Rightarrow> string" where
  "put_time t =
     show_int (tm_year t) @ ''-'' @ pad2 (tm_mon t) @ ''-'' @ pad2 (tm_mday t) @ ''T'' @
     pad2 (tm_hour t) @ '':'' @ pad2 (tm_min t) @ '':'' @ pad2 (tm_sec t)"

definition read_field :: "nat \<Rightarrow> nat \<Rightarrow> nat \<Rightarrow> string \<Rightarrow> (int \<times> string) option" where
  "read_field width lo hi s =
     (let ds = takeWhile cis_digit (take width s);
          n = read_digits 10 0 ds
      in if ds \<noteq> [] \<and> lo \<le> n \<and> n \<le> hi then Some (int n, drop (length ds) s) else None)"

definition read_literal :: "char \<Rightarrow> string \<Rightarrow> string option" where
  "read_literal c s = (case s of [] \<Rightarrow> None | x # xs \<Rightarrow> if cto_lower x = cto_lower c then Some xs else None)"

definition get_time :: "string \<Rightarrow> tm option" where
  "get_time s =
     Option.bind (read_field 4 0 9999 (skip_space s)) (\<lambda>(year, s).
     Option.bind (read_literal (CHR ''-'') s) (\<lambda>s.
     Option.bind (read_field 2 1 12 s) (\<lambda>(mon, s).
     Option.bind (read_literal (CHR ''-'') s) (\<lambda>s.
     Option.bind (read_field 2 1 31 s) (\<lambda>(mday, s).
     Option.bind (read_literal (CHR ''T'') s) (\<lambda>s.
     Option.bind (read_field 2 0 23 s) (\<lambda>(hour, s).
     Option.bind (read_literal (CHR '':'') s) (\<lambda>s.
     Option.bind (read_field 2 0 59 s) (\<lambda>(min, s).
     Option.bind (read_literal (CHR '':'') s) (\<lambda>s.
     Option.bind (read_field 2 0 60 s) (\<lambda>(sec, s).
       Some \<lparr>tm_year = year, tm_mon = mon, tm_mday = mday, tm_hour = hour, tm_min = min, tm_sec = sec\<rparr>)))))))))))"

section \<open>The calendar inverts\<close>

lemma div_bounds:
  fixes x k :: int
  assumes "0 < k"
  shows "k * (x div k) \<le> x" and "x < k * (x div k) + k"
  using assms mult_div_mod_eq [of k x] pos_mod_sign [of k x] pos_mod_bound [of k x] by linarith+

lemma div_step:
  fixes y k :: int
  assumes "0 < k"
  shows "y div k = (y - 1) div k + (if k dvd y then 1 else 0)"
proof -
  define q r where "q = (y - 1) div k" and "r = (y - 1) mod k"
  have y: "y = k * q + (r + 1)" and r: "0 \<le> r" "r < k"
    using assms mult_div_mod_eq [of k "y - 1"] by (simp_all add: q_def r_def)
  show ?thesis
  proof (cases "r + 1 = k")
    case True
    with y have "y = k * (q + 1)" by (simp add: distrib_left)
    then have "y div k = q + 1" "k dvd y" using assms by simp_all
    then show ?thesis by (simp add: q_def)
  next
    case False
    have "y div k = q" using y r False by (intro int_div_pos_eq [where r = "r + 1"]) auto
    moreover have "y mod k = r + 1" using y r False by (intro int_mod_pos_eq [where q = q]) auto
    then have "\<not> k dvd y" using r by (simp add: dvd_eq_mod_eq_0)
    ultimately show ?thesis by (simp add: q_def)
  qed
qed

lemma leap_cases:
  fixes a b c y n :: int
  assumes "Q \<Longrightarrow> P" and "R \<Longrightarrow> Q"
  shows "365 * (y + 1) + (a + (if P then 1 else 0)) - (b + (if Q then 1 else 0)) + (c + (if R then 1 else 0)) - n =
    365 * y + a - b + c - n + (if P \<and> (\<not> Q \<or> R) then 366 else 365)"
  using assms by (cases P; cases Q; cases R) simp_all

lemma year_start_step: "year_start (y + 1) = year_start y + (if leap_year y then 366 else 365)"
proof -
  have "100 dvd y \<Longrightarrow> 4 dvd y" "400 dvd y \<Longrightarrow> 100 dvd y"
    using dvd_trans [of 4 100 y] dvd_trans [of 100 400 y] by simp_all
  note leap_cases [OF this, where a = "(y - 1) div 4" and b = "(y - 1) div 100" and c = "(y - 1) div 400"
      and n = 719527 and y = y]
  moreover have "year_start (y + 1) = 365 * (y + 1) + y div 4 - y div 100 + y div 400 - 719527"
    unfolding year_start_def by (simp only: add_diff_cancel_right')
  moreover have "y div 4 = (y - 1) div 4 + (if 4 dvd y then 1 else 0)"
    "y div 100 = (y - 1) div 100 + (if 100 dvd y then 1 else 0)"
    "y div 400 = (y - 1) div 400 + (if 400 dvd y then 1 else 0)"
    by (rule div_step, simp)+
  ultimately show ?thesis unfolding year_start_def leap_year_def by (simp only:)
qed

lemma year_start_bounds:
  "146097 * y - 797 \<le> 400 * (year_start y + 719527)" "400 * (year_start y + 719527) \<le> 146097 * y + 299"
proof -
  define a b c where "a = (y - 1) div 4" and "b = (y - 1) div 100" and "c = (y - 1) div 400"
  have "4 * a \<le> y - 1" "y - 1 < 4 * a + 4" "100 * b \<le> y - 1" "y - 1 < 100 * b + 100"
    "400 * c \<le> y - 1" "y - 1 < 400 * c + 400"
    using div_bounds [of 4 "y - 1"] div_bounds [of 100 "y - 1"] div_bounds [of 400 "y - 1"]
    by (simp_all add: a_def b_def c_def)
  then show "146097 * y - 797 \<le> 400 * (year_start y + 719527)" "400 * (year_start y + 719527) \<le> 146097 * y + 299"
    unfolding year_start_def a_def [symmetric] b_def [symmetric] c_def [symmetric] by (simp_all add: algebra_simps)
qed

lemma year_of_day_spec: "year_start (year_of_day d) \<le> d \<and> d < year_start (year_of_day d + 1)"
proof -
  define y where "y = (d + 719527) * 400 div 146097"
  have "146097 * y \<le> (d + 719527) * 400" "(d + 719527) * 400 < 146097 * y + 146097"
    using div_bounds [of 146097 "(d + 719527) * 400"] by (simp_all add: y_def)
  moreover note year_start_bounds [of "y - 1"] year_start_bounds [of "y + 2"]
  ultimately have "year_start (y - 1) \<le> d" "d < year_start (y + 2)" by (simp_all add: algebra_simps)
  moreover have "year_of_day d = (if d < year_start y then y - 1 else if year_start (y + 1) \<le> d then y + 1 else y)"
    unfolding year_of_day_def y_def Let_def ..
  ultimately show ?thesis by (simp add: add.assoc)
qed

lemma split_month_spec:
  assumes "0 \<le> n" and "n < sum_list ls"
  shows "\<exists>k r. split_month m ls n = (m + k, r) \<and> k < length ls \<and> 0 \<le> r \<and> r < ls ! k \<and> n = sum_list (take k ls) + r"
  using assms
proof (induction ls arbitrary: m n)
  case (Cons l ls)
  show ?case
  proof (cases "n < l")
    case True
    then show ?thesis using Cons.prems by (intro exI [of _ 0] exI [of _ n]) simp
  next
    case False
    then obtain k r where "split_month (Suc m) ls (n - l) = (Suc m + k, r)" "k < length ls" "0 \<le> r" "r < ls ! k"
      "n - l = sum_list (take k ls) + r"
      using Cons.IH [of "n - l" "Suc m"] Cons.prems by auto
    with False show ?thesis by (intro exI [of _ "Suc k"] exI [of _ r]) simp
  qed
qed simp

lemma month_lengths_le: "k < 12 \<Longrightarrow> month_lengths leap ! k \<le> 31"
  by (auto simp: month_lengths_def less_Suc_eq numeral_eq_Suc)

text \<open>The hours, minutes and seconds of a day.\<close>

lemma time_of_day:
  fixes r :: int
  assumes "0 \<le> r" and "r < 86400"
  shows "0 \<le> r div 3600 \<and> r div 3600 \<le> 23 \<and> 0 \<le> r mod 3600 div 60 \<and> r mod 3600 div 60 \<le> 59 \<and>
    0 \<le> r mod 60 \<and> r mod 60 \<le> 59 \<and> 3600 * (r div 3600) + 60 * (r mod 3600 div 60) + r mod 60 = r"
proof -
  define a m s where "a = r div 3600" and "m = r mod 3600" and "s = r mod 60"
  define b where "b = m div 60"
  have "m mod 60 = s" unfolding m_def s_def by (rule mod_mod_cancel) simp
  with mult_div_mod_eq [of 60 m] have m: "m = 60 * b + s" by (simp only: b_def)
  from mult_div_mod_eq [of 3600 r] have r: "r = 3600 * a + m" by (simp only: a_def m_def)
  have "0 \<le> m" "m < 3600" "0 \<le> s" "s < 60" by (simp_all add: m_def s_def)
  with m r assms have "0 \<le> a \<and> a \<le> 23 \<and> 0 \<le> b \<and> b \<le> 59 \<and> 0 \<le> s \<and> s \<le> 59 \<and> 3600 * a + 60 * b + s = r"
    by linarith
  then show ?thesis unfolding a_def b_def m_def s_def .
qed

text \<open>The fields of a time that \<^verbatim>\<open>gmtime\<close> gives, and the way back.\<close>

definition tm_ok :: "tm \<Rightarrow> bool" where
  "tm_ok t \<longleftrightarrow> 1 \<le> tm_mon t \<and> tm_mon t \<le> 12 \<and> 1 \<le> tm_mday t \<and> tm_mday t \<le> 31 \<and> 0 \<le> tm_hour t \<and> tm_hour t \<le> 23 \<and>
     0 \<le> tm_min t \<and> tm_min t \<le> 59 \<and> 0 \<le> tm_sec t \<and> tm_sec t \<le> 59"

lemma gmtime_month:
  obtains k r where
    "split_month 1 (month_lengths (leap_year (year_of_day d))) (d - year_start (year_of_day d)) = (1 + k, r)"
    "k < 12" "0 \<le> r" "r < 31"
    "d = year_start (year_of_day d) + sum_list (take k (month_lengths (leap_year (year_of_day d)))) + r"
proof -
  define y where "y = year_of_day d"
  have y: "year_start y \<le> d" "d < year_start (y + 1)"
    using year_of_day_spec [of d] by (simp_all add: y_def)
  have "sum_list (month_lengths (leap_year y)) = (if leap_year y then 366 else 365)"
    by (simp add: month_lengths_def)
  with y have "0 \<le> d - year_start y" "d - year_start y < sum_list (month_lengths (leap_year y))"
    by (simp_all add: year_start_step)
  from split_month_spec [OF this, of 1] obtain k r where k:
    "split_month 1 (month_lengths (leap_year y)) (d - year_start y) = (1 + k, r)"
    "k < length (month_lengths (leap_year y))" "0 \<le> r" "r < month_lengths (leap_year y) ! k"
    "d - year_start y = sum_list (take k (month_lengths (leap_year y))) + r"
    by blast
  have "k < 12" using k(2) by (simp add: month_lengths_def)
  moreover from this have "r < 31" using k(4) month_lengths_le [of k "leap_year y"] by linarith
  moreover have "d = year_start y + sum_list (take k (month_lengths (leap_year y))) + r" using k(5) by linarith
  ultimately show thesis using k(1,3) unfolding y_def by (intro that)
qed

lemma gmtime_inverse: "timegm (gmtime s) = s \<and> tm_ok (gmtime s)"
proof -
  define d t where "d = s div 86400" and "t = s mod 86400"
  define y where "y = year_of_day d"
  define h mi se where "h = t div 3600" and "mi = t mod 3600 div 60" and "se = t mod 60"
  obtain k r where k: "split_month 1 (month_lengths (leap_year y)) (d - year_start y) = (1 + k, r)"
    "k < 12" "0 \<le> r" "r < 31" "d = year_start y + sum_list (take k (month_lengths (leap_year y))) + r"
    unfolding y_def by (rule gmtime_month)
  have gm: "gmtime s = \<lparr>tm_year = y, tm_mon = int (1 + k), tm_mday = r + 1, tm_hour = h, tm_min = mi, tm_sec = se\<rparr>"
    unfolding gmtime_def Let_def d_def [symmetric] t_def [symmetric] y_def [symmetric] h_def mi_def se_def k(1) by simp
  have s: "s = 86400 * d + t" unfolding d_def t_def by (rule mult_div_mod_eq [symmetric])
  have hms: "0 \<le> h \<and> h \<le> 23 \<and> 0 \<le> mi \<and> mi \<le> 59 \<and> 0 \<le> se \<and> se \<le> 59 \<and> 3600 * h + 60 * mi + se = t"
    unfolding h_def mi_def se_def t_def by (rule time_of_day) simp_all
  have "timegm (gmtime s) = ((d * 24 + h) * 60 + mi) * 60 + se"
    using k(5) by (simp add: gm timegm_def month_start_def)
  also have "\<dots> = s" using hms s by (simp add: algebra_simps)
  finally show ?thesis using k(2,3,4) hms by (simp add: gm tm_ok_def)
qed

text \<open>The times of the clock lie in four-digit years.\<close>

lemma gmtime_year:
  assumes "- 9223372036 \<le> s" and "s \<le> 9223372036"
  shows "1000 \<le> tm_year (gmtime s)" and "tm_year (gmtime s) \<le> 9999"
proof -
  have y: "tm_year (gmtime s) = year_of_day (s div 86400)"
    by (simp add: gmtime_def Let_def case_prod_unfold)
  have "- 106752 \<le> s div 86400" "s div 86400 \<le> 106752" using assms div_bounds [of 86400 s] by linarith+
  with year_of_day_spec [of "s div 86400"] year_start_bounds [of "year_of_day (s div 86400)"]
    year_start_bounds [of "year_of_day (s div 86400) + 1"]
  show "1000 \<le> tm_year (gmtime s)" "tm_year (gmtime s) \<le> 9999"
    unfolding y by (simp_all add: algebra_simps)
qed

section \<open>The text inverts\<close>

lemma read_field_pad2:
  assumes "0 \<le> n" and "int lo \<le> n" and "n \<le> int hi" and "n < 100"
  shows "read_field 2 lo hi (pad2 n @ rest) = Some (n, rest)"
proof -
  have d: "nat (n div 10) < 10" "nat (n mod 10) < 10" using assms(1,4) by auto
  have "read_digits 10 0 (pad2 n) = nat (n div 10) * 10 + nat (n mod 10)"
    using d by (simp add: pad2_def)
  also have "\<dots> = nat n" using assms(1) by (simp add: nat_div_distrib nat_mod_distrib)
  finally have "read_digits 10 0 (pad2 n) = nat n" .
  moreover have "takeWhile cis_digit (take 2 (pad2 n @ rest)) = pad2 n"
    using d by (simp add: pad2_def numeral_2_eq_2)
  moreover have "drop (length (pad2 n)) (pad2 n @ rest) = rest" "pad2 n \<noteq> []" by (simp_all add: pad2_def)
  ultimately show ?thesis using assms unfolding read_field_def Let_def by (simp only: nat_0_le) (simp add: le_nat_iff nat_le_iff)
qed

lemma length_show_nat4: "1000 \<le> n \<Longrightarrow> n < 10000 \<Longrightarrow> length (show_nat n) = 4"
proof -
  assume n: "1000 \<le> n" "n < 10000"
  have step: "length (show_nat m) = Suc (length (show_nat (m div 10)))" if "10 \<le> m" for m
    using that by (subst show_nat.simps) simp
  have "length (show_nat (n div 1000)) = 1" using n by (subst show_nat.simps) simp
  moreover have "length (show_nat n) = Suc (Suc (Suc (length (show_nat (n div 1000)))))"
    using step [of n] step [of "n div 10"] step [of "n div 100"] n by (simp add: div_mult2_eq [symmetric])
  ultimately show ?thesis by simp
qed

lemma read_field_year:
  assumes "1000 \<le> y" and "y \<le> 9999"
  shows "read_field 4 0 9999 (show_int y @ rest) = Some (y, rest)"
proof -
  have s: "show_int y = show_nat (nat y)" using assms(1) by (simp add: show_int_def)
  have len: "length (show_nat (nat y)) = 4" using assms by (intro length_show_nat4) auto
  then have "takeWhile cis_digit (take 4 (show_int y @ rest)) = show_nat (nat y)"
    unfolding s using show_nat_digits by (simp add: takeWhile_eq_all_conv)
  then show ?thesis
    using len s assms unfolding read_field_def Let_def by (simp only: read_digits_show_nat s) simp
qed

lemma get_put_time:
  assumes "tm_ok t" and "1000 \<le> tm_year t" and "tm_year t \<le> 9999"
  shows "get_time (put_time t @ rest) = Some t"
proof -
  obtain c cs where c: "show_nat (nat (tm_year t)) = c # cs" "cis_digit c" by (rule show_nat_hd)
  then have "skip_space (put_time t @ rest) = put_time t @ rest"
    using assms(2) by (simp add: put_time_def show_int_def digit_not_space_sign)
  moreover have lit: "read_literal c (c # s) = Some s" for c s by (simp add: read_literal_def)
  ultimately show ?thesis
    using assms read_field_pad2 [where rest = "[]"]
    by (simp add: get_time_def put_time_def read_field_year read_field_pad2 lit tm_ok_def)
qed

end
