(* ===== verification/Time_Parse.thy ===== *)
theory Time_Parse
  imports Civil_Time
begin

text \<open>
  ISO 8601 times: \<^verbatim>\<open>parse_iso8601_utc\<close> (internal/time_parse.h) and \<^verbatim>\<open>ToIso8601Utc\<close> (client.cc).
  A \<^verbatim>\<open>time_t\<close> counts seconds, a \<^verbatim>\<open>Time\<close> nanoseconds; a \<^verbatim>\<open>time_t\<close> that nanoseconds cannot hold
  wraps as it does on the targets.
\<close>

definition from_time_t :: "int \<Rightarrow> time" where
  "from_time_t s = int64 (s * 10 ^ 9)"

definition to_time_t :: "time \<Rightarrow> int" where
  "to_time_t t = trunc_div t (10 ^ 9)"

definition to_iso8601_utc :: "time \<Rightarrow> string" where
  "to_iso8601_utc t = put_time (gmtime (to_time_t t)) @ ''Z''"

text \<open>The last part: \<open>frac\<close> is what follows the point, cut or filled to six characters.\<close>

definition add_fraction :: "string \<Rightarrow> time \<Rightarrow> string \<Rightarrow> time throws" where
  "add_fraction iso_str parsed_time frac =
     (if frac = [] then Inl (Runtime_error (''Invalid fractional timestamp: '' @ iso_str))
      else
        let six = (if 6 < length frac then take 6 frac else frac @ replicate (6 - length frac) (CHR ''0''))
        in if \<exists>c \<in> set six. \<not> cis_digit c then Inl (Runtime_error (''Invalid fractional timestamp: '' @ iso_str))
           else bind_throws (stoll six) (\<lambda>us. Inr (int64 (parsed_time + us * 1000))))"

definition parse_iso8601_utc :: "string \<Rightarrow> time throws" where
  "parse_iso8601_utc iso_str =
     (if iso_str = [] \<or> last iso_str \<noteq> CHR ''Z'' \<and> last iso_str \<noteq> CHR ''z'' then
        Inl (Runtime_error (''Invalid timestamp (missing 'Z'): '' @ iso_str))
      else
        let clean = substr iso_str 0 (length iso_str - 1);
            dot_pos = find_char (CHR ''.'') clean;
            time_part = (case dot_pos of None \<Rightarrow> clean | Some p \<Rightarrow> substr clean 0 p)
        in case get_time time_part of
             None \<Rightarrow> Inl (Runtime_error (''Invalid timestamp format: '' @ iso_str))
           | Some t \<Rightarrow>
               if timegm t = - 1 then Inl (Runtime_error (''Invalid time value: '' @ iso_str))
               else case dot_pos of
                      None \<Rightarrow> Inr (from_time_t (timegm t))
                    | Some p \<Rightarrow> add_fraction iso_str (from_time_t (timegm t)) (substr_from clean (p + 1)))"

section \<open>Facts\<close>

lemma pad2_chars: "0 \<le> n \<Longrightarrow> n < 100 \<Longrightarrow> \<forall>c \<in> set (pad2 n). cis_digit c"
  by (simp add: pad2_def)

lemma put_time_no_dot:
  assumes "tm_ok t" and "1000 \<le> tm_year t"
  shows "CHR ''.'' \<notin> set (put_time t)"
proof -
  have nd: "\<not> cis_digit (CHR ''.'')" by (simp add: cis_digit_def code_of_def)
  have "CHR ''.'' \<notin> set (show_int (tm_year t))"
    using assms(2) show_nat_no_char [OF nd] by (simp add: show_int_def)
  moreover have "CHR ''.'' \<notin> set (pad2 n)" if "0 \<le> n" "n < 100" for n
    using pad2_chars [OF that] nd by blast
  ultimately show ?thesis using assms(1) by (simp add: put_time_def tm_ok_def)
qed

text \<open>The value of a fraction: its digits as millionths.\<close>

definition fraction_us :: "string \<Rightarrow> int" where
  "fraction_us ds = int (read_digits 10 0 (take 6 ds)) * 10 ^ (6 - length (take 6 ds))"

lemma read_digits_zeros: "read_digits 10 acc (replicate k (CHR ''0'')) = acc * 10 ^ k"
proof (induction k arbitrary: acc)
  case (Suc k)
  have "digit_value (CHR ''0'') = 0" by (simp add: digit_value_def cis_digit_def code_of_def)
  with Suc show ?case by simp
qed simp

lemma read_digits_bound: "\<forall>c \<in> set ds. cis_digit c \<Longrightarrow> read_digits 10 acc ds < (acc + 1) * 10 ^ length ds"
proof (induction ds arbitrary: acc)
  case (Cons d ds)
  have d: "digit_value d < 10" using Cons.prems by (simp add: digit_value_lt_10)
  then have "read_digits 10 acc (d # ds) < (acc * 10 + digit_value d + 1) * 10 ^ length ds"
    using Cons.IH [of "acc * 10 + digit_value d"] Cons.prems by simp
  also have "\<dots> \<le> ((acc + 1) * 10) * 10 ^ length ds" using d by (intro mult_right_mono) auto
  finally show ?case by (simp add: algebra_simps)
qed simp

lemma strto_digits:
  assumes "\<forall>c \<in> set ds. cis_digit c" and "ds \<noteq> []"
  shows "strto 10 ds = Some (False, read_digits 10 0 ds)"
proof -
  obtain c cs where "ds = c # cs" using assms(2) by (cases ds) auto
  with assms(1) show ?thesis by (simp add: strto_def digit_not_space_sign digit_value_lt_10)
qed

lemma add_fraction_digits:
  assumes "\<forall>c \<in> set (take 6 ds). cis_digit c" and "ds \<noteq> []"
  shows "add_fraction iso_str t ds = Inr (int64 (t + fraction_us ds * 1000))"
proof -
  let ?six = "take 6 ds @ replicate (6 - length (take 6 ds)) (CHR ''0'')"
  have six: "(if 6 < length ds then take 6 ds else ds @ replicate (6 - length ds) (CHR ''0'')) = ?six"
    by simp
  have digits: "\<forall>c \<in> set ?six. cis_digit c"
    using assms(1) by (auto simp: cis_digit_def code_of_def)
  have "read_digits 10 0 ?six = read_digits 10 0 (take 6 ds) * 10 ^ (6 - length (take 6 ds))"
    using assms(1) by (simp add: read_digits_append digit_value_lt_10 read_digits_zeros)
  then have us: "int (read_digits 10 0 ?six) = fraction_us ds" by (simp add: fraction_us_def)
  have "read_digits 10 0 ?six < 10 ^ 6"
    using read_digits_bound [OF digits, of 0] by simp
  then have "0 \<le> fraction_us ds" "fraction_us ds < 2 ^ 63" unfolding us [symmetric] by simp_all
  then have "stoll ?six = Inr (fraction_us ds)"
    using strto_digits [OF digits] assms(2) us by (auto simp: stoll_def signed_of_def is_int64_def)
  then show ?thesis
    using assms(2) digits unfolding add_fraction_def Let_def six by simp
qed

lemma time_range:
  assumes "is_int64 t"
  shows "- 9223372036 \<le> to_time_t t" "to_time_t t \<le> 9223372036" "is_int64 (to_time_t t * 10 ^ 9)"
proof -
  have "10 ^ 9 * (\<bar>t\<bar> div 10 ^ 9) \<le> \<bar>t\<bar>" by (rule div_bounds) simp
  moreover have "0 \<le> \<bar>t\<bar> div 10 ^ 9" by (simp add: pos_imp_zdiv_nonneg_iff)
  moreover have "\<bar>to_time_t t\<bar> = \<bar>t\<bar> div 10 ^ 9"
    using calculation(2) by (simp add: to_time_t_def trunc_div_def Let_def abs_if)
  moreover have "\<bar>t\<bar> \<le> 2 ^ 63" using assms by (auto simp: is_int64_def)
  ultimately have b: "10 ^ 9 * \<bar>to_time_t t\<bar> \<le> 9223372036854775808" by simp
  then show "- 9223372036 \<le> to_time_t t" "to_time_t t \<le> 9223372036" by (auto simp: abs_if split: if_splits)
  then show "is_int64 (to_time_t t * 10 ^ 9)" by (auto simp: is_int64_def)
qed

lemma parse_printed:
  assumes "is_int64 t" and "to_time_t t \<noteq> - 1"
  shows "parse_iso8601_utc (to_iso8601_utc t) = Inr (to_time_t t * 10 ^ 9)"
    and "\<forall>c \<in> set (take 6 ds). cis_digit c \<Longrightarrow> ds \<noteq> [] \<Longrightarrow>
      parse_iso8601_utc (put_time (gmtime (to_time_t t)) @ ''.'' @ ds @ ''Z'') =
        Inr (int64 (to_time_t t * 10 ^ 9 + fraction_us ds * 1000))"
    and "CHR ''.'' \<notin> set junk \<Longrightarrow>
      parse_iso8601_utc (put_time (gmtime (to_time_t t)) @ junk @ ''Z'') = Inr (to_time_t t * 10 ^ 9)"
proof -
  let ?tm = "gmtime (to_time_t t)"
  note range = time_range [OF assms(1)]
  note tm = gmtime_inverse [of "to_time_t t"]
  have year: "1000 \<le> tm_year ?tm" "tm_year ?tm \<le> 9999" using gmtime_year [OF range(1,2)] by simp_all
  have gt: "get_time (put_time ?tm @ rest) = Some ?tm" for rest using tm year by (intro get_put_time) simp_all
  have dot: "CHR ''.'' \<notin> set (put_time ?tm)" using tm year by (intro put_time_no_dot) simp_all
  have ft: "from_time_t (to_time_t t) = to_time_t t * 10 ^ 9" using range(3) by (simp add: from_time_t_def int64_id)
  show plain: "parse_iso8601_utc (put_time ?tm @ junk @ ''Z'') = Inr (to_time_t t * 10 ^ 9)"
    if "CHR ''.'' \<notin> set junk" for junk
    using that dot tm assms(2) gt [of junk]
    by (simp add: parse_iso8601_utc_def substr_def find_char_absent ft Let_def)
  from plain [of "[]"] show "parse_iso8601_utc (to_iso8601_utc t) = Inr (to_time_t t * 10 ^ 9)"
    by (simp add: to_iso8601_utc_def)
  assume ds: "\<forall>c \<in> set (take 6 ds). cis_digit c" "ds \<noteq> []"
  show "parse_iso8601_utc (put_time ?tm @ ''.'' @ ds @ ''Z'') =
      Inr (int64 (to_time_t t * 10 ^ 9 + fraction_us ds * 1000))"
    using find_char_first [OF dot, of ds] tm assms(2) add_fraction_digits [OF ds]
    using gt [of "[]"] by (simp add: parse_iso8601_utc_def substr_def substr_from_def ft Let_def)
qed

section \<open>Properties\<close>

text \<open>
  C37: A time that \<^verbatim>\<open>ToIso8601Utc\<close> prints is read back as its whole seconds, for every value of
  the clock but those of the second before 1970; with a fraction of up to six digits the
  microseconds are added to it.
\<close>

theorem iso_time_roundtrip:
  assumes "is_int64 t" and "to_time_t t \<noteq> - 1"
    and "ds \<noteq> []" and "length ds \<le> 6" and "\<forall>c \<in> set ds. cis_digit c"
  shows "parse_iso8601_utc (to_iso8601_utc t) = Inr (to_time_t t * 10 ^ 9) \<and>
    parse_iso8601_utc (put_time (gmtime (to_time_t t)) @ ''.'' @ ds @ ''Z'') =
      Inr (int64 (to_time_t t * 10 ^ 9 + int (read_digits 10 0 ds) * 10 ^ (6 - length ds) * 1000))"
  using parse_printed(1) [OF assms(1,2)] parse_printed(2) [OF assms(1,2), where ds = ds] assms(3-5) by (simp add: fraction_us_def)

theorem iso_time_roundtrip_witness:
  "parse_iso8601_utc (to_iso8601_utc 1700000000123456789) = Inr 1700000000000000000 \<and>
   parse_iso8601_utc (put_time (gmtime 1700000000) @ ''.25Z'') = Inr 1700000000250000000"
proof -
  have "to_time_t 1700000000123456789 = 1700000000" "read_digits 10 0 ''25'' = 25"
    by code_simp+
  moreover have "is_int64 1700000000123456789" by (simp add: is_int64_def)
  moreover have "\<forall>c \<in> set ''25''. cis_digit c" by code_simp
  ultimately show ?thesis
    using iso_time_roundtrip [of 1700000000123456789 "''25''"] by (simp add: int64_id is_int64_def)
qed

text \<open>
  The parser ignores what it does not expect: of the characters after the point it looks at the
  first six only, and what stands between the seconds and the last character, such as an offset
  from UTC, is dropped, without an error.
\<close>

theorem iso_junk_ignored:
  assumes "is_int64 t" and "to_time_t t \<noteq> - 1" and "length ds = 6" and "\<forall>c \<in> set ds. cis_digit c"
    and "CHR ''.'' \<notin> set offset"
  shows "parse_iso8601_utc (put_time (gmtime (to_time_t t)) @ ''.'' @ ds @ junk @ ''Z'') =
      parse_iso8601_utc (put_time (gmtime (to_time_t t)) @ ''.'' @ ds @ ''Z'') \<and>
    parse_iso8601_utc (put_time (gmtime (to_time_t t)) @ offset @ ''Z'') =
      parse_iso8601_utc (put_time (gmtime (to_time_t t)) @ ''Z'')"
proof -
  have "ds \<noteq> []" using assms(3) by auto
  with parse_printed(2) [OF assms(1,2), where ds = "ds @ junk"] parse_printed(2) [OF assms(1,2), where ds = ds] assms(3,4)
    parse_printed(3) [OF assms(1,2,5)] parse_printed(3) [OF assms(1,2), of "[]"]
  show ?thesis by (simp add: fraction_us_def)
qed

theorem iso_junk_ignored_witness:
  "parse_iso8601_utc (put_time (gmtime 0) @ ''.123456?Z'') = parse_iso8601_utc (put_time (gmtime 0) @ ''.123456Z'') \<and>
   parse_iso8601_utc (put_time (gmtime 0) @ ''+05:00Z'') = parse_iso8601_utc (put_time (gmtime 0) @ ''Z'')"
proof -
  have "to_time_t 0 = 0" "\<forall>c \<in> set ''123456''. cis_digit c" by code_simp+
  then show ?thesis
    using iso_junk_ignored [of 0 "''123456''" "''+05:00''" "''?''"] by (simp add: is_int64_def)
qed

text \<open>
  The last second before 1970 is a valid time that the parser rejects: its \<^verbatim>\<open>time_t\<close> is the
  value that \<^verbatim>\<open>timegm\<close> returns for an error. The library's own text of it cannot be read back.
\<close>

theorem second_before_epoch_rejected:
  "to_iso8601_utc (- 1000000000) = ''1969-12-31T23:59:59Z'' \<and>
   parse_iso8601_utc ''1969-12-31T23:59:59Z'' = Inl (Runtime_error ''Invalid time value: 1969-12-31T23:59:59Z'')"
  by code_simp

end
