(* ===== verification/Lifecycle.thy ===== *)
theory Lifecycle
  imports Serialisation Time_Parse
begin

text \<open>
  Lifecycle tasks of the server (client.h) and their JSON (the last functions of
  internal/serialisation.cc): the list of the tasks, the settings in both directions, and the
  full information.
\<close>

section \<open>The data\<close>

record lifecycle_info =
  li_name :: string
  li_type :: lifecycle_type
  li_mode :: lifecycle_mode
  li_is_provisioned :: bool
  li_is_running :: bool
  li_last_run :: "time option"

record lifecycle_settings =
  ls_type :: lifecycle_type
  ls_bucket :: string
  ls_entries :: "string list"
  ls_older_than :: string
  ls_interval :: "string option"
  ls_when :: "string option"
  ls_mode :: lifecycle_mode
  ls_processing_interval :: "string option"

record full_lifecycle_info =
  fl_info :: lifecycle_info
  fl_settings :: lifecycle_settings

definition no_lifecycle_info :: full_lifecycle_info where
  "no_lifecycle_info =
     \<lparr>fl_info = \<lparr>li_name = [], li_type = lt_kDelete, li_mode = lm_kEnabled, li_is_provisioned = False,
        li_is_running = False, li_last_run = None\<rparr>,
      fl_settings = \<lparr>ls_type = lt_kDelete, ls_bucket = [], ls_entries = [], ls_older_than = [], ls_interval = None,
        ls_when = None, ls_mode = lm_kEnabled, ls_processing_interval = None\<rparr>\<rparr>"

section \<open>Reading\<close>

text \<open>\<^verbatim>\<open>j.contains(k) ? parse(j.at(k)) : default\<close>.\<close>

definition parsed_or :: "'j json_ops \<Rightarrow> 'j \<Rightarrow> string \<Rightarrow> ('j \<Rightarrow> 'a throws) \<Rightarrow> 'a \<Rightarrow> 'a throws" where
  "parsed_or J j k parse dflt = (if j_contains J j k then bind_throws (j_at J j k) parse else Inr dflt)"

text \<open>A time as text.\<close>

definition get_iso_time :: "'j json_ops \<Rightarrow> 'j \<Rightarrow> time throws" where
  "get_iso_time J v = bind_throws (j_get_string J v) parse_iso8601_utc"

definition parse_lifecycle_info :: "'j json_ops \<Rightarrow> 'j \<Rightarrow> lifecycle_info throws" where
  "parse_lifecycle_info J lifecycle =
     bind_throws (at_string J lifecycle ''name'') (\<lambda>name.
     bind_throws (parsed_or J lifecycle ''type'' (parse_lifecycle_type J) lt_kDelete) (\<lambda>type.
     bind_throws (parsed_or J lifecycle ''mode'' (parse_lifecycle_mode J) lm_kEnabled) (\<lambda>mode.
     bind_throws (at_bool J lifecycle ''is_provisioned'') (\<lambda>is_provisioned.
     bind_throws (at_bool J lifecycle ''is_running'') (\<lambda>is_running.
     bind_throws (optional_at J lifecycle ''last_run'' (get_iso_time J)) (\<lambda>last_run.
       Inr \<lparr>li_name = name, li_type = type, li_mode = mode, li_is_provisioned = is_provisioned,
         li_is_running = is_running, li_last_run = last_run\<rparr>))))))"

definition parse_lifecycle_list :: "'j json_ops \<Rightarrow> 'j \<Rightarrow> lifecycle_info list result throws" where
  "parse_lifecycle_list J data =
     try_result []
       (bind_throws (j_at J data ''lifecycles'') (\<lambda>json_lifecycles.
        bind_throws
          (fold_throws (\<lambda>lifecycle acc.
             bind_throws (parse_lifecycle_info J lifecycle) (\<lambda>l. Inr (acc @ [l])))
             (j_elements J json_lifecycles) [])
          (\<lambda>lifecycle_list. Inr (ok_result lifecycle_list))))"

definition parse_lifecycle_settings :: "'j json_ops \<Rightarrow> 'j \<Rightarrow> lifecycle_settings throws" where
  "parse_lifecycle_settings J s =
     bind_throws (parsed_or J s ''type'' (parse_lifecycle_type J) lt_kDelete) (\<lambda>type.
     bind_throws (at_string J s ''bucket'') (\<lambda>bucket.
     bind_throws (at_strings J s ''entries'') (\<lambda>entries.
     bind_throws (at_string J s ''older_than'') (\<lambda>older_than.
     bind_throws (parsed_or J s ''mode'' (parse_lifecycle_mode J) lm_kEnabled) (\<lambda>mode.
     bind_throws (optional_at J s ''interval'' (j_get_string J)) (\<lambda>interval.
     bind_throws (optional_at J s ''when'' (j_dump J)) (\<lambda>when.
     bind_throws (optional_at J s ''processing_interval'' (j_get_string J)) (\<lambda>processing_interval.
       Inr \<lparr>ls_type = type, ls_bucket = bucket, ls_entries = entries, ls_older_than = older_than,
         ls_interval = interval, ls_when = when, ls_mode = mode,
         ls_processing_interval = processing_interval\<rparr>))))))))"

definition parse_full_lifecycle_info :: "'j json_ops \<Rightarrow> 'j \<Rightarrow> full_lifecycle_info result throws" where
  "parse_full_lifecycle_info J data =
     try_result no_lifecycle_info
       (bind_throws (bind_throws (j_at J data ''info'') (parse_lifecycle_info J)) (\<lambda>info.
        bind_throws (bind_throws (j_at J data ''settings'') (parse_lifecycle_settings J)) (\<lambda>settings.
          Inr (ok_result \<lparr>fl_info = info, fl_settings = settings\<rparr>))))"

section \<open>Writing\<close>

definition lifecycle_fields :: "'j json_ops \<Rightarrow> lifecycle_settings \<Rightarrow> 'j" where
  "lifecycle_fields J s =
     (let j1 = j_set J ''type'' (j_string J (lifecycle_type_to_string (ls_type s))) (j_null J);
          j2 = j_set J ''bucket'' (j_string J (ls_bucket s)) j1;
          j3 = j_set J ''entries'' (j_strings J (ls_entries s)) j2;
          j4 = j_set J ''older_than'' (j_string J (ls_older_than s)) j3;
          j5 = set_optional J ''interval'' (j_string J) (ls_interval s) j4;
          j6 = j_set J ''mode'' (j_string J (lifecycle_mode_to_string (ls_mode s))) j5
      in set_optional J ''processing_interval'' (j_string J) (ls_processing_interval s) j6)"

definition lifecycle_settings_to_json :: "'j json_ops \<Rightarrow> lifecycle_settings \<Rightarrow> 'j result throws" where
  "lifecycle_settings_to_json J s =
     (case ls_when s of
        None \<Rightarrow> Inr (ok_result (lifecycle_fields J s))
      | Some w \<Rightarrow>
          try_result (j_null J)
            (bind_throws (j_parse J w) (\<lambda>v. Inr (ok_result (j_set J ''when'' v (lifecycle_fields J s))))))"

section \<open>The round trip\<close>

context json_laws begin

lemma lifecycle_fields_read:
  "is_obj (lifecycle_fields J s)"
  "parsed_or J (lifecycle_fields J s) ''type'' (parse_lifecycle_type J) lt_kDelete = Inr (ls_type s)"
  "parsed_or J (lifecycle_fields J s) ''mode'' (parse_lifecycle_mode J) lm_kEnabled = Inr (ls_mode s)"
  "at_string J (lifecycle_fields J s) ''bucket'' = Inr (ls_bucket s)"
  "at_strings J (lifecycle_fields J s) ''entries'' = Inr (ls_entries s)"
  "at_string J (lifecycle_fields J s) ''older_than'' = Inr (ls_older_than s)"
  "optional_at J (lifecycle_fields J s) ''interval'' (j_get_string J) = Inr (ls_interval s)"
  "optional_at J (lifecycle_fields J s) ''processing_interval'' (j_get_string J) = Inr (ls_processing_interval s)"
  "\<not> j_contains J (lifecycle_fields J s) ''when''"
  by (simp_all add: lifecycle_fields_def Let_def built at_string_def at_strings_def parsed_or_def optional_at_def
      j_strings_def enum_texts [OF json_laws_axioms] split: option.split)

lemma set_other:
  assumes "is_obj j" and "k' \<noteq> k"
  shows "parsed_or J (j_set J k v j) k' p d = parsed_or J j k' p d"
    "at_string J (j_set J k v j) k' = at_string J j k'" "at_strings J (j_set J k v j) k' = at_strings J j k'"
    "optional_at J (j_set J k v j) k' g = optional_at J j k' g"
  using assms by (simp_all add: parsed_or_def at_string_def at_strings_def optional_at_def contains_set at_set)

lemma lifecycle_settings_back:
  assumes "\<And>w. ls_when s = Some w \<Longrightarrow> \<exists>v. j_parse J w = Inr v \<and> \<not> j_is_null J v \<and> j_dump J v = Inr w"
  shows "\<exists>j. lifecycle_settings_to_json J s = Inr (ok_result j) \<and> parse_lifecycle_settings J j = Inr s"
proof (cases "ls_when s")
  case None
  have "optional_at J (lifecycle_fields J s) ''when'' (j_dump J) = Inr None"
    using lifecycle_fields_read(9) by (simp add: optional_at_def)
  with None have "parse_lifecycle_settings J (lifecycle_fields J s) = Inr s"
    by (simp add: parse_lifecycle_settings_def lifecycle_fields_read)
  with None show ?thesis by (auto simp: lifecycle_settings_to_json_def)
next
  case (Some w)
  then obtain v where v: "j_parse J w = Inr v" "\<not> j_is_null J v" "j_dump J v = Inr w"
    using assms by blast
  let ?f = "lifecycle_fields J s"
  note other = set_other [OF lifecycle_fields_read(1) [of s]]
  have "optional_at J (j_set J ''when'' v ?f) ''when'' (j_dump J) = Inr (Some w)"
    using v by (simp add: optional_at_def contains_set at_set lifecycle_fields_read(1))
  with Some have "parse_lifecycle_settings J (j_set J ''when'' v ?f) = Inr s"
    by (simp add: parse_lifecycle_settings_def lifecycle_fields_read other)
  with Some v(1) show ?thesis by (auto simp: lifecycle_settings_to_json_def)
qed

end

text \<open>
  The settings of a lifecycle task survive the way to JSON and back, with a condition whose
  text is the one JSON prints.
\<close>

theorem lifecycle_settings_roundtrip:
  assumes "json_laws J obj"
    and "\<And>w. ls_when s = Some w \<Longrightarrow> \<exists>v. j_parse J w = Inr v \<and> \<not> j_is_null J v \<and> j_dump J v = Inr w"
  shows "\<exists>j. lifecycle_settings_to_json J s = Inr (ok_result j) \<and> parse_lifecycle_settings J j = Inr s"
  by (rule json_laws.lifecycle_settings_back [OF assms])

definition sample_lifecycle :: lifecycle_settings where
  "sample_lifecycle = \<lparr>ls_type = lt_kCompress, ls_bucket = ''b'', ls_entries = [''e''], ls_older_than = ''1d'',
     ls_interval = None, ls_when = Some ''1'', ls_mode = lm_kDryRun, ls_processing_interval = Some ''2h''\<rparr>"

theorem lifecycle_settings_roundtrip_witness:
  "\<exists>j. lifecycle_settings_to_json (value_json (\<lambda>s. Inr (JInt 1)) (\<lambda>j. Inr ''1'')) sample_lifecycle =
     Inr (ok_result j) \<and>
   parse_lifecycle_settings (value_json (\<lambda>s. Inr (JInt 1)) (\<lambda>j. Inr ''1'')) j = Inr sample_lifecycle"
  by (rule lifecycle_settings_roundtrip [OF value_json.json_laws_axioms])
    (simp add: sample_lifecycle_def value_json_def)

end
