(* ===== verification/Tokens.thy ===== *)
theory Tokens
  imports Lifecycle
begin

text \<open>
  Access tokens (client.h): the records and their JSON (\<^verbatim>\<open>ParseTokenInfo\<close> of
  internal/serialisation.cc, and the loop of \<^verbatim>\<open>GetTokenList\<close> of client.cc).
\<close>

record permissions =
  pm_full_access :: bool
  pm_read :: "string list"
  pm_write :: "string list"

record token =
  tk_name :: string
  tk_created_at :: time
  tk_is_provisioned :: bool
  tk_expires_at :: "time option"
  tk_ttl :: "u64 option"
  tk_last_access :: "time option"
  tk_ip_allowlist :: "string list"
  tk_is_expired :: bool

record full_token_info = token +
  ft_permissions :: permissions

record token_create_request =
  tr_permissions :: permissions
  tr_expires_at :: "time option"
  tr_ttl :: "u64 option"
  tr_ip_allowlist :: "string list"

definition no_permissions :: permissions where
  "no_permissions = \<lparr>pm_full_access = False, pm_read = [], pm_write = []\<rparr>"

definition no_token_info :: full_token_info where
  "no_token_info = \<lparr>tk_name = [], tk_created_at = 0, tk_is_provisioned = False, tk_expires_at = None, tk_ttl = None,
     tk_last_access = None, tk_ip_allowlist = [], tk_is_expired = False, ft_permissions = no_permissions\<rparr>"

definition parse_token :: "'j json_ops \<Rightarrow> 'j \<Rightarrow> token throws" where
  "parse_token J json =
     bind_throws (bind_throws (j_at J json ''created_at'') (get_iso_time J)) (\<lambda>created_at.
     bind_throws (optional_at J json ''expires_at'' (get_iso_time J)) (\<lambda>expires_at.
     bind_throws (optional_at J json ''last_access'' (get_iso_time J)) (\<lambda>last_access.
     bind_throws (optional_at J json ''ttl'' (j_get_u64 J)) (\<lambda>ttl.
     bind_throws (at_string J json ''name'') (\<lambda>name.
     bind_throws (j_value_bool J json ''is_provisioned'' False) (\<lambda>is_provisioned.
     bind_throws (j_value_strings J json ''ip_allowlist'' []) (\<lambda>ip_allowlist.
     bind_throws (j_value_bool J json ''is_expired'' False) (\<lambda>is_expired.
       Inr \<lparr>tk_name = name, tk_created_at = created_at, tk_is_provisioned = is_provisioned,
         tk_expires_at = expires_at, tk_ttl = ttl, tk_last_access = last_access,
         tk_ip_allowlist = ip_allowlist, tk_is_expired = is_expired\<rparr>))))))))"

definition parse_permissions :: "'j json_ops \<Rightarrow> 'j \<Rightarrow> permissions throws" where
  "parse_permissions J json =
     bind_throws (bind_throws (j_at J json ''permissions'') (\<lambda>p. at_bool J p ''full_access'')) (\<lambda>full_access.
     bind_throws (bind_throws (j_at J json ''permissions'') (\<lambda>p. at_strings J p ''read'')) (\<lambda>read.
     bind_throws (bind_throws (j_at J json ''permissions'') (\<lambda>p. at_strings J p ''write'')) (\<lambda>write.
       Inr \<lparr>pm_full_access = full_access, pm_read = read, pm_write = write\<rparr>)))"

text \<open>\<^verbatim>\<open>ParseTokenInfo\<close>; it does not catch what the conversions throw.\<close>

definition parse_token_info :: "'j json_ops \<Rightarrow> 'j \<Rightarrow> full_token_info result throws" where
  "parse_token_info J json =
     bind_throws (parse_token J json) (\<lambda>t.
     bind_throws (parse_permissions J json) (\<lambda>p.
       Inr (ok_result (token.extend t \<lparr>ft_permissions = p\<rparr>))))"

definition parse_token_list :: "'j json_ops \<Rightarrow> 'j \<Rightarrow> token list throws" where
  "parse_token_list J data =
     bind_throws (j_at J data ''tokens'') (\<lambda>json_tokens.
       fold_throws (\<lambda>token acc. bind_throws (parse_token J token) (\<lambda>t. Inr (acc @ [t])))
         (j_elements J json_tokens) [])"

end
