(* ===== verification/Client.thy ===== *)
theory Client
  imports Bucket_Base Tokens
begin

text \<open>
  \<^verbatim>\<open>class Client\<close> (client.cc), first part: its state, the information about the server and the
  buckets. A bucket that it returns has an HTTP client of its own, built with the same URL and
  options, which starts from the API version this client has learned. \<open>'n\<close> is the state of the
  network and of the server behind it.
\<close>

section \<open>State\<close>

record 'n client =
  cc_http :: "'n http_client"
  cc_url :: string
  cc_options :: http_options

definition build_client :: "string \<Rightarrow> http_options \<Rightarrow> 'n \<Rightarrow> 'n client" where
  "build_client url options net =
     \<lparr>cc_http = build_http_client url options net, cc_url = url, cc_options = options\<rparr>"

definition on_http :: "('n http_client, 'a) io \<Rightarrow> ('n client, 'a) io" where
  "on_http m c = bind_throws (m (cc_http c)) (\<lambda>(x, h). Inr (x, c\<lparr>cc_http := h\<rparr>))"

text \<open>
  The shape of most methods: a GET, its error returned as it is, the body parsed as JSON and read
  inside of a \<^verbatim>\<open>try\<close> block.
\<close>

definition get_json ::
  "'n httplib \<Rightarrow> 'j json_ops \<Rightarrow> string \<Rightarrow> 'a \<Rightarrow> ('j \<Rightarrow> 'a result throws) \<Rightarrow> ('n client, 'a result) io" where
  "get_json lib J path dflt f =
     bind_io (on_http (http_get lib path)) (\<lambda>r. throws_io (json_result J dflt f r))"

text \<open>The list of what \<open>parse\<close> reads from the items of an array.\<close>

definition parse_items :: "('j \<Rightarrow> 'a throws) \<Rightarrow> 'j list \<Rightarrow> 'a list throws" where
  "parse_items parse items =
     fold_throws (\<lambda>item acc. bind_throws (parse item) (\<lambda>x. Inr (acc @ [x]))) items []"

section \<open>Server information\<close>

record license =
  lc_licensee :: string
  lc_invoice :: string
  lc_expiry_date :: time
  lc_plan :: string
  lc_device_number :: u64
  lc_disk_quota :: u64
  lc_fingerprint :: string

record server_info =
  si_version :: string
  si_bucket_count :: u64
  si_usage :: u64
  si_uptime :: int
  si_oldest_record :: time
  si_latest_record :: time
  si_license :: "license option"
  si_defaults_bucket :: settings

definition no_server_info :: server_info where
  "no_server_info = \<lparr>si_version = [], si_bucket_count = 0, si_usage = 0, si_uptime = 0, si_oldest_record = 0,
     si_latest_record = 0, si_license = None, si_defaults_bucket = no_settings\<rparr>"

definition parse_license :: "'j json_ops \<Rightarrow> 'j \<Rightarrow> license throws" where
  "parse_license J license =
     bind_throws (at_string J license ''licensee'') (\<lambda>licensee.
     bind_throws (at_string J license ''invoice'') (\<lambda>invoice.
     bind_throws (at_string J license ''plan'') (\<lambda>plan.
     bind_throws (at_u64 J license ''device_number'') (\<lambda>device_number.
     bind_throws (at_u64 J license ''disk_quota'') (\<lambda>disk_quota.
     bind_throws (at_string J license ''fingerprint'') (\<lambda>fingerprint.
     bind_throws (bind_throws (j_at J license ''expiry_date'') (get_iso_time J)) (\<lambda>expiry_date.
       Inr \<lparr>lc_licensee = licensee, lc_invoice = invoice, lc_expiry_date = expiry_date, lc_plan = plan,
         lc_device_number = device_number, lc_disk_quota = disk_quota, lc_fingerprint = fingerprint\<rparr>)))))))"

definition parse_server_info :: "'j json_ops \<Rightarrow> 'j \<Rightarrow> server_info result throws" where
  "parse_server_info J data =
     bind_throws (j_at J data ''defaults'') (\<lambda>defaults.
     bind_throws (bind_throws (j_at J defaults ''bucket'') (parse_bucket_settings J)) (\<lambda>default_settings.
       if is_error (res_error default_settings) then
         Inr (err_result no_server_info (res_error default_settings))
       else
         bind_throws (at_string J data ''version'') (\<lambda>version.
         bind_throws (at_u64 J data ''bucket_count'') (\<lambda>bucket_count.
         bind_throws (at_u64 J data ''usage'') (\<lambda>usage.
         bind_throws (at_int J data ''uptime'') (\<lambda>uptime.
         bind_throws (at_time J data ''oldest_record'') (\<lambda>oldest.
         bind_throws (at_time J data ''latest_record'') (\<lambda>latest.
         bind_throws (optional_at J data ''license'' (parse_license J)) (\<lambda>license.
           Inr (ok_result \<lparr>si_version = version, si_bucket_count = bucket_count, si_usage = usage,
             si_uptime = uptime, si_oldest_record = oldest, si_latest_record = latest, si_license = license,
             si_defaults_bucket = res_value default_settings\<rparr>))))))))))"

definition get_info :: "'n httplib \<Rightarrow> 'j json_ops \<Rightarrow> ('n client, server_info result) io" where
  "get_info lib J = get_json lib J ''/info'' no_server_info (parse_server_info J)"

section \<open>Buckets\<close>

definition get_bucket_list :: "'n httplib \<Rightarrow> 'j json_ops \<Rightarrow> ('n client, bucket_info list result) io" where
  "get_bucket_list lib J =
     get_json lib J ''/list'' [] (\<lambda>data.
       bind_throws (j_at J data ''buckets'') (\<lambda>json_buckets.
       bind_throws (parse_items (parse_bucket_info J) (j_elements J json_buckets)) (\<lambda>bucket_list.
         Inr (ok_result bucket_list))))"

text \<open>\<^verbatim>\<open>IBucket::Build(url_, name, options_, client_->ApiVersion())\<close>.\<close>

definition bucket_of :: "string \<Rightarrow> 'n client \<Rightarrow> 'n bucket" where
  "bucket_of name c = build_bucket (cc_url c) name (cc_options c) (cl_api_version (cc_http c)) (cl_net (cc_http c))"

definition bucket_not_found :: "string \<Rightarrow> string" where
  "bucket_not_found name = ''Bucket '' @ [CHR 0x27] @ name @ [CHR 0x27] @ '' is not found''"

definition get_bucket :: "'n httplib \<Rightarrow> string \<Rightarrow> ('n client, 'n bucket option result) io" where
  "get_bucket lib name =
     bind_io (on_http (http_head lib (''/b/'' @ name) [])) (\<lambda>r.
       let err = res_error r
       in if is_error err then
            ret_io (err_result None
              (if err_code err = 404 then err\<lparr>err_message := bucket_not_found name\<rparr> else err))
          else bind_io (get_io (bucket_of name)) (\<lambda>b. ret_io (ok_result (Some b))))"

text \<open>Settings without a member are \<^verbatim>\<open>null\<close>; \<^verbatim>\<open>dump()\<close> is called outside of a \<^verbatim>\<open>try\<close> block.\<close>

definition settings_body :: "'j json_ops \<Rightarrow> settings \<Rightarrow> string throws" where
  "settings_body J settings =
     (let json_data = bucket_setting_to_json J settings
      in if j_is_null J json_data then Inr ''{}'' else j_dump J json_data)"

definition create_bucket ::
  "'n httplib \<Rightarrow> 'j json_ops \<Rightarrow> string \<Rightarrow> settings \<Rightarrow> ('n client, 'n bucket option result) io" where
  "create_bucket lib J name settings =
     bind_io (throws_io (settings_body J settings)) (\<lambda>body.
     bind_io (on_http (http_post lib (''/b/'' @ name) body ''application/json'')) (\<lambda>err.
       if is_error err then ret_io (err_result None err)
       else bind_io (get_io (bucket_of name)) (\<lambda>b. ret_io (ok_result (Some b)))))"

definition get_or_create_bucket ::
  "'n httplib \<Rightarrow> 'j json_ops \<Rightarrow> string \<Rightarrow> settings \<Rightarrow> ('n client, 'n bucket option result) io" where
  "get_or_create_bucket lib J name settings =
     bind_io (get_bucket lib name) (\<lambda>r.
       if err_code (res_error r) = 404 then create_bucket lib J name settings else ret_io r)"

section \<open>Properties\<close>

lemma on_http_head:
  "on_http (http_head lib path hs) c =
     bind_throws (hl_send lib (cl_transport (cc_http c))
         \<lparr>rq_method = HEAD, rq_path = add_api_prefix (cc_http c) (c_string path), rq_headers = hs,
          rq_body = No_body\<rparr> (cl_net (cc_http c)))
       (\<lambda>(res, net). bind_throws
          (checked lib [] (\<lambda>r. normalize_headers (hr_headers r)) res (cc_http c\<lparr>cl_net := net\<rparr>))
          (\<lambda>(r, h). Inr (r, c\<lparr>cc_http := h\<rparr>)))"
  by (simp add: on_http_def http_head_def bind_io_def send_def bind_throws_assoc case_prod_unfold)

text \<open>What \<^verbatim>\<open>GetOrCreateBucket\<close> does, by the answer to its HEAD request.\<close>

lemma get_or_create_run:
  assumes "on_http (http_head lib (''/b/'' @ name) []) c = Inr (r, c1)"
  shows "get_or_create_bucket lib J name settings c =
    (if \<not> is_error (res_error r) then Inr (ok_result (Some (bucket_of name c1)), c1)
     else if err_code (res_error r) = 404 then create_bucket lib J name settings c1
     else Inr (err_result None (res_error r), c1))"
proof (cases "is_error (res_error r)")
  case True
  then show ?thesis
    using assms by (cases "err_code (res_error r) = 404")
      (simp_all add: get_or_create_bucket_def get_bucket_def bind_io_def ret_io_def Let_def)
next
  case False
  then show ?thesis
    using assms by (simp add: get_or_create_bucket_def get_bucket_def bind_io_def ret_io_def get_io_def Let_def kOk_def)
qed

text \<open>
  C29: \<^verbatim>\<open>GetOrCreateBucket\<close> sends a request that creates the bucket exactly when the server answers
  404 to the HEAD request; a bucket that is there is returned without another request, and any
  other error is the result. The object that is returned names that bucket, talks to the URL
  of the client with its options, and starts from the version of the API that the client knows.
\<close>

theorem get_or_create_by_head:
  assumes "on_http (http_head lib (''/b/'' @ name) []) c = Inr (r, c1)"
    and "settings_body J settings = Inr body"
    and "on_http (http_post lib (''/b/'' @ name) body ''application/json'') c1 = Inr (err, c2)"
  shows "get_or_create_bucket lib J name settings c =
    (if \<not> is_error (res_error r) then Inr (ok_result (Some (bucket_of name c1)), c1)
     else if err_code (res_error r) \<noteq> 404 then Inr (err_result None (res_error r), c1)
     else if is_error err then Inr (err_result None err, c2)
     else Inr (ok_result (Some (bucket_of name c2)), c2))"
  using assms(2,3)
  by (simp add: get_or_create_run [OF assms(1)] create_bucket_def bind_io_def throws_io_def ret_io_def get_io_def)

definition a_client :: "unit client" where
  "a_client = build_client ''http://localhost:8383''
     \<lparr>ho_api_token = [], ho_ssl_verification = True, ho_connection_timeout = None, ho_request_timeout = None\<rparr> ()"

text \<open>A server that knows no bucket but accepts new ones.\<close>

definition creating_server :: "unit httplib" where
  "creating_server = (answering \<lparr>hr_status = 200, hr_headers = [], hr_body = []\<rparr>)
     \<lparr>hl_send := (\<lambda>tr rq net. Inr (Http_response
        \<lparr>hr_status = (if rq_method rq = HEAD then 404 else 200), hr_headers = [], hr_body = []\<rparr>, net))\<rparr>"

theorem get_or_create_by_head_witness:
  "get_or_create_bucket creating_server (value_json (\<lambda>s. Inr JNull) (\<lambda>j. Inr [])) ''x'' no_settings a_client =
     Inr (ok_result (Some (bucket_of ''x'' a_client)), a_client)"
proof -
  have head: "on_http (http_head creating_server (''/b/'' @ ''x'') []) a_client =
      Inr (err_result [] (mk_error 404 ''Unknown error''), a_client)"
    by code_simp
  have body: "settings_body (value_json (\<lambda>s. Inr JNull) (\<lambda>j. Inr [])) no_settings = Inr ''{}''"
    by code_simp
  have post: "on_http (http_post creating_server (''/b/'' @ ''x'') ''{}'' ''application/json'') a_client =
      Inr (kOk, a_client)"
    by code_simp
  show ?thesis using get_or_create_by_head [OF head body post] by (simp add: mk_error_def)
qed

end
