(* ===== verification/Client_Admin.thy ===== *)
theory Client_Admin
  imports Client
begin

text \<open>
  \<^verbatim>\<open>class Client\<close> (client.cc), second part: access tokens, replications and lifecycle tasks.
\<close>

section \<open>Shapes\<close>

text \<open>The error of a method that deletes what is at the path.\<close>

definition remove_at :: "'n httplib \<Rightarrow> string \<Rightarrow> ('n client, error) io" where
  "remove_at lib path = error_of (on_http (http_delete lib path []))"

text \<open>
  Settings through their serialisation, whose error ends the method, to a POST or a PUT;
  \<^verbatim>\<open>dump()\<close> is called outside of a \<^verbatim>\<open>try\<close> block.
\<close>

definition send_settings ::
  "'j json_ops \<Rightarrow> 'j result throws \<Rightarrow> (string \<Rightarrow> ('n client, error) io) \<Rightarrow> ('n client, error) io" where
  "send_settings J serialised request =
     bind_io (throws_io serialised) (\<lambda>r.
       if is_error (res_error r) then ret_io (res_error r)
       else bind_io (throws_io (j_dump J (res_value r))) request)"

text \<open>
  \<^verbatim>\<open>SetReplicationMode\<close> and \<^verbatim>\<open>SetLifecycleMode\<close>: the \<^verbatim>\<open>try\<close> block catches what the JSON library
  throws; \<^verbatim>\<open>Patch\<close> is \<^verbatim>\<open>noexcept\<close>, so nothing it throws reaches the handler.
\<close>

definition set_mode :: "'n httplib \<Rightarrow> 'j json_ops \<Rightarrow> string \<Rightarrow> string \<Rightarrow> ('n client, error) io" where
  "set_mode lib J path mode =
     bind_io (throws_io (try_result []
         (bind_throws (j_dump J (j_set J ''mode'' (j_string J mode) (j_null J))) (\<lambda>body. Inr (ok_result body)))))
       (\<lambda>r. if is_error (res_error r) then ret_io (res_error r)
            else error_of (on_http (http_patch lib path (res_value r) [(''Content-Type'', ''application/json'')])))"

text \<open>The \<^verbatim>\<open>value\<close> of the answer of the server.\<close>

definition token_value :: "'j json_ops \<Rightarrow> string result \<Rightarrow> string result throws" where
  "token_value J =
     json_result J [] (\<lambda>data. bind_throws (at_string J data ''value'') (\<lambda>v. Inr (ok_result v)))"

section \<open>Tokens\<close>

definition token_path :: "string \<Rightarrow> string" where "token_path name = ''/tokens/'' @ name"

definition get_token_list :: "'n httplib \<Rightarrow> 'j json_ops \<Rightarrow> ('n client, token list result) io" where
  "get_token_list lib J =
     get_json lib J ''/tokens'' [] (\<lambda>data.
       bind_throws (parse_token_list J data) (\<lambda>token_list. Inr (ok_result token_list)))"

definition get_token :: "'n httplib \<Rightarrow> 'j json_ops \<Rightarrow> string \<Rightarrow> ('n client, full_token_info result) io" where
  "get_token lib J name = get_json lib J (token_path name) no_token_info (parse_token_info J)"

definition me :: "'n httplib \<Rightarrow> 'j json_ops \<Rightarrow> ('n client, full_token_info result) io" where
  "me lib J = get_json lib J ''/me'' no_token_info (parse_token_info J)"

text \<open>The bodies of the request: the one of servers since 1.19, and the one of older servers.\<close>

definition set_permissions :: "'j json_ops \<Rightarrow> bool \<Rightarrow> string list \<Rightarrow> string list \<Rightarrow> 'j" where
  "set_permissions J full_access read write =
     j_set J ''write'' (j_strings J write)
    (j_set J ''read'' (j_strings J read)
    (j_set J ''full_access'' (j_bool J full_access) (j_null J)))"

definition token_body_v2 :: "'j json_ops \<Rightarrow> token_create_request \<Rightarrow> 'j" where
  "token_body_v2 J request =
     (let p = tr_permissions request;
          j1 = j_set J ''permissions'' (set_permissions J (pm_full_access p) (pm_read p) (pm_write p)) (j_null J);
          j2 = set_optional J ''expires_at'' (\<lambda>t. j_string J (to_iso8601_utc t)) (tr_expires_at request) j1;
          j3 = set_optional J ''ttl'' (j_u64 J) (tr_ttl request) j2
      in j_set J ''ip_allowlist'' (j_strings J (tr_ip_allowlist request)) j3)"

definition token_body_legacy :: "'j json_ops \<Rightarrow> permissions \<Rightarrow> 'j" where
  "token_body_legacy J p = set_permissions J (pm_full_access p) (pm_read p) (pm_write p)"

text \<open>
  The version of the server: the one learned, otherwise that of a GET of \<^verbatim>\<open>/info\<close>, whose error is
  the answer; and the test for the new body, where \<^verbatim>\<open>stoi\<close> may throw.
\<close>

definition learned_version :: "'n httplib \<Rightarrow> ('n client, string option result) io" where
  "learned_version lib =
     bind_io (on_http get_api_version) (\<lambda>v.
       if v \<noteq> None then ret_io (ok_result v)
       else bind_io (on_http (http_get lib ''/info'')) (\<lambda>r.
         if is_error (res_error r) then ret_io (err_result None (res_error r))
         else bind_io (on_http get_api_version) (\<lambda>v'. ret_io (ok_result v'))))"

definition supports_token_v2 :: "string option \<Rightarrow> bool throws" where
  "supports_token_v2 v = (case v of None \<Rightarrow> Inr False | Some version \<Rightarrow> is_compatible ''1.19'' version)"

text \<open>
  The new body is built from \<^verbatim>\<open>std::move\<close>d vectors, and the retry reads them again. What a vector
  holds after it was moved from is \<open>moved\<close>: the language leaves it open, and it is the vector
  itself when the JSON library copies it.
\<close>

definition moved_permissions :: "(string list \<Rightarrow> string list) \<Rightarrow> permissions \<Rightarrow> permissions" where
  "moved_permissions moved p = p\<lparr>pm_read := moved (pm_read p), pm_write := moved (pm_write p)\<rparr>"

definition create_token_request ::
  "'n httplib \<Rightarrow> 'j json_ops \<Rightarrow> (string list \<Rightarrow> string list) \<Rightarrow> string \<Rightarrow> token_create_request \<Rightarrow>
   ('n client, string result) io" where
  "create_token_request lib J moved name request =
     (let post = (\<lambda>body. on_http (post_with_response lib (token_path name) body ''application/json''))
      in bind_io (learned_version lib) (\<lambda>v.
           if is_error (res_error v) then ret_io (err_result [] (res_error v))
           else
             bind_io (throws_io (supports_token_v2 (res_value v))) (\<lambda>supports_v2.
             bind_io (throws_io (j_dump J
               (if supports_v2 then token_body_v2 J request else token_body_legacy J (tr_permissions request)))) (\<lambda>body.
             bind_io (post body) (\<lambda>r.
             bind_io
               (if is_error (res_error r) \<and> supports_v2 \<and> err_code (res_error r) = 422 then
                  bind_io (throws_io (j_dump J
                    (token_body_legacy J (moved_permissions moved (tr_permissions request))))) post
                else ret_io r)
               (\<lambda>r'. throws_io (token_value J r')))))))"

definition create_token ::
  "'n httplib \<Rightarrow> 'j json_ops \<Rightarrow> (string list \<Rightarrow> string list) \<Rightarrow> string \<Rightarrow> permissions \<Rightarrow>
   ('n client, string result) io" where
  "create_token lib J moved name permissions =
     create_token_request lib J moved name
       \<lparr>tr_permissions = permissions, tr_expires_at = None, tr_ttl = None, tr_ip_allowlist = []\<rparr>"

definition remove_token :: "'n httplib \<Rightarrow> string \<Rightarrow> ('n client, error) io" where
  "remove_token lib name = remove_at lib (token_path name)"

definition rotate_token :: "'n httplib \<Rightarrow> 'j json_ops \<Rightarrow> string \<Rightarrow> ('n client, string result) io" where
  "rotate_token lib J name =
     bind_io (on_http (post_with_response lib (token_path name @ ''/rotate'') ''{}'' ''application/json''))
       (\<lambda>r. throws_io (token_value J r))"

section \<open>Replications\<close>

definition replication_path :: "string \<Rightarrow> string" where "replication_path name = ''/replications/'' @ name"

definition get_replication_list :: "'n httplib \<Rightarrow> 'j json_ops \<Rightarrow> ('n client, replication_info list result) io" where
  "get_replication_list lib J = get_json lib J ''/replications'' [] (parse_replication_list J)"

definition get_replication :: "'n httplib \<Rightarrow> 'j json_ops \<Rightarrow> string \<Rightarrow> ('n client, full_replication_info result) io" where
  "get_replication lib J name =
     get_json lib J (replication_path name) no_replication_info (parse_full_replication_info J)"

definition create_replication ::
  "'n httplib \<Rightarrow> 'j json_ops \<Rightarrow> string \<Rightarrow> replication_settings \<Rightarrow> ('n client, error) io" where
  "create_replication lib J name settings =
     send_settings J (replication_settings_to_json J settings)
       (\<lambda>body. on_http (http_post lib (replication_path name) body ''application/json''))"

definition update_replication ::
  "'n httplib \<Rightarrow> 'j json_ops \<Rightarrow> string \<Rightarrow> replication_settings \<Rightarrow> ('n client, error) io" where
  "update_replication lib J name settings =
     send_settings J (replication_settings_to_json J settings)
       (\<lambda>body. on_http (http_put lib (replication_path name) body ''application/json''))"

definition set_replication_mode ::
  "'n httplib \<Rightarrow> 'j json_ops \<Rightarrow> string \<Rightarrow> replication_mode \<Rightarrow> ('n client, error) io" where
  "set_replication_mode lib J name mode =
     set_mode lib J (replication_path name @ ''/mode'') (replication_mode_to_string mode)"

definition remove_replication :: "'n httplib \<Rightarrow> string \<Rightarrow> ('n client, error) io" where
  "remove_replication lib name = remove_at lib (replication_path name)"

section \<open>Lifecycle tasks\<close>

definition lifecycle_path :: "string \<Rightarrow> string" where "lifecycle_path name = ''/lifecycles/'' @ name"

definition get_lifecycle_list :: "'n httplib \<Rightarrow> 'j json_ops \<Rightarrow> ('n client, lifecycle_info list result) io" where
  "get_lifecycle_list lib J = get_json lib J ''/lifecycles'' [] (parse_lifecycle_list J)"

definition get_lifecycle :: "'n httplib \<Rightarrow> 'j json_ops \<Rightarrow> string \<Rightarrow> ('n client, full_lifecycle_info result) io" where
  "get_lifecycle lib J name =
     get_json lib J (lifecycle_path name) no_lifecycle_info (parse_full_lifecycle_info J)"

definition create_lifecycle ::
  "'n httplib \<Rightarrow> 'j json_ops \<Rightarrow> string \<Rightarrow> lifecycle_settings \<Rightarrow> ('n client, error) io" where
  "create_lifecycle lib J name settings =
     send_settings J (lifecycle_settings_to_json J settings)
       (\<lambda>body. on_http (http_post lib (lifecycle_path name) body ''application/json''))"

definition update_lifecycle ::
  "'n httplib \<Rightarrow> 'j json_ops \<Rightarrow> string \<Rightarrow> lifecycle_settings \<Rightarrow> ('n client, error) io" where
  "update_lifecycle lib J name settings =
     send_settings J (lifecycle_settings_to_json J settings)
       (\<lambda>body. on_http (http_put lib (lifecycle_path name) body ''application/json''))"

definition set_lifecycle_mode ::
  "'n httplib \<Rightarrow> 'j json_ops \<Rightarrow> string \<Rightarrow> lifecycle_mode \<Rightarrow> ('n client, error) io" where
  "set_lifecycle_mode lib J name mode =
     set_mode lib J (lifecycle_path name @ ''/mode'') (lifecycle_mode_to_string mode)"

definition remove_lifecycle :: "'n httplib \<Rightarrow> string \<Rightarrow> ('n client, error) io" where
  "remove_lifecycle lib name = remove_at lib (lifecycle_path name)"

section \<open>Properties\<close>

lemma on_http_post:
  "on_http (post_with_response lib path body mime) c =
     bind_throws (hl_send lib (cl_transport (cc_http c))
         \<lparr>rq_method = POST, rq_path = add_api_prefix (cc_http c) (c_string path), rq_headers = [],
          rq_body = Body (c_string body) (c_string mime)\<rparr> (cl_net (cc_http c)))
       (\<lambda>(res, net). bind_throws (checked lib [] hr_body res (cc_http c\<lparr>cl_net := net\<rparr>))
          (\<lambda>(r, h). Inr (r, c\<lparr>cc_http := h\<rparr>)))"
  by (simp add: on_http_def post_with_response_def bind_io_def send_def bind_throws_assoc case_prod_unfold)

lemma checked_status:
  assumes "hr_status r \<noteq> 200" and "hr_status r \<noteq> 0"
  shows "\<exists>e. checked lib dflt f (Http_response r) h = Inr (err_result dflt e, h) \<and> err_code e = hr_status r"
  using assms
  by (cases "hl_find lib (hr_headers r) kHeaderError")
    (auto simp: checked_def check_request_def bind_io_def ret_io_def mk_error_def is_error_def)

lemma learned_known: "cl_api_version (cc_http c) = Some v \<Longrightarrow> learned_version lib c = Inr (ok_result (Some v), c)"
  by (simp add: learned_version_def bind_io_def on_http_def get_api_version_def get_io_def ret_io_def)

text \<open>
  C28: \<^verbatim>\<open>CreateToken\<close> against a server of 1.19 or later: an answer 422 to the new body leads to one
  more request, with the body for older servers, and the answer to that one is the result; any
  other failing status is the error, and no second request is sent.
\<close>

theorem create_token_falls_back:
  assumes "cl_api_version (cc_http c) = Some version" and "is_compatible ''1.19'' version = Inr True"
    and "j_dump J (token_body_v2 J request) = Inr body"
    and "j_dump J (token_body_legacy J (moved_permissions moved (tr_permissions request))) = Inr legacy"
    and "hl_send lib (cl_transport (cc_http c))
           \<lparr>rq_method = POST, rq_path = add_api_prefix (cc_http c) (c_string (token_path name)), rq_headers = [],
            rq_body = Body (c_string body) ''application/json''\<rparr> (cl_net (cc_http c)) = Inr (Http_response r, net)"
    and "hr_status r \<noteq> 200" and "hr_status r \<noteq> 0"
  shows "if hr_status r = 422 then
      create_token_request lib J moved name request c =
        bind_io (on_http (post_with_response lib (token_path name) legacy ''application/json''))
          (\<lambda>r'. throws_io (token_value J r')) (c\<lparr>cc_http := cc_http c\<lparr>cl_net := net\<rparr>\<rparr>)
    else \<exists>e. create_token_request lib J moved name request c =
        Inr (err_result [] e, c\<lparr>cc_http := cc_http c\<lparr>cl_net := net\<rparr>\<rparr>) \<and> err_code e = hr_status r"
proof -
  let ?c = "c\<lparr>cc_http := cc_http c\<lparr>cl_net := net\<rparr>\<rparr>"
  have mime: "c_string ''application/json'' = ''application/json''" by code_simp
  obtain e where e: "checked lib [] hr_body (Http_response r) (cc_http c\<lparr>cl_net := net\<rparr>) =
      Inr (err_result [] e, cc_http c\<lparr>cl_net := net\<rparr>)" "err_code e = hr_status r"
    using checked_status [OF assms(6,7), of lib "[]" hr_body] by blast
  have first: "on_http (post_with_response lib (token_path name) body ''application/json'') c =
      Inr (err_result [] e, ?c)"
    using assms(5) e(1) by (simp add: on_http_post mime)
  have err: "is_error e" using e(2) assms(7) by (simp add: is_error_def)
  note run = create_token_request_def bind_io_def learned_known [OF assms(1)] supports_token_v2_def assms(2-4)
    throws_io_def ret_io_def Let_def first
  show ?thesis
  proof (cases "hr_status r = 422")
    case True
    then show ?thesis using e(2) err by (simp add: run)
  next
    case False
    then show ?thesis using e(2) err
      by (simp add: run token_value_def json_result_def) (rule exI [of _ e], simp)
  qed
qed

definition sample_permissions :: permissions where
  "sample_permissions = \<lparr>pm_full_access = True, pm_read = [''a''], pm_write = []\<rparr>"

definition sample_token_request :: token_create_request where
  "sample_token_request = \<lparr>tr_permissions = sample_permissions, tr_expires_at = Some 1700000000123456789,
     tr_ttl = Some 60, tr_ip_allowlist = [''::1'']\<rparr>"

definition sample_session :: "string option \<Rightarrow> unit client" where
  "sample_session version = (let c = build_client ''http://localhost:8383''
      \<lparr>ho_api_token = [], ho_ssl_verification = True, ho_connection_timeout = None, ho_request_timeout = None\<rparr> ()
    in c\<lparr>cc_http := cc_http c\<lparr>cl_api_version := version\<rparr>\<rparr>)"

definition printing_json :: "json_value json_ops" where
  "printing_json = value_json (\<lambda>s. Inr JNull)
     (\<lambda>j. Inr (if map_of (value_fields j) ''permissions'' = None then ''old'' else ''new''))"

lemma sample_session_version: "cl_api_version (cc_http (sample_session v)) = v"
  by (simp add: sample_session_def Let_def)

lemma sample_session_net: "cc_http (sample_session v)\<lparr>cl_net := ()\<rparr> = cc_http (sample_session v)"
  "sample_session v\<lparr>cc_http := cc_http (sample_session v)\<rparr> = sample_session v"
  by (simp_all add: sample_session_def Let_def build_client_def build_http_client_def split: prod.split)

theorem create_token_falls_back_witness:
  "create_token_request (answering \<lparr>hr_status = 422, hr_headers = [], hr_body = []\<rparr>) printing_json id ''t''
     sample_token_request (sample_session (Some ''1.19'')) =
   bind_io (on_http (post_with_response (answering \<lparr>hr_status = 422, hr_headers = [], hr_body = []\<rparr>)
       (token_path ''t'') ''old'' ''application/json'')) (\<lambda>r'. throws_io (token_value printing_json r'))
     (sample_session (Some ''1.19''))"
proof -
  have "is_compatible ''1.19'' ''1.19'' = Inr True" by code_simp
  moreover have "j_dump printing_json (token_body_v2 printing_json sample_token_request) = Inr ''new''"
    by (simp add: printing_json_def token_body_v2_def Let_def value_json_def set_optional_def
        sample_token_request_def map_of_omap_assign)
  moreover have "j_dump printing_json (token_body_legacy printing_json
      (moved_permissions id (tr_permissions sample_token_request))) = Inr ''old''"
    by (simp add: printing_json_def token_body_legacy_def set_permissions_def value_json_def
        moved_permissions_def map_of_omap_assign)
  ultimately show ?thesis
    using create_token_falls_back [OF sample_session_version, of "''1.19''" printing_json sample_token_request "''new''"
        id "''old''" "answering \<lparr>hr_status = 422, hr_headers = [], hr_body = []\<rparr>" "''t''"
        "\<lparr>hr_status = 422, hr_headers = [], hr_body = []\<rparr>" "()"]
    by (simp add: answering_def sample_session_net)
qed

text \<open>What the server reads from the new body is what the caller asked for.\<close>

context json_laws begin

lemma permissions_read:
  "is_obj (set_permissions J f r w)" "at_bool J (set_permissions J f r w) ''full_access'' = Inr f"
  "at_strings J (set_permissions J f r w) ''read'' = Inr r" "at_strings J (set_permissions J f r w) ''write'' = Inr w"
  by (simp_all add: set_permissions_def built at_bool_def at_strings_def j_strings_def)

lemma get_iso_time_printed:
  assumes "is_int64 t" and "to_time_t t \<noteq> - 1"
  shows "get_iso_time J (j_string J (to_iso8601_utc t)) = Inr (to_time_t t * 10 ^ 9)"
  by (simp add: get_iso_time_def built parse_printed(1) [OF assms])

lemma token_body_read:
  assumes "\<And>t. tr_expires_at request = Some t \<Longrightarrow> is_int64 t \<and> to_time_t t \<noteq> - 1"
  shows "parse_permissions J (token_body_v2 J request) = Inr (tr_permissions request)"
    and "optional_at J (token_body_v2 J request) ''expires_at'' (get_iso_time J) =
      Inr (map_option (\<lambda>t. to_time_t t * 10 ^ 9) (tr_expires_at request))"
    and "optional_at J (token_body_v2 J request) ''ttl'' (j_get_u64 J) = Inr (tr_ttl request)"
    and "at_strings J (token_body_v2 J request) ''ip_allowlist'' = Inr (tr_ip_allowlist request)"
proof -
  note iso = get_iso_time_printed
  show "parse_permissions J (token_body_v2 J request) = Inr (tr_permissions request)"
    by (simp add: parse_permissions_def token_body_v2_def Let_def built permissions_read split: option.split)
  show "optional_at J (token_body_v2 J request) ''expires_at'' (get_iso_time J) =
      Inr (map_option (\<lambda>t. to_time_t t * 10 ^ 9) (tr_expires_at request))"
    using assms by (cases "tr_expires_at request")
      (simp_all add: optional_at_def token_body_v2_def Let_def built iso split: option.split)
  show "optional_at J (token_body_v2 J request) ''ttl'' (j_get_u64 J) = Inr (tr_ttl request)"
    by (cases "tr_ttl request") (simp_all add: optional_at_def token_body_v2_def Let_def built split: option.split)
  show "at_strings J (token_body_v2 J request) ''ip_allowlist'' = Inr (tr_ip_allowlist request)"
    by (simp add: at_strings_def token_body_v2_def Let_def built j_strings_def split: option.split)
qed

end

text \<open>
  C35: The body that \<^verbatim>\<open>CreateToken\<close> sends is read back, by the readers for the answers of the server,
  as the request: the permissions, the time to live and the allow-list unchanged, the time of
  expiry cut to whole seconds.
\<close>

theorem token_request_roundtrip:
  assumes "json_laws J obj"
    and "\<And>t. tr_expires_at request = Some t \<Longrightarrow> is_int64 t \<and> to_time_t t \<noteq> - 1"
  shows "parse_permissions J (token_body_v2 J request) = Inr (tr_permissions request) \<and>
    optional_at J (token_body_v2 J request) ''expires_at'' (get_iso_time J) =
      Inr (map_option (\<lambda>t. to_time_t t * 10 ^ 9) (tr_expires_at request)) \<and>
    optional_at J (token_body_v2 J request) ''ttl'' (j_get_u64 J) = Inr (tr_ttl request) \<and>
    at_strings J (token_body_v2 J request) ''ip_allowlist'' = Inr (tr_ip_allowlist request)"
  by (simp add: json_laws.token_body_read [OF assms])

theorem token_request_roundtrip_witness:
  "optional_at printing_json (token_body_v2 printing_json sample_token_request) ''expires_at''
     (get_iso_time printing_json) = Inr (Some 1700000000000000000)"
proof -
  have "to_time_t 1700000000123456789 = 1700000000" by code_simp
  moreover have "json_laws printing_json is_object"
    unfolding printing_json_def by (rule value_json.json_laws_axioms)
  ultimately show ?thesis
    using token_request_roundtrip [of printing_json is_object sample_token_request]
    by (simp add: sample_token_request_def is_int64_def)
qed

end
