(* ===== verification/Client_Invariant.thy ===== *)
theory Client_Invariant
  imports Keeps Client_Admin
begin

text \<open>
  What the requests leave unchanged. The locale \<open>client_invariant\<close> is the interface: a property of
  the HTTP client that survives a change of the network, a line in the log, and the learning of a
  version that \<^verbatim>\<open>CheckRequest\<close> accepts. Every request of \<^verbatim>\<open>HttpClient\<close> and every method of
  \<^verbatim>\<open>Client\<close> keeps such a property; two are of interest, and reachable clients have both.
\<close>

section \<open>The interface\<close>

text \<open>The test of \<^verbatim>\<open>CheckRequest\<close>, without the overflow of \<^verbatim>\<open>minor + 2\<close>.\<close>

definition accepted_version :: "string \<Rightarrow> bool" where
  "accepted_version v \<longleftrightarrow>
     (case find_char (CHR ''.'') v of
        None \<Rightarrow> False
      | Some dot \<Rightarrow>
          stoi 10 (substr v 0 dot) = Inr major_version \<and>
          (case stoi 10 (substr_from v (dot + 1)) of Inl e \<Rightarrow> False | Inr minor \<Rightarrow> True))"

locale client_invariant =
  fixes P :: "'n http_client \<Rightarrow> bool"
  assumes net: "P c \<Longrightarrow> P (c\<lparr>cl_net := n\<rparr>)"
    and log: "P c \<Longrightarrow> P (c\<lparr>cl_log := l\<rparr>)"
    and version: "P c \<Longrightarrow> accepted_version v \<Longrightarrow> P (c\<lparr>cl_api_version := Some v\<rparr>)"
begin

lemma check_keeps [keeps_intros]: "keeps P (check_request lib res)"
proof (rule keepsI)
  fix c err c' assume P: "P c" and run: "check_request lib res c = Inr (err, c')"
  show "P c'"
  proof (cases res)
    case (Transport_error m)
    with P run show ?thesis by (simp add: check_request_def)
  next
    case (Http_response r)
    show ?thesis
    proof (cases "c' = c")
      case False
      with run Http_response obtain v dot minor where v: "find_char (CHR ''.'') v = Some dot"
        "stoi 10 (substr v 0 dot) = Inr major_version" "stoi 10 (substr_from v (dot + 1)) = Inr minor"
        and c': "c' = c\<lparr>cl_api_version := Some v\<rparr> \<or>
          c' = c\<lparr>cl_log := cl_log c @ [too_old_warning v], cl_api_version := Some v\<rparr>"
        by (auto simp: check_request_def bind_throws_Inr_iff Let_def split: if_splits option.splits)
      then have "accepted_version v" by (simp add: accepted_version_def)
      with c' P show ?thesis using version [OF P] version [OF log [OF P]] by auto
    qed (use P in simp)
  qed
qed

lemma send_keeps [keeps_intros]: "keeps P (send lib m path hs body)"
  by (rule keepsI) (auto simp: send_def bind_throws_Inr_iff net)

lemma checked_keeps [keeps_intros]: "keeps P (checked lib dflt f res)"
  unfolding checked_def by (intro keeps_intros)

lemma requests_keep [keeps_intros]:
  "keeps P (http_get lib path)" "keeps P (http_head lib path hs)"
  "keeps P (post_with_response lib path body mime)" "keeps P (http_post lib path body mime)"
  "keeps P (post_chunked lib path mime len hs cb)" "keeps P (http_put lib path body mime)"
  "keeps P (http_patch lib path body hs)" "keeps P (http_delete lib path hs)" "keeps P get_api_version"
  unfolding http_get_def http_head_def post_with_response_def http_post_def post_chunked_def http_put_def
    http_patch_def http_delete_def get_api_version_def
  by (intro keeps_intros)+

lemma stream_keeps [keeps_intros]: "keeps P (http_get_stream lib path hs resp_cb read_cb u)"
proof (rule keepsI)
  fix c x c' assume P: "P c" and run: "http_get_stream lib path hs resp_cb read_cb u c = Inr (x, c')"
  have checked: "P c'" if "check_request lib res (c\<lparr>cl_net := n\<rparr>) = Inr (err, c')" for res n err
    using keepsD [OF check_keeps that net [OF P]] .
  from run obtain stream n where stream: "hl_stream lib (cl_transport c)
      \<lparr>rq_method = GET, rq_path = add_api_prefix c path, rq_headers = hs, rq_body = No_body\<rparr> (cl_net c) =
      Inr (stream, n)"
    by (auto simp: http_get_stream_def bind_throws_Inr_iff)
  show "P c'"
  proof (cases "hs_head stream")
    case None
    with run stream checked show ?thesis by (auto simp: http_get_stream_def bind_throws_Inr_iff)
  next
    case (Some r)
    show ?thesis
    proof (cases "hr_status r \<noteq> 200 \<and> hr_status r \<noteq> 0")
      case True
      with Some run stream checked show ?thesis by (auto simp: http_get_stream_def bind_throws_Inr_iff)
    next
      case False
      with Some run stream obtain res err where "check_request lib res (c\<lparr>cl_net := n\<rparr>) = Inr (err, c')"
        by (fastforce simp: http_get_stream_def bind_throws_Inr_iff Let_def case_prod_unfold)
      then show ?thesis by (rule checked)
    qed
  qed
qed

end

section \<open>The two invariants of an HTTP client\<close>

definition version_ok :: "'n http_client \<Rightarrow> bool" where
  "version_ok c \<longleftrightarrow> (case cl_api_version c of None \<Rightarrow> True | Some v \<Rightarrow> accepted_version v)"

interpretation known_version: client_invariant version_ok
  by unfold_locales (simp_all add: version_ok_def)

text \<open>What the constructor sets is never changed.\<close>

definition same_setup :: "'n http_client \<Rightarrow> 'n http_client \<Rightarrow> bool" where
  "same_setup c0 c \<longleftrightarrow> cl_transport c = cl_transport c0 \<and> cl_api_token c = cl_api_token c0 \<and>
     cl_api_prefix c = cl_api_prefix c0"

interpretation constructed: client_invariant "same_setup c0"
  by unfold_locales (simp_all add: same_setup_def)

section \<open>Sessions of a client\<close>

text \<open>One call of a method; what it returns is dropped.\<close>

inductive client_step ::
  "'n httplib \<Rightarrow> 'j json_ops \<Rightarrow> (string list \<Rightarrow> string list) \<Rightarrow> 'n client \<Rightarrow> 'n client \<Rightarrow> bool"
  for lib J moved where
  cs_info: "runs (get_info lib J) c c' \<Longrightarrow> client_step lib J moved c c'"
| cs_bucket_list: "runs (get_bucket_list lib J) c c' \<Longrightarrow> client_step lib J moved c c'"
| cs_get_bucket: "runs (get_bucket lib name) c c' \<Longrightarrow> client_step lib J moved c c'"
| cs_create_bucket: "runs (create_bucket lib J name settings) c c' \<Longrightarrow> client_step lib J moved c c'"
| cs_get_or_create: "runs (get_or_create_bucket lib J name settings) c c' \<Longrightarrow> client_step lib J moved c c'"
| cs_token_list: "runs (get_token_list lib J) c c' \<Longrightarrow> client_step lib J moved c c'"
| cs_get_token: "runs (get_token lib J name) c c' \<Longrightarrow> client_step lib J moved c c'"
| cs_create_token: "runs (create_token lib J moved name permissions) c c' \<Longrightarrow> client_step lib J moved c c'"
| cs_create_request: "runs (create_token_request lib J moved name request) c c' \<Longrightarrow> client_step lib J moved c c'"
| cs_remove_token: "runs (remove_token lib name) c c' \<Longrightarrow> client_step lib J moved c c'"
| cs_rotate_token: "runs (rotate_token lib J name) c c' \<Longrightarrow> client_step lib J moved c c'"
| cs_me: "runs (me lib J) c c' \<Longrightarrow> client_step lib J moved c c'"
| cs_replications: "runs (get_replication_list lib J) c c' \<Longrightarrow> client_step lib J moved c c'"
| cs_replication: "runs (get_replication lib J name) c c' \<Longrightarrow> client_step lib J moved c c'"
| cs_new_replication: "runs (create_replication lib J name rs) c c' \<Longrightarrow> client_step lib J moved c c'"
| cs_put_replication: "runs (update_replication lib J name rs) c c' \<Longrightarrow> client_step lib J moved c c'"
| cs_replication_mode: "runs (set_replication_mode lib J name rm) c c' \<Longrightarrow> client_step lib J moved c c'"
| cs_remove_replication: "runs (remove_replication lib name) c c' \<Longrightarrow> client_step lib J moved c c'"
| cs_lifecycles: "runs (get_lifecycle_list lib J) c c' \<Longrightarrow> client_step lib J moved c c'"
| cs_lifecycle: "runs (get_lifecycle lib J name) c c' \<Longrightarrow> client_step lib J moved c c'"
| cs_new_lifecycle: "runs (create_lifecycle lib J name ls) c c' \<Longrightarrow> client_step lib J moved c c'"
| cs_put_lifecycle: "runs (update_lifecycle lib J name ls) c c' \<Longrightarrow> client_step lib J moved c c'"
| cs_lifecycle_mode: "runs (set_lifecycle_mode lib J name lm) c c' \<Longrightarrow> client_step lib J moved c c'"
| cs_remove_lifecycle: "runs (remove_lifecycle lib name) c c' \<Longrightarrow> client_step lib J moved c c'"

text \<open>The property of a client that a property of its HTTP client gives, with the fixed members.\<close>

definition client_has :: "('n http_client \<Rightarrow> bool) \<Rightarrow> string \<Rightarrow> http_options \<Rightarrow> 'n client \<Rightarrow> bool" where
  "client_has P url options c \<longleftrightarrow> P (cc_http c) \<and> cc_url c = url \<and> cc_options c = options"

lemma on_http_keeps [keeps_intros]: "keeps P m \<Longrightarrow> keeps (client_has P url options) (on_http m)"
  by (auto simp: keeps_def on_http_def bind_throws_Inr_iff client_has_def)

context client_invariant begin

lemma client_shapes_keep [keeps_intros]:
  "keeps (client_has P url options) (get_json lib J path dflt f)"
  "keeps (client_has P url options) (remove_at lib path)"
  "(\<And>body. keeps (client_has P url options) (request body)) \<Longrightarrow>
     keeps (client_has P url options) (send_settings J serialised request)"
  "keeps (client_has P url options) (set_mode lib J path mode)"
  "keeps (client_has P url options) (learned_version lib)"
  unfolding get_json_def remove_at_def error_of_def send_settings_def set_mode_def learned_version_def
  by (intro keeps_intros; assumption?)+

lemma bucket_methods_keep [keeps_intros]:
  "keeps (client_has P url options) (get_bucket lib name)"
  "keeps (client_has P url options) (create_bucket lib J name settings)"
  "keeps (client_has P url options) (get_or_create_bucket lib J name settings)"
  unfolding get_or_create_bucket_def get_bucket_def create_bucket_def by (intro keeps_intros)+

lemma create_token_keeps [keeps_intros]:
  "keeps (client_has P url options) (create_token_request lib J moved name request)"
  unfolding create_token_request_def Let_def by (intro keeps_intros)

lemma client_step_keeps:
  assumes "client_step lib J moved c c'" and "client_has P url options c"
  shows "client_has P url options c'"
  using assms
proof (induction rule: client_step.induct)
qed (erule keeps_runs;
    simp add: get_info_def get_bucket_list_def get_token_list_def get_token_def create_token_def remove_token_def
      rotate_token_def me_def get_replication_list_def get_replication_def create_replication_def
      update_replication_def set_replication_mode_def remove_replication_def get_lifecycle_list_def
      get_lifecycle_def create_lifecycle_def update_lifecycle_def set_lifecycle_mode_def remove_lifecycle_def;
    intro keeps_intros)+

lemma client_session_keeps:
  assumes "(client_step lib J moved)\<^sup>*\<^sup>* c c'" and "client_has P url options c"
  shows "client_has P url options c'"
  using assms by (induction rule: rtranclp_induct) (auto intro: client_step_keeps)

end

end
