(* ===== verification/Bucket_Query.thy ===== *)
theory Bucket_Query
  imports Bucket_Read
begin

text \<open>
  Queries (bucket.cc): a query is opened with a request that answers its identifier, then its
  batches are read until a callback stops, the server says 204 (no more records), or an error.
  The loop may run for ever, so it is a partial function; \<open>None\<close> is a call that does not
  return. The pause of a continuous query between two reads has no effect in the model.
\<close>

section \<open>The requests\<close>

text \<open>
  The part that all of the four queries share: the options as JSON, the request, and the field
  of the answer that \<open>get\<close> reads; \<^verbatim>\<open>dump()\<close> is outside of a \<^verbatim>\<open>try\<close> block.
\<close>

definition post_query ::
  "'n httplib \<Rightarrow> 'j json_ops \<Rightarrow> string \<Rightarrow> ('j \<Rightarrow> u64 throws) \<Rightarrow> 'j \<Rightarrow> ('n bucket, u64 result) io" where
  "post_query lib J path get payload =
     bind_io (throws_io (j_dump J payload)) (\<lambda>body.
     bind_io (on_client (post_with_response lib path body ''application/json'')) (\<lambda>resp.
       throws_io (json_result J 0 (\<lambda>data. bind_throws (get data) (\<lambda>x. Inr (ok_result x))) resp)))"

definition query_request ::
  "'n httplib \<Rightarrow> 'j json_ops \<Rightarrow> string \<Rightarrow> ('j \<Rightarrow> u64 throws) \<Rightarrow> string \<Rightarrow> string list \<Rightarrow> time option \<Rightarrow>
   time option \<Rightarrow> query_options \<Rightarrow> ('n bucket, u64 result) io" where
  "query_request lib J path get type entries start stop options =
     bind_io (throws_io (query_options_to_json J type entries start stop options)) (\<lambda>payload.
       if is_error (res_error payload) then ret_io (err_result 0 (res_error payload))
       else post_query lib J path get (res_value payload))"

text \<open>\<^verbatim>\<open>data["id"]\<close>, and \<^verbatim>\<open>data.at("removed_records")\<close>.\<close>

definition get_id :: "'j json_ops \<Rightarrow> 'j \<Rightarrow> u64 throws" where
  "get_id J data = bind_throws (j_index J data ''id'') (j_get_u64 J)"

definition entry_query_path :: "'n bucket \<Rightarrow> string \<Rightarrow> string" where
  "entry_query_path b entry_name = bk_path b @ ''/'' @ entry_name @ ''/q''"

section \<open>The loop\<close>

partial_function (option) poll_loop ::
  "('s \<Rightarrow> ((bool \<times> error) \<times> 's) diverges) \<Rightarrow> bool \<Rightarrow> 's \<Rightarrow> (error \<times> 's) diverges" where
  "poll_loop read continuous s =
     (case read s of
        None \<Rightarrow> None
      | Some (Inl e) \<Rightarrow> Some (Inl e)
      | Some (Inr ((stopped, record_err), s')) \<Rightarrow>
          if stopped then Some (Inr (kOk, s'))
          else if is_error record_err then
            (if err_code record_err = 204 then
               (if continuous then poll_loop read continuous s' else Some (Inr (kOk, s')))
             else Some (Inr (record_err, s')))
          else poll_loop read continuous s')"

text \<open>A query: the request on the bucket, then the loop with what the callbacks change.\<close>

definition run_query ::
  "('n bucket, u64 result) io \<Rightarrow> (u64 \<Rightarrow> 'n bucket \<times> 'u \<Rightarrow> ((bool \<times> error) \<times> 'n bucket \<times> 'u) diverges) \<Rightarrow>
   bool \<Rightarrow> 'n bucket \<times> 'u \<Rightarrow> (error \<times> 'n bucket \<times> 'u) diverges" where
  "run_query request read continuous bu =
     (case request (fst bu) of
        Inl e \<Rightarrow> Some (Inl e)
      | Inr (r, b') \<Rightarrow>
          if is_error (res_error r) then Some (Inr (res_error r, b', snd bu))
          else poll_loop (read (res_value r)) continuous (b', snd bu))"

definition query_v1 ::
  "'n httplib \<Rightarrow> 'j json_ops \<Rightarrow> string \<Rightarrow> time option \<Rightarrow> time option \<Rightarrow> query_options \<Rightarrow> 'u read_callback \<Rightarrow>
   'n bucket \<times> 'u \<Rightarrow> (error \<times> 'n bucket \<times> 'u) diverges" where
  "query_v1 lib J entry_name start stop options callback bu =
     run_query
       (query_request lib J (entry_query_path (fst bu) entry_name) (get_id J) ''QUERY'' [] start stop options)
       (\<lambda>id. read_record lib (bk_path (fst bu) @ ''/'' @ entry_name @ ''/batch?q='' @ show_nat (unat id)) kBatched
               (qo_head_only options) callback)
       (qo_continuous options) bu"

definition query_v2 ::
  "header_sort \<Rightarrow> 'n httplib \<Rightarrow> 'j json_ops \<Rightarrow> string list \<Rightarrow> time option \<Rightarrow> time option \<Rightarrow> query_options \<Rightarrow>
   'u read_callback \<Rightarrow> 'n bucket \<times> 'u \<Rightarrow> (error \<times> 'n bucket \<times> 'u) diverges" where
  "query_v2 srt lib J entries start stop options callback bu =
     run_query (query_request lib J (bk_io_path (fst bu) @ ''/q'') (get_id J) ''QUERY'' entries start stop options)
       (\<lambda>id. read_record_v2 srt lib id (qo_head_only options) callback) (qo_continuous options) bu"

definition query_entry ::
  "header_sort \<Rightarrow> 'n httplib \<Rightarrow> 'j json_ops \<Rightarrow> string \<Rightarrow> time option \<Rightarrow> time option \<Rightarrow> query_options \<Rightarrow>
   'u read_callback \<Rightarrow> 'n bucket \<times> 'u \<Rightarrow> (error \<times> 'n bucket \<times> 'u) diverges" where
  "query_entry srt lib J entry_name start stop options callback bu =
     (case supports_batch_protocol_v2 (fst bu) of
        Inl e \<Rightarrow> Some (Inl e)
      | Inr (v2, b) \<Rightarrow>
          if v2 then query_v2 srt lib J [entry_name] start stop options callback (b, snd bu)
          else query_v1 lib J entry_name start stop options callback (b, snd bu))"

definition query_entries ::
  "header_sort \<Rightarrow> 'n httplib \<Rightarrow> 'j json_ops \<Rightarrow> string list \<Rightarrow> time option \<Rightarrow> time option \<Rightarrow> query_options \<Rightarrow>
   'u read_callback \<Rightarrow> 'n bucket \<times> 'u \<Rightarrow> (error \<times> 'n bucket \<times> 'u) diverges" where
  "query_entries srt lib J entry_names start stop options callback bu =
     (case supports_batch_protocol_v2 (fst bu) of
        Inl e \<Rightarrow> Some (Inl e)
      | Inr (v2, b) \<Rightarrow>
          if \<not> v2 then Some (Inr (mk_error (- 1) ''Batch protocol v2 not supported'', b, snd bu))
          else if entry_names = [] then Some (Inr (mk_error (- 1) ''No entry names provided'', b, snd bu))
          else query_v2 srt lib J entry_names start stop options callback (b, snd bu))"

section \<open>Removing\<close>

definition remove_query_v1 ::
  "'n httplib \<Rightarrow> 'j json_ops \<Rightarrow> string \<Rightarrow> time option \<Rightarrow> time option \<Rightarrow> query_options \<Rightarrow> ('n bucket, u64 result) io" where
  "remove_query_v1 lib J entry_name start stop options b =
     query_request lib J (entry_query_path b entry_name) (\<lambda>data. at_u64 J data ''removed_records'') ''REMOVE'' []
       start stop options b"

definition remove_query_v2 ::
  "'n httplib \<Rightarrow> 'j json_ops \<Rightarrow> string list \<Rightarrow> time option \<Rightarrow> time option \<Rightarrow> query_options \<Rightarrow> ('n bucket, u64 result) io" where
  "remove_query_v2 lib J entries start stop options =
     bind_io (throws_io (query_options_to_json J ''REMOVE'' entries start stop options)) (\<lambda>payload.
       if is_error (res_error payload) then ret_io (err_result 0 (res_error payload))
       else if entries = [] then ret_io (err_result 0 (mk_error (- 1) ''At least one entry name is required''))
       else bind_io (get_io bk_io_path) (\<lambda>io_path.
              post_query lib J (io_path @ ''/q'') (\<lambda>data. at_u64 J data ''removed_records'') (res_value payload)))"

definition remove_query_entry ::
  "'n httplib \<Rightarrow> 'j json_ops \<Rightarrow> string \<Rightarrow> time option \<Rightarrow> time option \<Rightarrow> query_options \<Rightarrow> ('n bucket, u64 result) io" where
  "remove_query_entry lib J entry_name start stop options =
     bind_io supports_batch_protocol_v2 (\<lambda>v2.
       if v2 then remove_query_v2 lib J [entry_name] start stop options
       else remove_query_v1 lib J entry_name start stop options)"

definition remove_query_entries ::
  "'n httplib \<Rightarrow> 'j json_ops \<Rightarrow> string list \<Rightarrow> time option \<Rightarrow> time option \<Rightarrow> query_options \<Rightarrow> ('n bucket, u64 result) io" where
  "remove_query_entries lib J entry_names start stop options =
     bind_io supports_batch_protocol_v2 (\<lambda>v2.
       if \<not> v2 then ret_io (err_result 0 (mk_error (- 1) ''Batch protocol v2 not supported''))
       else if entry_names = [] then ret_io (err_result 0 (mk_error (- 1) ''No entry names provided''))
       else remove_query_v2 lib J entry_names start stop options)"

section \<open>How the loop ends\<close>

text \<open>A read after which the loop goes on, and one that ends it.\<close>

definition goes_on :: "('s \<Rightarrow> ((bool \<times> error) \<times> 's) diverges) \<Rightarrow> bool \<Rightarrow> 's \<Rightarrow> 's \<Rightarrow> bool" where
  "goes_on read continuous s t \<longleftrightarrow>
     (\<exists>err. read s = Some (Inr ((False, err), t)) \<and> (is_error err \<longrightarrow> err_code err = 204 \<and> continuous))"

definition ends_with_error :: "('s \<Rightarrow> ((bool \<times> error) \<times> 's) diverges) \<Rightarrow> bool \<Rightarrow> 's \<Rightarrow> error \<Rightarrow> 's \<Rightarrow> bool" where
  "ends_with_error read continuous s e t \<longleftrightarrow>
     (\<exists>stopped err. read s = Some (Inr ((stopped, err), t)) \<and>
        (if stopped then e = kOk
         else is_error err \<and> (if err_code err = 204 then \<not> continuous \<and> e = kOk else e = err)))"

lemma goes_on_loop: "goes_on read continuous s t \<Longrightarrow> poll_loop read continuous s = poll_loop read continuous t"
  by (subst poll_loop.simps) (auto simp: goes_on_def)

lemma poll_loop_sound:
  "poll_loop read continuous s = Some r \<Longrightarrow> r = Inr (e, t) \<Longrightarrow>
     \<exists>s1. (goes_on read continuous)\<^sup>*\<^sup>* s s1 \<and> ends_with_error read continuous s1 e t"
proof (induction rule: poll_loop.raw_induct [rotated, consumes 1])
  case (1 loop read c s r)
  show ?case
  proof (cases "read s")
    case None
    with 1(2) show ?thesis by simp
  next
    case (Some x)
    with 1(2,3) obtain stopped err s' where rd: "read s = Some (Inr ((stopped, err), s'))"
      by (cases x) auto
    show ?thesis
    proof (cases "goes_on read c s s'")
      case True
      then have "\<not> stopped" "is_error err \<longrightarrow> err_code err = 204 \<and> c" using rd by (auto simp: goes_on_def)
      then have "loop read c s' = Some r" using 1(2) rd by (auto split: if_splits)
      from 1(1) [OF this 1(3)] True show ?thesis by (meson converse_rtranclp_into_rtranclp)
    next
      case False
      then have "ends_with_error read c s e t"
        using 1(2,3) rd by (auto simp: goes_on_def ends_with_error_def split: if_splits)
      then show ?thesis by blast
    qed
  qed
qed

lemma poll_loop_complete:
  assumes "(goes_on read continuous)\<^sup>*\<^sup>* s s1" and "ends_with_error read continuous s1 e t"
  shows "poll_loop read continuous s = Some (Inr (e, t))"
  using assms
proof (induction rule: converse_rtranclp_induct)
  case base
  then show ?case by (subst poll_loop.simps) (auto simp: ends_with_error_def split: if_splits)
next
  case (step s s')
  then show ?case by (simp add: goes_on_loop)
qed

section \<open>Properties\<close>

lemma poll_loop_diverges:
  assumes "P s" and "\<And>s. P s \<Longrightarrow> \<exists>t. goes_on read continuous s t \<and> P t"
  shows "poll_loop read continuous s = None"
proof -
  have "poll_loop read continuous s = Some r \<Longrightarrow> P s \<Longrightarrow>
      (\<And>s. P s \<Longrightarrow> \<exists>t. goes_on read continuous s t \<and> P t) \<Longrightarrow> False" for r
  proof (induction rule: poll_loop.raw_induct [rotated, consumes 1])
    case (1 loop read c s r)
    from 1(4) [OF 1(3)] obtain t where t: "goes_on read c s t" "P t" by blast
    then have "loop read c t = Some r" using 1(2) by (auto simp: goes_on_def split: if_splits)
    from 1(1) [OF this t(2) 1(4)] show ?case .
  qed
  with assms show ?thesis by (cases "poll_loop read continuous s") blast+
qed

text \<open>
  C9: When a v2 query returns, either its request failed and the error is that of the request,
  or it made a number of reads that go on and then one that ends it: a callback stopped or the
  last record came (no error), the server said 204 to a query that is not continuous (no
  error), or a read failed with any other code, which is the error. And whenever the reads go
  that way, the query does return.
\<close>

theorem query_v2_returns:
  "query_v2 srt lib J entries start stop options callback (b, u) = Some (Inr (e, b', u')) \<longleftrightarrow>
   (\<exists>r b1. query_request lib J (bk_io_path b @ ''/q'') (get_id J) ''QUERY'' entries start stop options b =
        Inr (r, b1) \<and>
      (if is_error (res_error r) then e = res_error r \<and> b' = b1 \<and> u' = u
       else let read = read_record_v2 srt lib (res_value r) (qo_head_only options) callback
            in \<exists>s. (goes_on read (qo_continuous options))\<^sup>*\<^sup>* (b1, u) s \<and>
                 ends_with_error read (qo_continuous options) s e (b', u')))"
proof (cases "query_request lib J (bk_io_path b @ ''/q'') (get_id J) ''QUERY'' entries start stop options b")
  case (Inl x)
  then show ?thesis by (simp add: query_v2_def run_query_def)
next
  case (Inr rb)
  obtain r b1 where rb: "rb = (r, b1)" by (cases rb)
  show ?thesis
  proof (cases "is_error (res_error r)")
    case True
    then show ?thesis using Inr rb by (auto simp: query_v2_def run_query_def)
  next
    case False
    let ?read = "read_record_v2 srt lib (res_value r) (qo_head_only options) callback"
    have "poll_loop ?read (qo_continuous options) (b1, u) = Some (Inr (e, b', u')) \<longleftrightarrow>
        (\<exists>s. (goes_on ?read (qo_continuous options))\<^sup>*\<^sup>* (b1, u) s \<and>
           ends_with_error ?read (qo_continuous options) s e (b', u'))"
      by (metis poll_loop_sound poll_loop_complete)
    then show ?thesis using Inr rb False by (simp add: query_v2_def run_query_def Let_def)
  qed
qed

lemma read_record_v2_204:
  assumes "hr_status r = 204"
  shows "\<exists>err. read_record_v2 srt (answering r) query_id head callback (b, u) = Some (Inr ((False, err), b, u)) \<and>
    err_code err = 204"
proof -
  have net: "c\<lparr>cl_net := ()\<rparr> = c" for c :: "unit http_client"
    by (simp add: http_client.equality)
  have "\<exists>err. receive (answering r) head path hs c = Inr ((err, None, []), c) \<and> err_code err = 204" for path hs c
    using assms
    by (cases head; cases "map_of (hr_headers r) kHeaderError")
      (simp_all add: receive_def http_head_def http_get_stream_def send_def checked_def check_request_def
        answering_def bind_io_def ret_io_def is_error_def mk_error_def net)
  then obtain err where err: "receive (answering r) head (bk_io_path b @ ''/read'')
      [(kHeaderQueryId, show_nat (unat query_id))] (bk_client b) = Inr ((err, None, []), bk_client b)" "err_code err = 204"
    by blast
  then have "on_client (receive (answering r) head (bk_io_path b @ ''/read'')
      [(kHeaderQueryId, show_nat (unat query_id))]) b = Inr ((err, None, []), b)"
    by (simp add: on_client_def)
  with err(2) show ?thesis by (simp add: read_record_v2_def read_record_inline_def is_error_def)
qed

text \<open>
  Against a server that has no more records (204 to every read), a continuous query never
  returns, and any other query returns without an error and without a call of the callback.
\<close>

theorem no_more_records:
  assumes "hr_status r = 204"
  shows "poll_loop (read_record_v2 srt (answering r) query_id head callback) True (b, u) = None \<and>
    poll_loop (read_record_v2 srt (answering r) query_id head callback) False (b, u) = Some (Inr (kOk, b, u))"
proof
  let ?read = "read_record_v2 srt (answering r) query_id head callback"
  note reply = read_record_v2_204 [OF assms, of srt query_id head callback]
  show "poll_loop ?read True (b, u) = None"
  proof (rule poll_loop_diverges [where P = "\<lambda>s. True"])
    show "\<exists>t. goes_on ?read True s t \<and> True" for s
      using reply [of "fst s" "snd s"] by (intro exI [of _ s]) (auto simp: goes_on_def)
  qed simp
  show "poll_loop ?read False (b, u) = Some (Inr (kOk, b, u))"
    using reply [of b u] by (subst poll_loop.simps) (auto simp: is_error_def)
qed

theorem no_more_records_witness:
  "poll_loop (read_record_v2 isort (answering \<lparr>hr_status = 204, hr_headers = [], hr_body = []\<rparr>) 1 False
      (\<lambda>r uq. None)) True (sample_bucket None, [] :: string) = None \<and>
   poll_loop (read_record_v2 isort (answering \<lparr>hr_status = 204, hr_headers = [], hr_body = []\<rparr>) 1 False
      (\<lambda>r uq. None)) False (sample_bucket None, [] :: string) = Some (Inr (kOk, sample_bucket None, []))"
  by (rule no_more_records) simp

lemma last_record_stops:
  assumes "run_callbacks_inline callback rs (False, uq) = Some (Inr (stopped, uq'))" and "rs \<noteq> []"
    and "rr_last (last rs)"
  shows stopped
proof -
  have "run_callbacks_inline callback rs (st, uq) = Some (Inr (stopped, uq')) \<Longrightarrow> st \<or> rs \<noteq> [] \<Longrightarrow>
      rs \<noteq> [] \<longrightarrow> rr_last (last rs) \<Longrightarrow> stopped" for st
  proof (induction rs arbitrary: st uq)
    case (Cons r rs)
    show ?case
    proof (cases st)
      case False
      with Cons.prems(1) obtain go_on uq1 where
        "run_callbacks_inline callback rs (if \<not> go_on then True else rr_last r, uq1) = Some (Inr (stopped, uq'))"
        by (auto split: option.splits sum.splits)
      from Cons.IH [OF this] Cons.prems(3) show ?thesis by (cases rs) auto
    qed (use Cons.prems(1) in simp)
  qed simp
  with assms show ?thesis by blast
qed

lemma last_v2:
  assumes "parse_and_build_batched_records_v2 srt head hs = Inr rs" and "umap_get hs kHeaderLast = ''true''"
    and "rs \<noteq> []"
  shows "rr_last (last rs)"
  using assms
  by (auto simp: parse_and_build_batched_records_v2_def Let_def bind_throws_Inr_iff set_back_last_def
      split: option.splits if_splits sum.splits)

lemma last_v1:
  assumes "parse_and_build_batched_records_v1 head hs = Inr rs" and "umap_get hs kHeaderLast = ''true''"
    and "rs \<noteq> []" and "distinct (map fst hs)"
  shows "rr_last (last rs)"
proof -
  let ?n = "length (filter is_time_header hs)"
  let ?step = "build_record_step_v1 head ?n True"
  have grow: "length rs' = length acc + length (filter is_time_header kvs) \<and>
      (\<forall>i < length acc. rs' ! i = acc ! i) \<and>
      (\<forall>i < length rs'. length acc \<le> i \<longrightarrow> rr_last (rs' ! i) = (i = ?n - 1))"
    if "fold_throws ?step kvs acc = Inr rs'" for kvs acc rs'
    using that
  proof (induction kvs arbitrary: acc)
    case (Cons kv kvs)
    then obtain acc' where acc': "?step kv acc = Inr acc'" "fold_throws ?step kvs acc' = Inr rs'"
      by (auto simp: bind_throws_Inr_iff)
    note IH = Cons.IH [OF acc'(2)]
    show ?case
    proof (cases "is_time_header kv")
      case False
      then show ?thesis using acc'(1) IH by (cases kv) (auto simp: build_record_step_v1_def)
    next
      case True
      then obtain r where r: "acc' = acc @ [r]" "rr_last r = (length acc = ?n - 1)"
        using acc'(1) by (cases kv) (auto simp: build_record_step_v1_def bind_throws_Inr_iff)
      have "rr_last (rs' ! i) = (i = ?n - 1)" if "i < length rs'" "length acc \<le> i" for i
        using that IH r by (cases "i = length acc") auto
      moreover have "rs' ! i = acc ! i" if "i < length acc" for i
        using that IH r(1) by (simp add: nth_append)
      ultimately show ?thesis using IH r(1) True by simp
    qed
  qed simp
  have "length (filter is_time_header (omap_of_list hs)) = ?n"
    using omap_of_list_filter [of "\<lambda>k. starts_with k kHeaderTimePrefix" hs] distinct_map_filter_fst [OF assms(4)]
    by (simp add: is_time_header_def [abs_def] length_omap_of_list)
  moreover have "fold_throws ?step (omap_of_list hs) [] = Inr rs"
    using assms(1,2) by (simp add: parse_and_build_batched_records_v1_def)
  ultimately have "length rs = ?n \<and> (\<forall>i < length rs. rr_last (rs ! i) = (i = ?n - 1))"
    using grow [of "omap_of_list hs" "[]" rs] by simp
  moreover have "length rs - 1 < length rs" using assms(3) by (cases rs) auto
  ultimately show ?thesis using assms(3) by (simp add: last_conv_nth)
qed

text \<open>
  In both protocols a response that is marked as the last one (\<^verbatim>\<open>x-reduct-last: true\<close>) and
  carries a record ends the query, continuous or not: the loop never goes on after it, whatever
  the callbacks answer.
\<close>

theorem last_response_ends_query:
  assumes "build = parse_and_build_batched_records_v2 srt \<or> build = build_records_v1 kBatched"
    and "on_client (receive lib head path hs) b = Inr ((kOk, Some hs', data), b1)"
    and "distinct (map fst hs')" and "umap_get hs' kHeaderLast = ''true''"
    and "build head hs' = Inr rs" and "rs \<noteq> []"
  shows "\<not> goes_on (read_record_inline lib build head path hs callback) continuous (b, u) t"
proof
  assume "goes_on (read_record_inline lib build head path hs callback) continuous (b, u) t"
  then obtain uq uq' where "run_callbacks_inline callback rs (False, uq) = Some (Inr (False, uq'))"
    using assms(2,5) by (auto simp: goes_on_def read_record_inline_def split: option.splits sum.splits)
  moreover have "rr_last (last rs)"
    using assms last_v1 [of head hs' rs] last_v2 [of srt head hs' rs] by (auto simp: build_records_v1_def)
  ultimately show False using last_record_stops assms(6) by blast
qed

definition last_reply :: http_response where
  "last_reply = \<lparr>hr_status = 200,
     hr_headers = [(''x-reduct-last'', ''true''), (''x-reduct-time-0'', ''1,t'')], hr_body = ''a''\<rparr>"

lemma last_reply_received:
  "on_client (receive (answering last_reply) False [] []) (sample_bucket None) =
     Inr ((kOk, Some [(''x-reduct-last'', ''true''), (''x-reduct-time-0'', ''1,t'')], [Some ''a'']), sample_bucket None)"
  by code_simp

lemma last_reply_records:
  "\<exists>rs. build_records_v1 kBatched False [(''x-reduct-last'', ''true''), (''x-reduct-time-0'', ''1,t'')] = Inr rs \<and> rs \<noteq> []"
proof -
  have "show_nat 0 = ''0''" by code_simp
  then have "from_microseconds ''0'' = Inr 0"
    using from_microseconds_show [of 0] by (simp add: time_of_us_def int64_id is_int64_def)
  moreover have "parse_csv ''1,t'' = Inr (1, ''t'', [])" by code_simp
  ultimately show ?thesis
    by (simp add: build_records_v1_def parse_and_build_batched_records_v1_def omap_of_list_def omap_emplace_def
        build_record_step_v1_def is_time_header_def header_names starts_with_def substr_from_def umap_get_def)
qed

theorem last_response_ends_query_witness:
  "\<not> goes_on (read_record_inline (answering last_reply) (build_records_v1 kBatched) False [] []
       (\<lambda>r uq. Some (Inr (True, uq)))) True (sample_bucket None, ()) (sample_bucket None, ())"
proof -
  obtain rs where rs: "build_records_v1 kBatched False [(''x-reduct-last'', ''true''), (''x-reduct-time-0'', ''1,t'')] = Inr rs"
    "rs \<noteq> []"
    using last_reply_records by blast
  show ?thesis
    by (rule last_response_ends_query [where build = "build_records_v1 kBatched", OF _ last_reply_received _ _ rs])
      (simp_all add: umap_get_def header_names)
qed

end
