(* ===== verification/Bucket_Attachments.thy ===== *)
theory Bucket_Attachments
  imports Bucket_Query Bucket_Batch Callbacks
begin

text \<open>
  Attachments (bucket.cc): JSON texts kept as the records of the entry \<^verbatim>\<open><entry>/$meta\<close>, one per
  key. Reading queries all of them and lets a later record replace an earlier one; removing
  marks the records with a label. Writing is in the theory Bucket_Batch.
\<close>

type_synonym attachment_map = "(string, string) omap"

section \<open>Reading\<close>

text \<open>The callback; what it changes is the map and \<^verbatim>\<open>callback_err\<close>. \<^verbatim>\<open>ReadAll\<close> gives no error.\<close>

definition attachment_reader :: "'j json_ops \<Rightarrow> (attachment_map \<times> error) read_callback" where
  "attachment_reader J record st =
     (case st of ((attachments, callback_err), q) \<Rightarrow>
        case map_of (rr_labels record) ''key'' of
          None \<Rightarrow> Some (Inr (True, (attachments, callback_err), q))
        | Some key \<Rightarrow>
            case read_to_end (rr_read record) 0 [] q of
              None \<Rightarrow> None
            | Some (Inl e) \<Rightarrow> Some (Inl e)
            | Some (Inr (payload, q')) \<Rightarrow>
                if map_of (rr_labels record) ''remove'' = Some ''true'' then
                  Some (Inr (True, (omap_erase key attachments, callback_err), q'))
                else case j_parse J payload of
                       Inl e \<Rightarrow>
                         if is_ub e then Some (Inl e)
                         else Some (Inr (False, (attachments, mk_error (- 1) (what e)), q'))
                     | Inr _ \<Rightarrow> Some (Inr (True, (omap_assign key payload attachments, callback_err), q')))"

definition read_attachments ::
  "header_sort \<Rightarrow> 'n httplib \<Rightarrow> 'j json_ops \<Rightarrow> string \<Rightarrow> 'n bucket \<Rightarrow> (attachment_map result \<times> 'n bucket) diverges" where
  "read_attachments srt lib J entry_name b =
     (case query_v2 srt lib J [meta_entry_of entry_name] None None default_query_options (attachment_reader J)
             (b, [], kOk) of
        None \<Rightarrow> None
      | Some (Inl e) \<Rightarrow> Some (Inl e)
      | Some (Inr (err, b', attachments, callback_err)) \<Rightarrow>
          Some (Inr (if is_error err then err_result [] err
                     else if is_error callback_err then err_result [] callback_err
                     else ok_result attachments, b')))"

section \<open>Removing\<close>

definition escape_key :: "string \<Rightarrow> string" where
  "escape_key key = (if key \<noteq> [] \<and> hd key = CHR ''$'' then ''$'' @ key else key)"

definition keys_condition :: "'j json_ops \<Rightarrow> string list \<Rightarrow> 'j" where
  "keys_condition J keys =
     j_set J ''$in''
       (j_array J
          (j_set J ''&key'' (j_set J ''$cast'' (j_string J ''string'') (j_null J)) (j_null J) #
           map (\<lambda>key. j_string J (escape_key key)) keys))
       (j_null J)"

definition remove_attachments_options :: "'j json_ops \<Rightarrow> string list \<Rightarrow> query_options throws" where
  "remove_attachments_options J keys =
     (if keys = [] then Inr default_query_options
      else bind_throws (j_dump J (keys_condition J keys)) (\<lambda>when_text.
             Inr (default_query_options\<lparr>qo_when := Some when_text\<rparr>)))"

definition mark_removed :: "batch read_callback" where
  "mark_removed record bq =
     (case bq of (b, q) \<Rightarrow>
        Some (Inr (True,
          add_only_labels (rr_entry record) (rr_timestamp record)
            (omap_assign ''remove'' ''true'' (rr_labels record)) b, q)))"

text \<open>\<open>keys\<close> are the elements of the set in its order.\<close>

definition remove_attachments ::
  "sort_fn \<Rightarrow> header_sort \<Rightarrow> 'n httplib \<Rightarrow> 'j json_ops \<Rightarrow> string \<Rightarrow> string list \<Rightarrow> 'n bucket \<Rightarrow>
   (error \<times> 'n bucket) diverges" where
  "remove_attachments srt hsrt lib J entry_name keys b =
     (case remove_attachments_options J keys of
        Inl e \<Rightarrow> Some (Inl e)
      | Inr options \<Rightarrow>
          case query_v2 hsrt lib J [meta_entry_of entry_name] None None options mark_removed (b, empty_batch) of
            None \<Rightarrow> None
          | Some (Inl e) \<Rightarrow> Some (Inl e)
          | Some (Inr (query_err, b', marked)) \<Rightarrow>
              if is_error query_err then Some (Inr (query_err, b'))
              else Some (bind_io
                     (on_client (process_batch_v2_records srt lib (bk_io_path b') marked kUpdate)) (\<lambda>r.
                       ret_io (if is_error (res_error r) then res_error r
                               else first_batch_record_error (res_value r))) b'))"

section \<open>Properties\<close>

text \<open>What one record does to the map of the attachments.\<close>

definition is_removal :: "readable_record \<Rightarrow> bool" where
  "is_removal r \<longleftrightarrow> map_of (rr_labels r) ''remove'' = Some ''true''"

definition attachment_edit :: "readable_record \<times> string \<Rightarrow> string \<times> string option" where
  "attachment_edit rp =
     (the (map_of (rr_labels (fst rp)) ''key''), if is_removal (fst rp) then None else Some (snd rp))"

definition apply_edit :: "string \<times> string option \<Rightarrow> attachment_map \<Rightarrow> attachment_map" where
  "apply_edit e m = (case e of (k, ov) \<Rightarrow> case ov of Some v \<Rightarrow> omap_assign k v m | None \<Rightarrow> omap_erase k m)"

lemma attachment_reader_step:
  assumes "fn_size (rr_read r) n" and "n \<le> length (concat cs)" and "\<forall>c \<in> set cs. length c < 2 ^ 63"
    and "map_of (rr_labels r) ''key'' \<noteq> None"
    and "is_removal r \<or> (\<exists>j. j_parse J (take n (concat cs)) = Inr j)"
  obtains cs' where "attachment_reader J r ((m, e), map Some cs @ [None]) =
      Some (Inr (True, (apply_edit (attachment_edit (r, take n (concat cs))) m, e), map Some cs' @ [None]))"
    "concat cs' = drop n (concat cs)" "\<forall>c \<in> set cs'. length c < 2 ^ 63"
proof -
  have "0 < n" using assms(1) by (simp add: fn_size_def)
  then obtain cs' where cs': "read_to_end (rr_read r) 0 [] (map Some cs @ [None]) =
      Some (Inr (take n (concat cs), map Some cs' @ [None]))"
    "concat cs' = drop n (concat cs)" "\<forall>c \<in> set cs'. length c < 2 ^ 63"
    using read_to_end_sized [OF assms(1), of "[]" cs] assms(2,3) by auto
  moreover have "attachment_reader J r ((m, e), map Some cs @ [None]) =
      Some (Inr (True, (apply_edit (attachment_edit (r, take n (concat cs))) m, e), map Some cs' @ [None]))"
    using assms(4,5) cs'(1)
    by (auto simp: attachment_reader_def attachment_edit_def apply_edit_def is_removal_def)
  ultimately show thesis by (intro that)
qed

lemma attachments_fold:
  assumes "list_all2 fn_size (map rr_read rs) ns" and "sum_list ns \<le> length (concat cs)"
    and "\<forall>c \<in> set cs. length c < 2 ^ 63"
    and "\<forall>r \<in> set rs. map_of (rr_labels r) ''key'' \<noteq> None"
    and "\<forall>(r, p) \<in> set (zip rs (split_sizes ns (concat cs))). is_removal r \<or> (\<exists>j. j_parse J p = Inr j)"
    and "\<forall>r \<in> set (butlast rs). \<not> rr_last r"
  shows "\<exists>stopped q. run_callbacks_inline (attachment_reader J) rs (False, (m, e), map Some cs @ [None]) =
    Some (Inr (stopped,
      (fold apply_edit (map attachment_edit (zip rs (split_sizes ns (concat cs)))) m, e), q))"
  using assms
proof (induction rs arbitrary: ns cs m)
  case Nil
  show ?case by (rule exI [of _ False]) simp
next
  case (Cons r rs)
  then obtain n ns' where ns: "ns = n # ns'" "fn_size (rr_read r) n" "list_all2 fn_size (map rr_read rs) ns'"
    by (cases ns) auto
  let ?m = "apply_edit (attachment_edit (r, take n (concat cs))) m"
  have "n \<le> length (concat cs)" "map_of (rr_labels r) ''key'' \<noteq> None"
    "is_removal r \<or> (\<exists>j. j_parse J (take n (concat cs)) = Inr j)"
    using Cons.prems(2,4,5) ns(1) by auto
  then obtain cs' where step: "attachment_reader J r ((m, e), map Some cs @ [None]) =
      Some (Inr (True, (?m, e), map Some cs' @ [None]))"
    "concat cs' = drop n (concat cs)" "\<forall>c \<in> set cs'. length c < 2 ^ 63"
    using attachment_reader_step [OF ns(2) _ Cons.prems(3), of J m e] by blast
  show ?case
  proof (cases "rs = []")
    case True
    then show ?thesis using step(1) ns(1) by simp
  next
    case False
    then have "\<not> rr_last r" "\<forall>r \<in> set (butlast rs). \<not> rr_last r" using Cons.prems(6) by simp_all
    moreover have "sum_list ns' \<le> length (concat cs')" using Cons.prems(2) ns(1) step(2) by simp
    ultimately show ?thesis
      using Cons.IH [OF ns(3) _ step(3), of ?m] Cons.prems(4,5) ns(1) step(1,2) by simp
  qed
qed

text \<open>
  C21: What \<^verbatim>\<open>ReadAttachments\<close> collects from the records of a response: for every key the last
  record decides, its content if it is not marked as removed, and nothing if it is; the map is
  sorted by key as \<^verbatim>\<open>std::map\<close> is, and there is no error.
\<close>

theorem attachments_last_record_wins:
  assumes "list_all2 fn_size (map rr_read rs) ns" and "sum_list ns \<le> length (concat cs)"
    and "\<forall>c \<in> set cs. length c < 2 ^ 63"
    and "\<forall>r \<in> set rs. map_of (rr_labels r) ''key'' \<noteq> None"
    and "\<forall>(r, p) \<in> set (zip rs (split_sizes ns (concat cs))). is_removal r \<or> (\<exists>j. j_parse J p = Inr j)"
    and "\<forall>r \<in> set (butlast rs). \<not> rr_last r"
  shows "\<exists>stopped attachments q.
    run_callbacks_inline (attachment_reader J) rs (False, ([], kOk), map Some cs @ [None]) =
      Some (Inr (stopped, (attachments, kOk), q)) \<and>
    omap_ok attachments \<and>
    map_of attachments =
      fold (\<lambda>(k, ov) f. f(k := ov)) (map attachment_edit (zip rs (split_sizes ns (concat cs)))) Map.empty"
proof -
  have edit: "apply_edit = (\<lambda>(k, ov) m. case ov of Some v \<Rightarrow> omap_assign k v m | None \<Rightarrow> omap_erase k m)"
    by (simp add: fun_eq_iff apply_edit_def)
  have "omap_ok ([] :: attachment_map)" by (simp add: omap_ok_def)
  from omap.edit_all [OF this] attachments_fold [OF assms, of "[]" kOk] show ?thesis
    unfolding edit by fastforce
qed

definition meta_record :: "label_map \<Rightarrow> bool \<Rightarrow> readable_record" where
  "meta_record labels last_one = \<lparr>rr_entry = ''e/$meta'', rr_timestamp = 0, rr_size = 1, rr_last = last_one,
     rr_labels = labels, rr_content_type = [], rr_read = Read_batched_v2 (of_nat 1) False\<rparr>"

text \<open>Every text is valid for this parser.\<close>

definition lenient_json :: "json_value json_ops" where
  "lenient_json = value_json (\<lambda>s. Inr JNull) (\<lambda>j. Inr [])"

theorem attachments_last_record_wins_witness:
  "\<exists>stopped attachments q.
    run_callbacks_inline (attachment_reader lenient_json)
      [meta_record [(''key'', ''a'')] False, meta_record [(''key'', ''b'')] False,
       meta_record [(''key'', ''a''), (''remove'', ''true'')] True]
      (False, ([], kOk), map Some [''12'', ''3''] @ [None]) = Some (Inr (stopped, (attachments, kOk), q)) \<and>
    omap_ok attachments \<and> map_of attachments = [''b'' \<mapsto> ''2'']"
proof -
  let ?rs = "[meta_record [(''key'', ''a'')] False, meta_record [(''key'', ''b'')] False,
    meta_record [(''key'', ''a''), (''remove'', ''true'')] True]"
  have fold: "fold (\<lambda>(k, ov) f. f(k := ov))
      (map attachment_edit (zip ?rs (split_sizes [1, 1, 1] (concat [''12'', ''3''])))) Map.empty = [''b'' \<mapsto> ''2'']"
    by (simp add: meta_record_def attachment_edit_def is_removal_def fun_eq_iff)
  show ?thesis
    unfolding fold [symmetric]
    by (rule attachments_last_record_wins)
      (simp_all add: meta_record_def fn_size_def is_removal_def lenient_json_def value_json_def)
qed

text \<open>
  The text that \<^verbatim>\<open>RemoveAttachments\<close> sends for a key stands for no other key, and where it
  starts with the \<^verbatim>\<open>$\<close> of an operator it starts with the escape \<^verbatim>\<open>$$\<close>.
\<close>

theorem escaped_keys_are_literals:
  "inj escape_key \<and> starts_with (escape_key key) ''$'' = starts_with (escape_key key) ''$$''"
proof
  show "inj escape_key"
  proof (rule injI)
    fix x y
    show "escape_key x = escape_key y \<Longrightarrow> x = y"
      by (cases x; cases y) (auto simp: escape_key_def split: if_splits)
  qed
  show "starts_with (escape_key key) ''$'' = starts_with (escape_key key) ''$$''"
    by (cases key) (auto simp: escape_key_def starts_with_def)
qed

end
