(* ===== verification/Bucket_Link.thy ===== *)
theory Bucket_Link
  imports Bucket_Base
begin

text \<open>
  Query links (bucket.cc): which options are accepted for which server, the default name of the
  file, and the request. A link names the bucket by the member \<^verbatim>\<open>name_\<close>.
\<close>

definition has_wildcard :: "string \<Rightarrow> bool" where
  "has_wildcard entry \<longleftrightarrow>
     find_char (CHR ''*'') entry \<noteq> None \<or> find_char (CHR ''?'') entry \<noteq> None \<or> find_char (CHR ''['') entry \<noteq> None"

definition no_link_options :: query_link_options where
  "no_link_options = \<lparr>ql_start = None, ql_stop = None, ql_query_options = default_query_options, ql_record_index = 0,
     ql_record_entry = None, ql_record_timestamp = None, ql_expire_at = None, ql_file_name = None, ql_base_url = None\<rparr>"

text \<open>The first test: the entry of a record timestamp is the only entry of the query, if that is a name.\<close>

definition infer_record_entry :: "string list \<Rightarrow> query_link_options \<Rightarrow> query_link_options option" where
  "infer_record_entry entries options =
     (if ql_record_timestamp options \<noteq> None \<and> ql_record_entry options = None then
        (case entries of
           [entry] \<Rightarrow> if has_wildcard entry then None else Some (options\<lparr>ql_record_entry := Some entry\<rparr>)
         | _ \<Rightarrow> None)
      else Some options)"

definition normalize_and_validate ::
  "'n httplib \<Rightarrow> string list \<Rightarrow> query_link_options \<Rightarrow> ('n bucket, query_link_options result) io" where
  "normalize_and_validate lib entries options0 =
     (case infer_record_entry entries options0 of
        None \<Rightarrow> ret_io (err_result no_link_options
          (mk_error (- 1) ''record_entry must be provided with record_timestamp''))
      | Some options \<Rightarrow>
          if ql_record_entry options \<noteq> None \<and> ql_record_timestamp options = None then
            ret_io (err_result no_link_options (mk_error (- 1) ''record_timestamp must be provided with record_entry''))
          else bind_io (ensure_api_version lib) (\<lambda>api.
            if is_error (res_error api) then ret_io (err_result no_link_options (res_error api))
            else bind_io (throws_io (is_compatible ''1.19'' (res_value api))) (\<lambda>v1_19.
              ret_io (if v1_19 \<and> ql_record_entry options = None then
                err_result no_link_options (mk_error (- 1)
                  (''record entry and timestamp must be provided for ReductStore API v1.19+; use '' @
                   ''record_entry and record_timestamp''))
              else ok_result options))))"

definition link_selector :: "query_link_options \<Rightarrow> int" where
  "link_selector options =
     (case ql_record_timestamp options of
        Some t \<Rightarrow> to_microseconds t
      | None \<Rightarrow> int64 (uint (ql_record_index options)))"

definition link_file_name :: "string \<Rightarrow> query_link_options \<Rightarrow> string" where
  "link_file_name name options =
     (case ql_file_name options of
        Some f \<Rightarrow> f
      | None \<Rightarrow> name @ ''_'' @ show_int (link_selector options) @ ''.bin'')"

text \<open>What the two overloads share: from the normalized options to the link.\<close>

definition post_link ::
  "'n httplib \<Rightarrow> 'j json_ops \<Rightarrow> time \<Rightarrow> string list \<Rightarrow> string \<Rightarrow> query_link_options result \<Rightarrow>
   ('n bucket, string result) io" where
  "post_link lib J now entries default_name normalized =
     (if is_error (res_error normalized) then ret_io (err_result [] (res_error normalized))
      else bind_io (get_io bk_name) (\<lambda>name.
        bind_io (throws_io (query_link_options_to_json J now name entries (res_value normalized))) (\<lambda>payload.
          if is_error (res_error payload) then ret_io (err_result [] (res_error payload))
          else bind_io (throws_io (j_dump J (res_value payload))) (\<lambda>body.
            bind_io (on_client (post_with_response lib
              (''/links/'' @ link_file_name default_name (res_value normalized)) body ''application/json'')) (\<lambda>r.
              throws_io (json_result J []
                (\<lambda>data. bind_throws (at_string J data ''link'') (\<lambda>link. Inr (ok_result link))) r))))))"

definition create_query_link ::
  "'n httplib \<Rightarrow> 'j json_ops \<Rightarrow> time \<Rightarrow> string \<Rightarrow> query_link_options \<Rightarrow> ('n bucket, string result) io" where
  "create_query_link lib J now entry_name options =
     bind_io (normalize_and_validate lib [entry_name] options) (post_link lib J now [entry_name] entry_name)"

definition create_query_link_entries ::
  "'n httplib \<Rightarrow> 'j json_ops \<Rightarrow> time \<Rightarrow> string list \<Rightarrow> query_link_options \<Rightarrow> ('n bucket, string result) io" where
  "create_query_link_entries lib J now entries options =
     bind_io supports_batch_protocol_v2 (\<lambda>v2.
       if \<not> v2 then ret_io (err_result [] (mk_error (- 1) ''Batch protocol v2 not supported''))
       else if entries = [] then ret_io (err_result [] (mk_error (- 1) ''At least one entry name is required''))
       else bind_io (get_io bk_name) (\<lambda>name.
         bind_io (normalize_and_validate lib entries options) (post_link lib J now entries name)))"

section \<open>Properties\<close>

text \<open>What a server accepts: the record is named by entry and time, or, before 1.19, by an index.\<close>

definition link_options_ok :: "string \<Rightarrow> query_link_options \<Rightarrow> bool" where
  "link_options_ok version options \<longleftrightarrow>
     (ql_record_entry options = None \<longleftrightarrow> ql_record_timestamp options = None) \<and>
     (is_compatible ''1.19'' version = Inr True \<longrightarrow> ql_record_entry options \<noteq> None)"

text \<open>
  C22: The options that \<^verbatim>\<open>NormalizeAndValidateQueryLinkOptions\<close> lets through are what the server
  accepts, they differ from the caller's at most in a record entry that was missing, and the
  entry put there is the only entry of the query and no pattern.
\<close>

theorem accepted_link_options:
  assumes "normalize_and_validate lib entries options b = Inr (r, b')" and "\<not> is_error (res_error r)"
  shows "(\<exists>version. cl_api_version (bk_client b') = Some version \<and> link_options_ok version (res_value r)) \<and>
    (res_value r = options \<or>
     (\<exists>entry. entries = [entry] \<and> \<not> has_wildcard entry \<and> ql_record_entry options = None \<and>
        res_value r = options\<lparr>ql_record_entry := Some entry\<rparr>))"
proof -
  obtain options' where opt: "infer_record_entry entries options = Some options'"
    using assms by (auto simp: normalize_and_validate_def ret_io_def split: option.splits)
  have run: "\<not> (ql_record_entry options' \<noteq> None \<and> ql_record_timestamp options' = None)"
    using assms opt by (auto simp: normalize_and_validate_def ret_io_def split: if_splits)
  with assms(1) opt obtain api b1 where ens: "ensure_api_version lib b = Inr (api, b1)"
    and rest: "(if is_error (res_error api) then ret_io (err_result no_link_options (res_error api))
      else bind_io (throws_io (is_compatible ''1.19'' (res_value api))) (\<lambda>v1_19.
        ret_io (if v1_19 \<and> ql_record_entry options' = None then
          err_result no_link_options (mk_error (- 1)
            (''record entry and timestamp must be provided for ReductStore API v1.19+; use '' @
             ''record_entry and record_timestamp''))
        else ok_result options'))) b1 = Inr (r, b')"
    unfolding normalize_and_validate_def by (auto simp only: option.case if_False bind_run)
  have noerr: "\<not> is_error (res_error api)" using rest assms(2) by (auto simp: ret_io_def)
  with rest obtain v1_19 where "is_compatible ''1.19'' (res_value api) = Inr v1_19"
    and "r = (if v1_19 \<and> ql_record_entry options' = None then
          err_result no_link_options (mk_error (- 1)
            (''record entry and timestamp must be provided for ReductStore API v1.19+; use '' @
             ''record_entry and record_timestamp''))
        else ok_result options')" "b' = b1"
    by (auto simp: bind_run ret_io_def throws_io_def bind_throws_Inr_iff)
  with ens noerr assms(2) have api: "ensure_api_version lib b = Inr (api, b1)" "\<not> is_error (res_error api)"
    "is_compatible ''1.19'' (res_value api) = Inr v1_19"
    "b' = b1" "r = ok_result options'" "\<not> (v1_19 \<and> ql_record_entry options' = None)"
    by (auto split: if_splits)
  have "cl_api_version (bk_client b1) = Some (res_value api)"
    using api(1,2)
    by (auto simp: ensure_api_version_def bind_run on_client_def get_api_version_def get_io_def ret_io_def
        bind_throws_Inr_iff split: option.splits if_splits)
  moreover have "ql_record_timestamp options' = None \<or> ql_record_entry options' \<noteq> None"
    using opt by (auto simp: infer_record_entry_def split: if_splits list.splits)
  ultimately have "\<exists>version. cl_api_version (bk_client b') = Some version \<and> link_options_ok version (res_value r)"
    using run api(3-6) by (auto simp: link_options_ok_def)
  moreover have "options' = options \<or>
     (\<exists>entry. entries = [entry] \<and> \<not> has_wildcard entry \<and> ql_record_entry options = None \<and>
        options' = options\<lparr>ql_record_entry := Some entry\<rparr>)"
    using opt by (auto simp: infer_record_entry_def split: if_splits list.splits)
  ultimately show ?thesis using api(5) by simp
qed

definition link_at_time :: query_link_options where
  "link_at_time = no_link_options\<lparr>ql_record_timestamp := Some 5000\<rparr>"

theorem accepted_link_options_witness:
  "(\<exists>version. cl_api_version (bk_client (sample_bucket (Some ''1.19''))) = Some version \<and>
      link_options_ok version (link_at_time\<lparr>ql_record_entry := Some ''e''\<rparr>)) \<and>
   (link_at_time\<lparr>ql_record_entry := Some ''e''\<rparr> = link_at_time \<or>
     (\<exists>entry. [''e''] = [entry] \<and> \<not> has_wildcard entry \<and> ql_record_entry link_at_time = None \<and>
        link_at_time\<lparr>ql_record_entry := Some ''e''\<rparr> = link_at_time\<lparr>ql_record_entry := Some entry\<rparr>))"
proof -
  have "is_compatible ''1.19'' ''1.19'' = Inr True" by code_simp
  then have run: "normalize_and_validate lib [''e''] link_at_time (sample_bucket (Some ''1.19'')) =
      Inr (ok_result (link_at_time\<lparr>ql_record_entry := Some ''e''\<rparr>), sample_bucket (Some ''1.19''))"
    for lib :: "unit httplib"
    by (simp add: normalize_and_validate_def infer_record_entry_def link_at_time_def no_link_options_def
        has_wildcard_def find_char_absent ensure_api_version_def bind_io_def throws_io_def on_client_def
        get_api_version_def get_io_def ret_io_def sample_bucket_def build_bucket_def)
  show ?thesis using accepted_link_options [OF run] by simp
qed

text \<open>
  A successful \<^verbatim>\<open>Rename\<close> sends the later requests of the object to the new bucket, but a query
  link is still made for the old name: the member that \<^verbatim>\<open>CreateQueryLink\<close> reads is not changed.
\<close>

theorem rename_keeps_link_name:
  assumes "rename_bucket lib J new_name b = Inr (kOk, b')"
  shows "bk_path b' = ''/b/'' @ new_name \<and> bk_io_path b' = ''/io/'' @ new_name \<and>
    post_link lib J now entries default_name (ok_result options) b' =
      bind_io (throws_io (query_link_options_to_json J now (bk_name b) entries options)) (\<lambda>payload.
        if is_error (res_error payload) then ret_io (err_result [] (res_error payload))
        else bind_io (throws_io (j_dump J (res_value payload))) (\<lambda>body.
          bind_io (on_client (post_with_response lib (''/links/'' @ link_file_name default_name options) body
            ''application/json'')) (\<lambda>r.
            throws_io (json_result J []
              (\<lambda>data. bind_throws (at_string J data ''link'') (\<lambda>link. Inr (ok_result link))) r)))) b'"
proof -
  obtain body err b1 where put: "on_client (http_put lib (bk_path b @ ''/rename'') body ''application/json'') b =
      Inr (err, b1)"
    and rest: "(if is_error err then Inr (err, b1)
      else Inr (kOk, b1\<lparr>bk_path := ''/b/'' @ new_name, bk_io_path := ''/io/'' @ new_name\<rparr>)) = Inr (kOk, b')"
    using assms
    by (auto simp: rename_bucket_def bind_run get_io_def throws_io_def ret_io_def bind_throws_Inr_iff if_distrib
        split: if_splits)
  from rest have "b' = b1\<lparr>bk_path := ''/b/'' @ new_name, bk_io_path := ''/io/'' @ new_name\<rparr>"
    by (auto split: if_splits)
  then show ?thesis
    using on_client_keeps [OF put] unfolding post_link_def result_simps by (simp add: get_run)
qed

definition plain_reply :: http_response where
  "plain_reply = \<lparr>hr_status = 200, hr_headers = [], hr_body = []\<rparr>"

definition plain_json :: "json_value json_ops" where
  "plain_json = value_json (\<lambda>s. Inr JNull) (\<lambda>j. Inr [])"

definition renamed_bucket :: "unit bucket" where
  "renamed_bucket = sample_bucket None\<lparr>bk_path := ''/b/new'', bk_io_path := ''/io/new''\<rparr>"

theorem rename_keeps_link_name_witness:
  "bk_path renamed_bucket = ''/b/new'' \<and> bk_io_path renamed_bucket = ''/io/new'' \<and>
    post_link (answering plain_reply) plain_json 0 [''e''] ''e'' (ok_result no_link_options) renamed_bucket =
      bind_io (throws_io (query_link_options_to_json plain_json 0 ''x'' [''e''] no_link_options)) (\<lambda>payload.
        if is_error (res_error payload) then ret_io (err_result [] (res_error payload))
        else bind_io (throws_io (j_dump plain_json (res_value payload))) (\<lambda>body.
          bind_io (on_client (post_with_response (answering plain_reply)
            (''/links/'' @ link_file_name ''e'' no_link_options) body ''application/json'')) (\<lambda>r.
            throws_io (json_result plain_json []
              (\<lambda>data. bind_throws (at_string plain_json data ''link'') (\<lambda>link. Inr (ok_result link))) r))))
        renamed_bucket"
proof -
  have name: "bk_name (sample_bucket None) = ''x''" by (simp add: sample_bucket_def build_bucket_def)
  have run: "rename_bucket (answering plain_reply) plain_json ''new'' (sample_bucket None) = Inr (kOk, renamed_bucket)"
    by code_simp
  show ?thesis
    using rename_keeps_link_name [OF run, of 0 "[''e'']" "''e''" no_link_options] unfolding name by simp
qed

end
