(* ===== verification/Bucket_Invariant.thy ===== *)
theory Bucket_Invariant
  imports Client_Invariant Bucket_Attachments Bucket_Link
begin

text \<open>
  The same for \<^verbatim>\<open>Bucket\<close>: every method keeps what the requests keep, the two paths always name
  one bucket, and the member \<^verbatim>\<open>name_\<close> stays what it was. A session is a sequence of calls; the
  state \<open>'u\<close> beside the bucket is what the callbacks of reads and queries change.
\<close>

definition paths_agree :: "'n bucket \<Rightarrow> bool" where
  "paths_agree b \<longleftrightarrow> (\<exists>name. bk_path b = ''/b/'' @ name \<and> bk_io_path b = ''/io/'' @ name)"

definition bucket_has :: "('n http_client \<Rightarrow> bool) \<Rightarrow> string \<Rightarrow> 'n bucket \<Rightarrow> bool" where
  "bucket_has P name b \<longleftrightarrow> P (bk_client b) \<and> bk_name b = name \<and> paths_agree b"

lemma on_client_has [keeps_intros]: "keeps P m \<Longrightarrow> keeps (bucket_has P name) (on_client m)"
  by (auto simp: keeps_def on_client_def bind_throws_Inr_iff bucket_has_def paths_agree_def)

lemma renamed_has: "bucket_has P name b \<Longrightarrow>
    bucket_has P name (b\<lparr>bk_path := ''/b/'' @ new_name, bk_io_path := ''/io/'' @ new_name\<rparr>)"
  by (auto simp: bucket_has_def paths_agree_def)

lemma built_has: "P c \<Longrightarrow> bucket_has P name \<lparr>bk_client = c, bk_name = name, bk_path = ''/b/'' @ name, bk_io_path = ''/io/'' @ name\<rparr>"
  by (simp add: bucket_has_def paths_agree_def)

lemma map_result_some: "map_result f m = Some (Inr (y, s)) \<longleftrightarrow> (\<exists>x. m = Some (Inr (x, s)) \<and> y = f x)"
proof (cases m)
  case (Some r)
  then show ?thesis by (cases r) (auto simp: map_result_def)
qed (simp add: map_result_def)

section \<open>The methods\<close>

context client_invariant begin

lemma sends_keep [keeps_intros]:
  "keeps P (send_batch_v1 lib path entry_name type b ordered hs)" "keeps P (send_batch_v2 lib path type b ordered hs)"
  unfolding send_batch_v1_def send_batch_v2_def Let_def
  by (cases type; simp add: requests_keep)+

lemma batches_keep [keeps_intros]:
  "keeps P (process_batch_v1 srt lib path entry_name b type)"
  "keeps P (process_batch_v2 srt lib path entry_name b type)"
  "keeps P (process_batch_v2_records srt lib path b type)"
  unfolding process_batch_v1_def process_batch_v2_def process_batch_v2_records_def Let_def
  by (intro keeps_intros)+

lemma receive_keeps [keeps_intros]: "keeps P (receive lib head path hs)"
  unfolding receive_def by (intro keeps_intros)

lemma version_methods_keep [keeps_intros]:
  "keeps (bucket_has P name) supports_batch_protocol_v2"
  "keeps (bucket_has P name) (ensure_api_version lib)"
  unfolding supports_batch_protocol_v2_def ensure_api_version_def by (intro keeps_intros)+

lemma base_methods_keep [keeps_intros]:
  "keeps (bucket_has P name) (get_settings lib J)"
  "keeps (bucket_has P name) (update_settings lib J settings)"
  "keeps (bucket_has P name) (get_bucket_info lib J)"
  "keeps (bucket_has P name) (get_entry_list lib J)"
  "keeps (bucket_has P name) (remove_bucket lib)"
  "keeps (bucket_has P name) (remove_entry lib entry_name)"
  "keeps (bucket_has P name) (remove_record lib entry_name ts)"
  "keeps (bucket_has P name) (rename_entry lib J entry_name new_name)"
  "keeps (bucket_has P name) (write_record lib now entry_name options callback)"
  "keeps (bucket_has P name) (update_record lib entry_name options)"
  unfolding get_settings_def update_settings_def get_bucket_info_def get_entry_list_def remove_bucket_def
    remove_entry_def remove_record_def rename_entry_def write_record_def update_record_def error_of_def Let_def
  by (intro keeps_intros)+

lemma rename_keeps [keeps_intros]: "keeps (bucket_has P name) (rename_bucket lib J new_name)"
proof -
  have "keeps (bucket_has P name) (\<lambda>b. Inr (kOk, b\<lparr>bk_path := ''/b/'' @ new_name, bk_io_path := ''/io/'' @ new_name\<rparr>))"
    by (rule keepsI) (auto simp: renamed_has [simplified])
  then show ?thesis unfolding rename_bucket_def by (intro keeps_intros)
qed

lemma batch_methods_keep [keeps_intros]:
  "keeps (bucket_has P name) (process_entry_batch srt lib entry_name callback type)"
  "keeps (bucket_has P name) (process_records_batch srt lib callback type)"
  "keeps (bucket_has P name) (write_attachments srt lib J now entry_name attachments)"
  unfolding process_entry_batch_def process_records_batch_def write_attachments_def Let_def
  by (intro keeps_intros)+

lemma link_methods_keep [keeps_intros]:
  "keeps (bucket_has P name) (create_query_link lib J now entry_name options)"
  "keeps (bucket_has P name) (create_query_link_entries lib J now entries options)"
  unfolding create_query_link_def create_query_link_entries_def normalize_and_validate_def post_link_def
  by (intro keeps_intros)+

lemma query_requests_keep [keeps_intros]:
  "keeps (bucket_has P name) (query_request lib J path get type entries start stop options)"
  "keeps (bucket_has P name) (remove_query_v2 lib J entries start stop options)"
  unfolding query_request_def remove_query_v2_def post_query_def by (intro keeps_intros)+

lemma remove_queries_keep [keeps_intros]:
  "keeps (bucket_has P name) (remove_query_entry lib J entry_name start stop options)"
  "keeps (bucket_has P name) (remove_query_entries lib J entries start stop options)"
proof -
  have "keeps (bucket_has P name) (remove_query_v1 lib J entry_name start stop options)"
    by (rule keepsI) (auto simp: remove_query_v1_def elim: keepsD [OF query_requests_keep(1)])
  then show "keeps (bucket_has P name) (remove_query_entry lib J entry_name start stop options)"
    unfolding remove_query_entry_def by (intro keeps_intros)
  show "keeps (bucket_has P name) (remove_query_entries lib J entries start stop options)"
    unfolding remove_query_entries_def by (intro keeps_intros)
qed

text \<open>Reads and queries, with the state of the callbacks beside the bucket.\<close>

lemma read_inline_keeps:
  "keeps_maybe (\<lambda>bu. bucket_has P name (fst bu)) (read_record_inline lib build head path hs callback)"
proof (unfold keeps_maybe_def, intro allI impI)
  fix bu x bu'
  assume has: "bucket_has P name (fst bu)"
    and run: "read_record_inline lib build head path hs callback bu = Some (Inr (x, bu'))"
  obtain b u b' u' where bu: "bu = (b, u)" "bu' = (b', u')" by (metis prod.exhaust)
  from run obtain r where "on_client (receive lib head path hs) b = Inr (r, b')"
    unfolding bu by (auto simp: read_record_inline_def split: sum.splits prod.splits if_splits option.splits)
  from keepsD [OF on_client_has [OF receive_keeps] this] has bu show "bucket_has P name (fst bu')" by simp
qed

lemma poll_loop_keeps:
  assumes "keeps_maybe Q read"
  shows "keeps_maybe Q (poll_loop read continuous)"
proof (unfold keeps_maybe_def, intro allI impI)
  fix s e t assume Q: "Q s" and run: "poll_loop read continuous s = Some (Inr (e, t))"
  obtain s1 where go: "(goes_on read continuous)\<^sup>*\<^sup>* s s1" and fin: "ends_with_error read continuous s1 e t"
    using poll_loop_sound [OF run refl] by blast
  have "Q s1" using go Q
    by (induction rule: rtranclp_induct) (auto simp: goes_on_def dest: keeps_maybeD [OF assms])
  with fin show "Q t" by (auto simp: ends_with_error_def dest: keeps_maybeD [OF assms])
qed

lemma run_query_keeps:
  assumes "keeps (bucket_has P name) request"
    and "\<And>id. keeps_maybe (\<lambda>bu. bucket_has P name (fst bu)) (read id)"
    and "run_query request read continuous bu = Some (Inr (e, bu'))" and "bucket_has P name (fst bu)"
  shows "bucket_has P name (fst bu')"
  using assms(3,4) keepsD [OF assms(1)] keeps_maybeD [OF poll_loop_keeps [OF assms(2)]]
  by (auto simp: run_query_def split: sum.splits prod.splits if_splits)

lemma reads_keep:
  "keeps_maybe (\<lambda>bu. bucket_has P name (fst bu)) (read_record lib path type head callback)"
  "keeps_maybe (\<lambda>bu. bucket_has P name (fst bu)) (read_record_v2 hsrt lib qid head callback)"
  using keeps_maybeD [OF read_inline_keeps]
  unfolding keeps_maybe_def read_record_def read_record_v2_def by blast+

lemma query_v1_keeps:
  "query_v1 lib J entry_name start stop options callback bu = Some (Inr (e, bu')) \<Longrightarrow>
     bucket_has P name (fst bu) \<Longrightarrow> bucket_has P name (fst bu')"
  unfolding query_v1_def by (rule run_query_keeps [OF query_requests_keep(1) reads_keep(1)])

lemma query_v2_keeps:
  "query_v2 hsrt lib J entries start stop options callback bu = Some (Inr (e, bu')) \<Longrightarrow>
     bucket_has P name (fst bu) \<Longrightarrow> bucket_has P name (fst bu')"
  unfolding query_v2_def by (rule run_query_keeps [OF query_requests_keep(1) reads_keep(2)])

lemma queries_keep:
  "query_entry hsrt lib J entry_name start stop options callback bu = Some (Inr (e, bu')) \<Longrightarrow>
     bucket_has P name (fst bu) \<Longrightarrow> bucket_has P name (fst bu')"
  "query_entries hsrt lib J entries start stop options callback bu = Some (Inr (e, bu')) \<Longrightarrow>
     bucket_has P name (fst bu) \<Longrightarrow> bucket_has P name (fst bu')"
  unfolding query_entry_def query_entries_def
  by (auto split: sum.splits prod.splits if_splits
      dest!: query_v1_keeps query_v2_keeps dest: keepsD [OF version_methods_keep(1)])

lemma single_reads_keep:
  "read_one lib entry_name ts callback bu = Some (Inr (e, bu')) \<Longrightarrow>
     bucket_has P name (fst bu) \<Longrightarrow> bucket_has P name (fst bu')"
  "head_one lib entry_name ts callback bu = Some (Inr (e, bu')) \<Longrightarrow>
     bucket_has P name (fst bu) \<Longrightarrow> bucket_has P name (fst bu')"
  unfolding read_one_def head_one_def
  by (auto simp: map_result_some dest: keeps_maybeD [OF reads_keep(1)])

lemma attachments_keep:
  "read_attachments hsrt lib J entry_name b = Some (Inr (r, b')) \<Longrightarrow> bucket_has P name b \<Longrightarrow> bucket_has P name b'"
  "remove_attachments srt hsrt lib J entry_name keys b = Some (Inr (e, b')) \<Longrightarrow>
     bucket_has P name b \<Longrightarrow> bucket_has P name b'"
proof -
  show "bucket_has P name b'"
    if "read_attachments hsrt lib J entry_name b = Some (Inr (r, b'))" "bucket_has P name b"
    using that by (auto simp: read_attachments_def split: option.splits sum.splits prod.splits if_splits
        dest!: query_v2_keeps)
  show "bucket_has P name b'"
    if run: "remove_attachments srt hsrt lib J entry_name keys b = Some (Inr (e, b'))" "bucket_has P name b"
  proof -
    from run(1) obtain options query_err b1 marked where
      query: "query_v2 hsrt lib J [meta_entry_of entry_name] None None options mark_removed (b, empty_batch) =
        Some (Inr (query_err, b1, marked))"
      and rest: "b' = b1 \<or> bind_io (on_client (process_batch_v2_records srt lib (bk_io_path b1) marked kUpdate)) (\<lambda>r.
          ret_io (if is_error (res_error r) then res_error r
                  else first_batch_record_error (res_value r))) b1 = Inr (e, b')"
      unfolding remove_attachments_def
      by (auto split: option.splits sum.splits prod.splits if_splits)
    have "bucket_has P name b1" using query_v2_keeps [OF query] run(2) by simp
    moreover have "keeps (bucket_has P name)
        (bind_io (on_client (process_batch_v2_records srt lib (bk_io_path b1) marked kUpdate)) (\<lambda>r.
          ret_io (if is_error (res_error r) then res_error r else first_batch_record_error (res_value r))))"
      by (intro keeps_intros)
    ultimately show ?thesis using rest by (auto dest: keepsD)
  qed
qed

end

section \<open>Sessions of a bucket\<close>

inductive bucket_step ::
  "sort_fn \<Rightarrow> header_sort \<Rightarrow> 'n httplib \<Rightarrow> 'j json_ops \<Rightarrow> 'n bucket \<times> 'u \<Rightarrow> 'n bucket \<times> 'u \<Rightarrow> bool"
  for srt hsrt lib J where
  bs_settings: "runs (get_settings lib J) b b' \<Longrightarrow> bucket_step srt hsrt lib J (b, u) (b', u)"
| bs_update_settings: "runs (update_settings lib J settings) b b' \<Longrightarrow> bucket_step srt hsrt lib J (b, u) (b', u)"
| bs_info: "runs (get_bucket_info lib J) b b' \<Longrightarrow> bucket_step srt hsrt lib J (b, u) (b', u)"
| bs_entries: "runs (get_entry_list lib J) b b' \<Longrightarrow> bucket_step srt hsrt lib J (b, u) (b', u)"
| bs_remove: "runs (remove_bucket lib) b b' \<Longrightarrow> bucket_step srt hsrt lib J (b, u) (b', u)"
| bs_remove_entry: "runs (remove_entry lib entry_name) b b' \<Longrightarrow> bucket_step srt hsrt lib J (b, u) (b', u)"
| bs_remove_record: "runs (remove_record lib entry_name ts) b b' \<Longrightarrow> bucket_step srt hsrt lib J (b, u) (b', u)"
| bs_rename_entry: "runs (rename_entry lib J entry_name new_name) b b' \<Longrightarrow> bucket_step srt hsrt lib J (b, u) (b', u)"
| bs_rename: "runs (rename_bucket lib J new_name) b b' \<Longrightarrow> bucket_step srt hsrt lib J (b, u) (b', u)"
| bs_write: "runs (write_record lib now entry_name wo fill_record) b b' \<Longrightarrow> bucket_step srt hsrt lib J (b, u) (b', u)"
| bs_write_at: "runs (write_record_at lib now entry_name at fill_record) b b' \<Longrightarrow> bucket_step srt hsrt lib J (b, u) (b', u)"
| bs_update: "runs (update_record lib entry_name wo) b b' \<Longrightarrow> bucket_step srt hsrt lib J (b, u) (b', u)"
| bs_write_entry_batch: "runs (write_entry_batch srt lib entry_name fill) b b' \<Longrightarrow> bucket_step srt hsrt lib J (b, u) (b', u)"
| bs_update_entry_batch: "runs (update_entry_batch srt lib entry_name fill) b b' \<Longrightarrow> bucket_step srt hsrt lib J (b, u) (b', u)"
| bs_remove_entry_batch: "runs (remove_entry_batch srt lib entry_name fill) b b' \<Longrightarrow> bucket_step srt hsrt lib J (b, u) (b', u)"
| bs_write_batch: "runs (write_batch srt lib fill) b b' \<Longrightarrow> bucket_step srt hsrt lib J (b, u) (b', u)"
| bs_update_batch: "runs (update_batch srt lib fill) b b' \<Longrightarrow> bucket_step srt hsrt lib J (b, u) (b', u)"
| bs_remove_batch: "runs (remove_batch srt lib fill) b b' \<Longrightarrow> bucket_step srt hsrt lib J (b, u) (b', u)"
| bs_write_attachments: "runs (write_attachments srt lib J now entry_name attachments) b b' \<Longrightarrow> bucket_step srt hsrt lib J (b, u) (b', u)"
| bs_remove_query: "runs (remove_query_entry lib J entry_name start stop options) b b' \<Longrightarrow> bucket_step srt hsrt lib J (b, u) (b', u)"
| bs_remove_queries: "runs (remove_query_entries lib J entry_names start stop options) b b' \<Longrightarrow> bucket_step srt hsrt lib J (b, u) (b', u)"
| bs_link: "runs (create_query_link lib J now entry_name link) b b' \<Longrightarrow> bucket_step srt hsrt lib J (b, u) (b', u)"
| bs_links: "runs (create_query_link_entries lib J now entry_names link) b b' \<Longrightarrow> bucket_step srt hsrt lib J (b, u) (b', u)"
| bs_read:
    "read_one lib entry_name at callback (b, u) = Some (Inr (e, b', u')) \<Longrightarrow>
     bucket_step srt hsrt lib J (b, u) (b', u')"
| bs_head:
    "head_one lib entry_name at callback (b, u) = Some (Inr (e, b', u')) \<Longrightarrow>
     bucket_step srt hsrt lib J (b, u) (b', u')"
| bs_query:
    "query_entry hsrt lib J entry_name start stop options callback (b, u) = Some (Inr (e, b', u')) \<Longrightarrow>
     bucket_step srt hsrt lib J (b, u) (b', u')"
| bs_queries:
    "query_entries hsrt lib J entry_names start stop options callback (b, u) = Some (Inr (e, b', u')) \<Longrightarrow>
     bucket_step srt hsrt lib J (b, u) (b', u')"
| bs_attachments:
    "read_attachments hsrt lib J entry_name b = Some (Inr (r, b')) \<Longrightarrow>
     bucket_step srt hsrt lib J (b, u) (b', u)"
| bs_remove_attachments:
    "remove_attachments srt hsrt lib J entry_name keys b = Some (Inr (e, b')) \<Longrightarrow>
     bucket_step srt hsrt lib J (b, u) (b', u)"

context client_invariant begin

lemma bucket_step_keeps:
  assumes "bucket_step srt hsrt lib J bu bu'" and "bucket_has P name (fst bu)"
  shows "bucket_has P name (fst bu')"
  using assms
proof (induction rule: bucket_step.induct)
  case bs_read
  then show ?case using single_reads_keep(1) by fastforce
next
  case bs_head
  then show ?case using single_reads_keep(2) by fastforce
next
  case bs_query
  then show ?case using queries_keep(1) by fastforce
next
  case bs_queries
  then show ?case using queries_keep(2) by fastforce
next
  case bs_attachments
  then show ?case using attachments_keep(1) by fastforce
next
  case bs_remove_attachments
  then show ?case using attachments_keep(2) by fastforce
qed (simp only: fst_conv; erule keeps_runs;
    (simp only: write_record_at_def write_entry_batch_def update_entry_batch_def remove_entry_batch_def
      write_batch_def update_batch_def remove_batch_def)?; intro keeps_intros)+

lemma bucket_session_keeps:
  assumes "(bucket_step srt hsrt lib J)\<^sup>*\<^sup>* bu bu'" and "bucket_has P name (fst bu)"
  shows "bucket_has P name (fst bu')"
  using assms by (induction rule: rtranclp_induct) (auto intro: bucket_step_keeps)

end

end
