(* ===== verification/Sessions.thy ===== *)
theory Sessions
  imports Bucket_Invariant
begin

text \<open>
  What holds after any sequence of calls on a client, and on a bucket that the client returned:
  the members that no call changes, and what the version of the API can be; and what the test of
  versions makes of the versions that are accepted.
\<close>

section \<open>Versions\<close>

lemma accepted_one_dot:
  assumes "accepted_version v" and "count_list v (CHR ''.'') = 1"
  obtains a b minor where "v = a @ CHR ''.'' # b" "getlines (CHR ''.'') v = [a, b]"
    "stoi 10 a = Inr 1" "stoi 10 b = Inr minor"
proof -
  from assms(1) obtain dot minor where dot: "find_char (CHR ''.'') v = Some dot"
    and major: "stoi 10 (substr v 0 dot) = Inr 1" and minor: "stoi 10 (substr_from v (dot + 1)) = Inr minor"
    by (auto simp: accepted_version_def major_version_def split: option.splits sum.splits)
  from dot have "CHR ''.'' \<in> set v" using find_char_None [of "CHR ''.''" v] by auto
  then obtain a b where v: "v = a @ CHR ''.'' # b" "CHR ''.'' \<notin> set a" by (metis split_list_first)
  with dot have "dot = length a" by (simp add: find_char_first)
  with major minor v have ab: "stoi 10 a = Inr 1" "stoi 10 b = Inr minor"
    by (simp_all add: substr_def substr_from_def)
  have "CHR ''.'' \<notin> set b" using assms(2) v by (simp add: count_list_0_iff)
  moreover have "b \<noteq> []" using ab(2) by (auto simp: stoi_def strto_def)
  ultimately have "getlines (CHR ''.'') v = [a, b]"
    using v by (simp add: getlines_append getlines_no_delim)
  with v(1) ab show thesis by (intro that)
qed

lemma dot_in_show: "CHR ''.'' \<notin> set (show_nat k)"
  by (rule show_nat_no_char) (simp add: cis_digit_def code_of_def)

lemma stoi_one: "stoi 10 ''1'' = Inr 1"
  by code_simp

lemma parse_minor: "n < 2 ^ 31 \<Longrightarrow> parse_version (''1.'' @ show_nat n) = Inr [1, int n]"
  by (simp add: parse_version_def getlines_no_delim dot_in_show stoi_one stoi_show_nat)

lemma accepted_compatible:
  assumes "accepted_version v" and "count_list v (CHR ''.'') = 1"
  shows "\<exists>minor. \<forall>n < 2 ^ 31. is_compatible (''1.'' @ show_nat n) v = Inr (int n \<le> minor)"
proof -
  obtain a b minor where v: "v = a @ CHR ''.'' # b" "getlines (CHR ''.'') v = [a, b]"
    "stoi 10 a = Inr 1" "stoi 10 b = Inr minor"
    using accepted_one_dot [OF assms] .
  then have "parse_version v = Inr [1, minor]" "v \<noteq> []" by (simp_all add: parse_version_def)
  then show ?thesis
    using parse_minor by (auto simp: is_compatible_def intro!: exI [of _ minor])
qed

lemma patch_version_parts:
  assumes "m < 2 ^ 31" and "p < 2 ^ 31"
  shows "accepted_version (''1.'' @ show_nat m @ ''.'' @ show_nat p)"
    and "parse_version (''1.'' @ show_nat m @ ''.'' @ show_nat p) = Inr [1, int m, int p]"
proof -
  have "strto 10 (show_nat m @ ''.'' @ show_nat p) = Some (False, m)"
    by (rule strto_show_nat) (simp add: no_digit_first_def cis_digit_def code_of_def)
  then have minor: "stoi 10 (show_nat m @ ''.'' @ show_nat p) = Inr (int m)"
    using assms(1) by (simp add: stoi_def signed_of_def)
  then show "accepted_version (''1.'' @ show_nat m @ ''.'' @ show_nat p)"
    by (simp add: stoi_one accepted_version_def substr_def substr_from_def major_version_def)
  have "getlines (CHR ''.'') (''1.'' @ show_nat m @ ''.'' @ show_nat p) = [''1'', show_nat m, show_nat p]"
    by (simp add: getlines_append getlines_no_delim dot_in_show)
  then show "parse_version (''1.'' @ show_nat m @ ''.'' @ show_nat p) = Inr [1, int m, int p]"
    using assms by (simp add: parse_version_def stoi_show_nat stoi_one)
qed

section \<open>Properties\<close>

text \<open>
  C27: Whatever sequence of calls is made on a client: its URL and options, the settings of its HTTP
  transport, its token and its path prefix are those of the constructor, and the version of the
  API that it has learned, if any, is one that \<^verbatim>\<open>CheckRequest\<close> accepts.
\<close>

theorem client_session_invariant:
  assumes "(client_step lib J moved)\<^sup>*\<^sup>* (build_client url options net) c"
  shows "cc_url c = url \<and> cc_options c = options \<and>
    same_setup (build_http_client url options net) (cc_http c) \<and> version_ok (cc_http c)"
proof -
  have "client_has (same_setup (build_http_client url options net)) url options (build_client url options net)"
    "client_has version_ok url options (build_client url options net)"
    by (simp_all add: client_has_def build_client_def same_setup_def version_ok_def build_http_client_def
        split: prod.split)
  from constructed.client_session_keeps [OF assms this(1)] known_version.client_session_keeps [OF assms this(2)]
  show ?thesis by (simp add: client_has_def)
qed

lemma bucket_of_has:
  assumes "client_has version_ok url options c"
    and "client_has (same_setup (build_http_client url options net)) url options c"
  shows "bucket_has version_ok name (bucket_of name c)"
    and "bucket_has (same_setup (build_http_client url options net)) name (bucket_of name c)"
  using assms
  by (auto simp: client_has_def bucket_has_def bucket_of_def build_bucket_def paths_agree_def version_ok_def
      same_setup_def build_http_client_def Let_def split: option.splits prod.splits)

lemma client_session_has:
  assumes "(client_step lib J moved)\<^sup>*\<^sup>* (build_client url options net) c"
  shows "client_has version_ok url options c"
    and "client_has (same_setup (build_http_client url options net)) url options c"
  by (rule known_version.client_session_keeps [OF assms] constructed.client_session_keeps [OF assms],
      simp add: client_has_def build_client_def same_setup_def version_ok_def build_http_client_def split: prod.split)+

text \<open>
  C11: Whatever sequence of calls is made on a bucket that a client returned after any sequence of
  calls: it talks to the URL of the client with the same settings, token and prefix, its two paths
  name the same bucket, also after it was renamed, \<^verbatim>\<open>name_\<close> is still the name it was asked for, and
  its version of the API is one that \<^verbatim>\<open>CheckRequest\<close> accepts.
\<close>

theorem bucket_session_invariant:
  assumes "(client_step lib J moved)\<^sup>*\<^sup>* (build_client url options net) c"
    and "(bucket_step srt hsrt lib J)\<^sup>*\<^sup>* (bucket_of name c, u) (b, u')"
  shows "bk_name b = name \<and> paths_agree b \<and>
    same_setup (build_http_client url options net) (bk_client b) \<and> version_ok (bk_client b)"
  using known_version.bucket_session_keeps [OF assms(2)] constructed.bucket_session_keeps [OF assms(2)]
    bucket_of_has [OF client_session_has [OF assms(1)]]
  by (auto simp: bucket_has_def)



section \<open>Examples\<close>

definition plain_options :: http_options where
  "plain_options = \<lparr>ho_api_token = ''t'', ho_ssl_verification = True, ho_connection_timeout = Some 5,
     ho_request_timeout = None\<rparr>"

text \<open>A server of 1.20 that refuses everything but answers with its version.\<close>

definition server_1_20 :: "unit httplib" where
  "server_1_20 = answering \<lparr>hr_status = 200, hr_headers = [(''x-reduct-api'', ''1.20'')], hr_body = []\<rparr>"

definition after_remove :: "unit client" where
  "after_remove = (let c = build_client ''http://h'' plain_options ()
     in c\<lparr>cc_http := cc_http c\<lparr>cl_api_version := Some ''1.20''\<rparr>\<rparr>)"

lemma after_remove_session:
  "(client_step server_1_20 printing_json id)\<^sup>*\<^sup>* (build_client ''http://h'' plain_options ()) after_remove"
proof -
  have "remove_token server_1_20 ''t'' (build_client ''http://h'' plain_options ()) = Inr (kOk, after_remove)"
    by code_simp
  then have "runs (remove_token server_1_20 ''t'') (build_client ''http://h'' plain_options ()) after_remove"
    by (auto simp: runs_def)
  then show ?thesis by (blast intro: cs_remove_token)
qed

theorem client_session_invariant_witness:
  "same_setup (build_http_client ''http://h'' plain_options ()) (cc_http after_remove) \<and> version_ok (cc_http after_remove)"
  using client_session_invariant [OF after_remove_session] by blast


theorem bucket_session_invariant_witness:
  "\<exists>b. rename_bucket server_1_20 printing_json ''new'' (bucket_of ''old'' after_remove) = Inr (kOk, b) \<and>
     bk_name b = ''old'' \<and> paths_agree b \<and> version_ok (bk_client b)"
proof -
  define b where "b = bucket_of ''old'' after_remove\<lparr>bk_path := ''/b/new'', bk_io_path := ''/io/new''\<rparr>"
  have run: "rename_bucket server_1_20 printing_json ''new'' (bucket_of ''old'' after_remove) = Inr (kOk, b)"
    unfolding b_def by code_simp
  then have "runs (rename_bucket server_1_20 printing_json ''new'') (bucket_of ''old'' after_remove) b"
    by (auto simp: runs_def)
  then have "(bucket_step isort isort server_1_20 printing_json)\<^sup>*\<^sup>* (bucket_of ''old'' after_remove, ()) (b, ())"
    by (blast intro: bs_rename)
  from bucket_session_invariant [OF after_remove_session this] run show ?thesis by blast
qed


end
