(* ===== verification/Query_Stream.thy ===== *)
theory Query_Stream
  imports Callbacks Bucket_Query
begin

text \<open>
  What a query promises, without the requests: the server sends a sequence of pages, each with
  records or with a refusal, and the callback sees the records one after the other until it
  stops, a page ends with the last record, or a refusal ends the query. The section before the
  property says which pages a server sends (\<open>serves\<close>), and the property that the queries of both
  protocols (bucket.cc, \<^verbatim>\<open>Query\<close>) do what the specification says on these pages.
\<close>

section \<open>The specification\<close>

datatype page =
    Records "(readable_record \<times> string) list"
  | Refused error

text \<open>The query has ended, or it goes on after these pages.\<close>

datatype 'u progress = Ended error 'u | Goes_on 'u

fun run_pages :: "'u verdict \<Rightarrow> bool \<Rightarrow> page list \<Rightarrow> 'u \<Rightarrow> 'u progress" where
  "run_pages decide continuous [] u = Goes_on u"
| "run_pages decide continuous (Records rs # pages) u =
     (case deliver_all decide rs (False, u) of
        (stopped, u') \<Rightarrow> if stopped then Ended kOk u' else run_pages decide continuous pages u')"
| "run_pages decide continuous (Refused e # pages) u =
     (if err_code e \<noteq> 204 then Ended e u
      else if continuous then run_pages decide continuous pages u
      else Ended kOk u)"

lemma run_pages_append:
  "run_pages decide continuous (pages @ rest) u =
     (case run_pages decide continuous pages u of
        Ended e u' \<Rightarrow> Ended e u'
      | Goes_on u' \<Rightarrow> run_pages decide continuous rest u')"
  by (induction decide continuous pages u rule: run_pages.induct) (auto split: prod.split)

text \<open>
  The records of a sequence of pages, whose borders do not matter as long as no page ends the
  query by itself.
\<close>

fun page_records :: "page \<Rightarrow> (readable_record \<times> string) list" where
  "page_records (Records rs) = rs"
| "page_records (Refused e) = []"

definition streaming :: "bool \<Rightarrow> page \<Rightarrow> bool" where
  "streaming continuous page \<longleftrightarrow> (case page of Records rs \<Rightarrow> True | Refused e \<Rightarrow> continuous \<and> err_code e = 204)"

lemma run_pages_concat:
  assumes "\<forall>page \<in> set pages. streaming continuous page"
  shows "run_pages decide continuous pages u =
    (case deliver_all decide (concat (map page_records pages)) (False, u) of
       (stopped, u') \<Rightarrow> if stopped then Ended kOk u' else Goes_on u')"
  using assms
proof (induction pages arbitrary: u)
  case (Cons page pages)
  then show ?case
  proof (cases page)
    case (Records rs)
    obtain stopped u' where "deliver_all decide rs (False, u) = (stopped, u')" by fastforce
    then show ?thesis using Cons by (cases stopped) (auto simp: Records deliver_all_append)
  next
    case (Refused e)
    then show ?thesis using Cons by (auto simp: streaming_def)
  qed
qed simp

section \<open>What the server sends\<close>

text \<open>
  The answer to one read is a page: a refusal, a response whose body holds the contents of its
  records, or the headers alone when the query asks for metadata only.
\<close>

definition head_fn :: "read_fn \<Rightarrow> bool" where
  "head_fn f \<longleftrightarrow> (case f of Read_batched_v1 sz head \<Rightarrow> head | Read_batched_v2 sz head \<Rightarrow> head | Read_single head \<Rightarrow> head)"

inductive arrives ::
  "(bool \<Rightarrow> headers \<Rightarrow> readable_record list throws) \<Rightarrow> bool \<Rightarrow> error \<times> headers option \<times> chunk_queue \<Rightarrow> page \<Rightarrow> bool"
  for build head where
  arrives_refused: "is_error e \<Longrightarrow> arrives build head (e, hs, q) (Refused e)"
| arrives_records:
    "\<not> head \<Longrightarrow> build head hs = Inr rs \<Longrightarrow> list_all2 fn_size (map rr_read rs) ns \<Longrightarrow>
     \<forall>c \<in> set chunks. length c < 2 ^ 63 \<Longrightarrow> sum_list ns \<le> length (concat chunks) \<Longrightarrow>
     arrives build head (kOk, Some hs, map Some chunks) (Records (zip rs (split_sizes ns (concat chunks))))"
| arrives_metadata:
    "head \<Longrightarrow> build head hs = Inr rs \<Longrightarrow> \<forall>r \<in> set rs. head_fn (rr_read r) \<Longrightarrow>
     arrives build head (kOk, Some hs, []) (Records (map (\<lambda>r. (r, [])) rs))"

inductive serves ::
  "'n httplib \<Rightarrow> (bool \<Rightarrow> headers \<Rightarrow> readable_record list throws) \<Rightarrow> bool \<Rightarrow> string \<Rightarrow> headers \<Rightarrow>
   'n bucket \<Rightarrow> page list \<Rightarrow> 'n bucket \<Rightarrow> bool"
  for lib build head path hs where
  serves_nothing: "serves lib build head path hs b [] b"
| serves_page:
    "on_client (receive lib head path hs) b = Inr (resp, b1) \<Longrightarrow> arrives build head resp page \<Longrightarrow>
     serves lib build head path hs b1 pages b' \<Longrightarrow> serves lib build head path hs b (page # pages) b'"

lemma run_inline_metadata:
  assumes "\<forall>r \<in> set rs. head_fn (rr_read r)"
  shows "run_callbacks_inline (reading_callback decide) rs (stopped, u, q) =
    Some (Inr (fst (deliver_all decide (map (\<lambda>r. (r, [])) rs) (stopped, u)),
               snd (deliver_all decide (map (\<lambda>r. (r, [])) rs) (stopped, u)), q))"
  using assms
proof (induction rs arbitrary: stopped u)
  case (Cons r rs)
  then have "read_to_end (rr_read r) 0 [] q = Some (Inr ([], q))"
    by (subst read_to_end.simps) (auto simp: read_iter_def head_fn_def split: read_fn.splits)
  with Cons show ?case by (auto simp: reading_callback_def split: prod.split)
qed simp

text \<open>One read is the delivery of one page.\<close>

lemma read_page:
  assumes "on_client (receive lib head path hs) b = Inr (resp, b1)" and "arrives build head resp page"
  shows "read_record_inline lib build head path hs (reading_callback decide) (b, u) =
    Some (Inr (case page of
      Refused e \<Rightarrow> ((False, e), b1, u)
    | Records rs \<Rightarrow> (case deliver_all decide rs (False, u) of (stopped, u') \<Rightarrow> ((stopped, kOk), b1, u'))))"
  using assms(2)
proof cases
  case (arrives_refused e hs' q)
  then show ?thesis using assms(1) by (simp add: read_record_inline_def)
next
  case (arrives_records hs' rs ns chunks)
  with run_inline_sized [OF arrives_records(5,7,6), of decide False u] assms(1)
  show ?thesis by (auto simp: read_record_inline_def split: prod.split)
next
  case (arrives_metadata hs' rs)
  with run_inline_metadata [OF arrives_metadata(5), of decide False u "[]"] assms(1)
  show ?thesis by (auto simp: read_record_inline_def split: prod.split)
qed

section \<open>The loop\<close>

lemma poll_loop_step:
  assumes "read s = Some (Inr x)"
  shows "poll_loop read continuous s =
    (case x of ((stopped, err), s') \<Rightarrow>
       if stopped then Some (Inr (kOk, s'))
       else if is_error err then
         (if err_code err = 204 then (if continuous then poll_loop read continuous s' else Some (Inr (kOk, s')))
          else Some (Inr (err, s')))
       else poll_loop read continuous s')"
  using assms by (subst poll_loop.simps) (simp split: prod.split)

text \<open>
  The loop over the pages, for any way of reading that is, on the buckets of a query, a read of
  the path; the paths of the bucket are what the loop keeps.
\<close>

lemma poll_loop_pages:
  assumes "serves lib build head path hs b pages b2" and "P b"
    and "\<And>b u. P b \<Longrightarrow> read (b, u) = read_record_inline lib build head path hs (reading_callback decide) (b, u)"
    and "\<And>m b x b'. P b \<Longrightarrow> on_client m b = Inr ((x :: error \<times> headers option \<times> chunk_queue), b') \<Longrightarrow> P b'"
  shows "case run_pages decide continuous pages u of
      Ended e u' \<Rightarrow> \<exists>b'. poll_loop read continuous (b, u) = Some (Inr (e, b', u'))
    | Goes_on u' \<Rightarrow> P b2 \<and> poll_loop read continuous (b, u) = poll_loop read continuous (b2, u')"
  using assms(1,2)
proof (induction arbitrary: u)
  case (serves_page b resp b1 page pages b')
  note step = read_page [OF serves_page.hyps(1,2), of decide u]
  have P: "P b1" by (rule assms(4) [OF serves_page.prems serves_page.hyps(1)])
  note read = poll_loop_step [of read "(b, u)", OF assms(3) [OF serves_page.prems, of u, unfolded step], of continuous]
  show ?case
  proof (cases page)
    case (Refused e)
    then have "is_error e" using serves_page.hyps(2) by (auto elim: arrives.cases)
    then show ?thesis using serves_page.IH [OF P, of u] read
      by (cases continuous; cases "err_code e = 204") (simp_all add: Refused split: progress.splits)
  next
    case (Records rs)
    obtain stopped u' where "deliver_all decide rs (False, u) = (stopped, u')" by fastforce
    then show ?thesis using serves_page.IH [OF P, of u'] read
      by (cases stopped) (simp_all add: Records split: progress.splits)
  qed
qed simp


section \<open>What the callbacks keep\<close>

text \<open>
  For any server: a property \<open>P\<close> of the user's state that a callback keeps as long as it says to go
  on, and \<open>Q\<close> of the states that it leaves.
\<close>

definition callback_keeps :: "'u read_callback \<Rightarrow> ('u \<Rightarrow> bool) \<Rightarrow> ('u \<Rightarrow> bool) \<Rightarrow> bool" where
  "callback_keeps callback P Q \<longleftrightarrow>
     (\<forall>r u q go_on u' q'. P u \<longrightarrow> callback r (u, q) = Some (Inr (go_on, u', q')) \<longrightarrow> Q u' \<and> (go_on \<longrightarrow> P u'))"

lemma reading_callback_keeps:
  assumes "\<And>r got u go_on u'. P u \<Longrightarrow> decide r got u = (go_on, u') \<Longrightarrow> Q u' \<and> (go_on \<longrightarrow> P u')"
  shows "callback_keeps (reading_callback decide) P Q"
  unfolding callback_keeps_def reading_callback_def
  by (auto split: option.splits sum.splits prod.splits dest: assms)

lemma run_inline_keeps:
  assumes "callback_keeps callback P Q" and "\<And>u. P u \<Longrightarrow> Q u"
    and "run_callbacks_inline callback rs (stopped, u, q) = Some (Inr (stopped', u', q'))"
    and "if stopped then Q u else P u"
  shows "if stopped' then Q u' else P u'"
  using assms(3,4)
proof (induction rs arbitrary: stopped u q)
  case (Cons r rs)
  show ?case
  proof (cases stopped)
    case False
    with Cons.prems(1) obtain go_on u1 q1 where cb: "callback r (u, q) = Some (Inr (go_on, u1, q1))"
      and run: "run_callbacks_inline callback rs (if \<not> go_on then True else rr_last r, u1, q1) =
        Some (Inr (stopped', u', q'))"
      by (auto split: option.splits sum.splits)
    have "P u" using Cons.prems(2) False by simp
    then have "Q u1 \<and> (go_on \<longrightarrow> P u1)" using assms(1) cb unfolding callback_keeps_def by blast
    then show ?thesis by (intro Cons.IH [OF run]) auto
  qed (use Cons.prems in simp)
qed simp

lemma record_read_keeps:
  assumes "callback_keeps callback P Q" and "\<And>u. P u \<Longrightarrow> Q u" and "P u"
    and "read_record_inline lib build head path hs callback (b, u) = Some (Inr ((stopped, err), b', u'))"
  shows "if stopped then Q u' else P u'"
  using assms(3,4) run_inline_keeps [OF assms(1,2), where stopped = False and u = u]
  by (fastforce simp: read_record_inline_def split: option.splits sum.splits if_splits)

lemma query_loop_keeps:
  assumes "poll_loop read continuous (b, u) = Some (Inr (e, b', u'))" and "P u" and "\<And>u. P u \<Longrightarrow> Q u"
    and "\<And>b u stopped err b' u'. P u \<Longrightarrow> read (b, u) = Some (Inr ((stopped, err), b', u')) \<Longrightarrow>
      if stopped then Q u' else P u'"
  shows "Q u'"
proof -
  obtain s where run: "(goes_on read continuous)\<^sup>*\<^sup>* (b, u) s" and last: "ends_with_error read continuous s e (b', u')"
    using poll_loop_sound [OF assms(1) refl] by blast
  from run have "P (snd s)"
  proof (induction rule: rtranclp_induct)
    case (step s t)
    then show ?case using assms(4) [of "snd s" "fst s"] by (cases t) (fastforce simp: goes_on_def)
  qed (use assms(2) in simp)
  with last show ?thesis
    using assms(3) assms(4) [of "snd s" "fst s"] by (fastforce simp: ends_with_error_def split: if_splits)
qed

lemma query_entry_keeps:
  assumes "query_entry srt lib J entry_name start stop options callback (b, u) = Some (Inr (e, b', u'))"
    and "callback_keeps callback P Q" and "\<And>u. P u \<Longrightarrow> Q u" and "P u"
  shows "Q u'"
proof -
  have read: "if stopped then Q u1 else P u1"
    if "read_record_inline lib build head path hs callback (x, u0) = Some (Inr ((stopped, err), b1, u1))" "P u0"
    for build head path hs x u0 stopped err b1 u1
    using record_read_keeps [OF assms(2,3) that(2,1)] .
  have v2: "Q u'" if "poll_loop (read_record_v2 srt lib query_id head callback) continuous (x, u) = Some (Inr (e, b', u'))"
    for query_id head continuous x
    using that assms(4,3) by (rule query_loop_keeps [where P = P and Q = Q]) (assumption, unfold read_record_v2_def, erule read)
  have v1: "Q u'" if "poll_loop (read_record lib path kBatched head callback) continuous (x, u) = Some (Inr (e, b', u'))"
    for path head continuous x
    using that assms(4,3) by (rule query_loop_keeps [where P = P and Q = Q]) (assumption, unfold read_record_def, erule read)
  have "Q u" using assms(3,4) by blast
  with assms(1) show ?thesis
    by (auto simp: query_entry_def query_v1_def query_v2_def run_query_def split: sum.splits if_splits)
      (erule v2, erule v1)
qed

section \<open>The queries\<close>

text \<open>
  The request that opens a query on an entry, and the reads that follow it (how the records are
  built from the headers, the path, the headers of the request), for the two protocols.
\<close>

definition open_query ::
  "'n httplib \<Rightarrow> 'j json_ops \<Rightarrow> bool \<Rightarrow> string \<Rightarrow> time option \<Rightarrow> time option \<Rightarrow> query_options \<Rightarrow>
   ('n bucket, u64 result) io" where
  "open_query lib J v2 entry_name start stop options b =
     (if v2 then query_request lib J (bk_io_path b @ ''/q'') (get_id J) ''QUERY'' [entry_name] start stop options b
      else query_request lib J (entry_query_path b entry_name) (get_id J) ''QUERY'' [] start stop options b)"

definition query_serves ::
  "header_sort \<Rightarrow> 'n httplib \<Rightarrow> bool \<Rightarrow> string \<Rightarrow> u64 \<Rightarrow> bool \<Rightarrow> 'n bucket \<Rightarrow> page list \<Rightarrow> 'n bucket \<Rightarrow> bool" where
  "query_serves srt lib v2 entry_name query_id head b pages b' \<longleftrightarrow>
     (if v2 then
        serves lib (parse_and_build_batched_records_v2 srt) head (bk_io_path b @ ''/read'')
          [(kHeaderQueryId, show_nat (unat query_id))] b pages b'
      else
        serves lib (build_records_v1 kBatched) head
          (bk_path b @ ''/'' @ entry_name @ ''/batch?q='' @ show_nat (unat query_id)) [] b pages b')"

definition query_read ::
  "header_sort \<Rightarrow> 'n httplib \<Rightarrow> bool \<Rightarrow> string \<Rightarrow> u64 \<Rightarrow> bool \<Rightarrow> 'n bucket \<Rightarrow> 'u read_callback \<Rightarrow>
   'n bucket \<times> 'u \<Rightarrow> ((bool \<times> error) \<times> 'n bucket \<times> 'u) diverges" where
  "query_read srt lib v2 entry_name query_id head b callback =
     (if v2 then read_record_v2 srt lib query_id head callback
      else read_record lib (bk_path b @ ''/'' @ entry_name @ ''/batch?q='' @ show_nat (unat query_id)) kBatched head
        callback)"

lemma query_loop_pages:
  assumes "query_serves srt lib v2 entry_name query_id head b pages b2"
  shows "case run_pages decide continuous pages u of
      Ended e u' \<Rightarrow> \<exists>b'. poll_loop (query_read srt lib v2 entry_name query_id head b (reading_callback decide))
        continuous (b, u) = Some (Inr (e, b', u'))
    | Goes_on u' \<Rightarrow> poll_loop (query_read srt lib v2 entry_name query_id head b (reading_callback decide))
        continuous (b, u) =
        poll_loop (query_read srt lib v2 entry_name query_id head b (reading_callback decide)) continuous (b2, u')"
proof (cases v2)
  case True
  with assms have "serves lib (parse_and_build_batched_records_v2 srt) head (bk_io_path b @ ''/read'')
      [(kHeaderQueryId, show_nat (unat query_id))] b pages b2" by (simp add: query_serves_def)
  then have "case run_pages decide continuous pages u of
      Ended e u' \<Rightarrow> \<exists>b'. poll_loop (read_record_v2 srt lib query_id head (reading_callback decide)) continuous (b, u) =
        Some (Inr (e, b', u'))
    | Goes_on u' \<Rightarrow> bk_io_path b2 = bk_io_path b \<and>
        poll_loop (read_record_v2 srt lib query_id head (reading_callback decide)) continuous (b, u) =
        poll_loop (read_record_v2 srt lib query_id head (reading_callback decide)) continuous (b2, u')"
    by (rule poll_loop_pages) (simp_all add: read_record_v2_def on_client_keeps)
  then show ?thesis using True by (simp add: query_read_def split: progress.splits)
next
  case False
  with assms have "serves lib (build_records_v1 kBatched) head
      (bk_path b @ ''/'' @ entry_name @ ''/batch?q='' @ show_nat (unat query_id)) [] b pages b2"
    by (simp add: query_serves_def)
  then have "case run_pages decide continuous pages u of
      Ended e u' \<Rightarrow> \<exists>b'. poll_loop (query_read srt lib v2 entry_name query_id head b (reading_callback decide))
        continuous (b, u) = Some (Inr (e, b', u'))
    | Goes_on u' \<Rightarrow> True \<and>
        poll_loop (query_read srt lib v2 entry_name query_id head b (reading_callback decide)) continuous (b, u) =
        poll_loop (query_read srt lib v2 entry_name query_id head b (reading_callback decide)) continuous (b2, u')"
    by (rule poll_loop_pages) (use False in \<open>simp_all add: query_read_def read_record_def\<close>)
  then show ?thesis by (simp split: progress.splits)
qed

lemma query_runs_pages_run:
  assumes "supports_batch_protocol_v2 b = Inr (v2, b0)"
    and "open_query lib J v2 entry_name start stop options b0 = Inr (r, b1)"
    and "query_serves srt lib v2 entry_name (res_value r) (qo_head_only options) b1 pages b2"
  shows "let call = query_entry srt lib J entry_name start stop options (reading_callback decide) (b, u)
    in if is_error (res_error r) then call = Some (Inr (res_error r, b1, u))
       else case run_pages decide (qo_continuous options) pages u of
              Ended e u' \<Rightarrow> \<exists>b'. call = Some (Inr (e, b', u'))
            | Goes_on u' \<Rightarrow>
                call = poll_loop (query_read srt lib v2 entry_name (res_value r) (qo_head_only options) b1
                  (reading_callback decide)) (qo_continuous options) (b2, u')"
proof -
  have "b0 = b" using assms(1)
    by (auto simp: supports_batch_protocol_v2_def bind_run on_client_def get_api_version_def get_io_def
        throws_io_def ret_io_def bind_throws_Inr_iff split: option.splits)
  moreover have "bk_path b1 = bk_path b0 \<and> bk_io_path b1 = bk_io_path b0"
    using assms(2)
    by (auto simp: open_query_def query_request_def post_query_def bind_run throws_io_def ret_io_def
        bind_throws_Inr_iff dest: on_client_keeps split: if_splits)
  ultimately show ?thesis
    using query_loop_pages [OF assms(3), of decide "qo_continuous options" u] assms(1,2)
    by (auto simp: Let_def query_entry_def query_v1_def query_v2_def run_query_def open_query_def query_read_def
        split: progress.splits)
qed

text \<open>
  C8: A query on an entry is a function of the pages that the server sends after the request: for
  both protocols, with the contents or with the metadata only, for any cutting of the bodies
  into chunks and any callback that reads its records, the call returns when the specification
  has ended, with its error and its effect; and when the specification goes on after these
  pages, the call is in its loop after exactly these reads with that effect. A query whose
  request fails returns that error without a read.
\<close>

theorem query_runs_pages:
  assumes "supports_batch_protocol_v2 b = Inr (v2, b0)"
    and "open_query lib J v2 entry_name start stop options b0 = Inr (r, b1)"
    and "query_serves srt lib v2 entry_name (res_value r) (qo_head_only options) b1 pages b2"
  shows "let call = query_entry srt lib J entry_name start stop options (reading_callback decide) (b, u)
    in if is_error (res_error r) then call = Some (Inr (res_error r, b1, u))
       else case run_pages decide (qo_continuous options) pages u of
              Ended e u' \<Rightarrow> \<exists>b'. call = Some (Inr (e, b', u'))
            | Goes_on u' \<Rightarrow>
                call = poll_loop (query_read srt lib v2 entry_name (res_value r) (qo_head_only options) b1
                  (reading_callback decide)) (qo_continuous options) (b2, u')"
  using query_runs_pages_run [OF assms] .

section \<open>An example\<close>

text \<open>A server that opens the query 1, and answers every read with one record, the last one.\<close>

definition id_json :: "json_value json_ops" where
  "id_json = value_json (\<lambda>s. Inr (JObject [(''id'', JInt 1)])) (\<lambda>j. Inr ''{}'')"

definition last_record :: readable_record where
  "last_record = \<lparr>rr_entry = [], rr_timestamp = 0, rr_size = 1, rr_last = True, rr_labels = [],
     rr_content_type = ''t'', rr_read = Read_batched_v1 1 False\<rparr>"

lemma last_reply_record:
  "build_records_v1 kBatched False [(''x-reduct-last'', ''true''), (''x-reduct-time-0'', ''1,t'')] = Inr [last_record]"
proof -
  have "show_nat 0 = ''0''" by code_simp
  then have "from_microseconds ''0'' = Inr 0"
    using from_microseconds_show [of 0] by (simp add: time_of_us_def int64_id is_int64_def)
  moreover have "parse_csv ''1,t'' = Inr (1, ''t'', [])" by code_simp
  ultimately show ?thesis
    by (simp add: build_records_v1_def parse_and_build_batched_records_v1_def omap_of_list_def omap_emplace_def
        build_record_step_v1_def is_time_header_def header_names starts_with_def substr_from_def umap_get_def
        last_record_def)
qed

lemma last_reply_opened:
  "open_query (answering last_reply) id_json False ''e'' None None default_query_options (sample_bucket None) =
     Inr (ok_result 1, sample_bucket None)"
  by code_simp

lemma last_reply_page:
  "on_client (receive (answering last_reply) False
      (bk_path (sample_bucket None) @ ''/'' @ ''e'' @ ''/batch?q='' @ show_nat (unat 1)) []) (sample_bucket None) =
     Inr ((kOk, Some [(''x-reduct-last'', ''true''), (''x-reduct-time-0'', ''1,t'')], [Some ''a'']), sample_bucket None)"
  by code_simp

lemma last_reply_arrives:
  "arrives (build_records_v1 kBatched) False
     (kOk, Some [(''x-reduct-last'', ''true''), (''x-reduct-time-0'', ''1,t'')], [Some ''a''])
     (Records [(last_record, ''a'')])"
proof -
  have "arrives (build_records_v1 kBatched) False
      (kOk, Some [(''x-reduct-last'', ''true''), (''x-reduct-time-0'', ''1,t'')], map Some [''a''])
      (Records (zip [last_record] (split_sizes [1] (concat [''a'']))))"
    by (rule arrives_records) (simp_all add: last_reply_record fn_size_def last_record_def)
  then show ?thesis by simp
qed

lemma last_reply_serves:
  "query_serves srt (answering last_reply) False ''e'' 1 False (sample_bucket None)
     [Records [(last_record, ''a'')]] (sample_bucket None)"
  using serves_page [OF last_reply_page last_reply_arrives serves_nothing] by (simp add: query_serves_def)

theorem query_runs_pages_witness:
  "\<exists>b'. query_entry isort (answering last_reply) id_json ''e'' None None default_query_options
     (reading_callback keep_all) (sample_bucket None, []) = Some (Inr (kOk, b', [''a'']))"
proof -
  have v1: "supports_batch_protocol_v2 (sample_bucket None) = Inr (False, sample_bucket None)" by code_simp
  have "qo_head_only default_query_options = False" by code_simp
  with query_runs_pages [OF v1 last_reply_opened, of isort "[Records [(last_record, ''a'')]]" "sample_bucket None"
      keep_all "[]"] last_reply_serves
  show ?thesis by (simp add: keep_all_def last_record_def)
qed

end
