(* ===== verification/Query_Threads.thy ===== *)
theory Query_Threads
  imports Read_Threads Query_Stream
begin

text \<open>
  A whole query from a thread other than the worker (bucket.cc, the loops of \<^verbatim>\<open>QueryV1\<close> and
  \<^verbatim>\<open>QueryV2\<close> with \<^verbatim>\<open>run_callbacks_inline\<close> false): every read of the loop is a run of the caller beside
  the worker thread. How the two interleave is open, so a read is a relation, and so is the
  query; the property is that the pages of the server determine its outcome all the same.
\<close>

section \<open>The reads and the loop\<close>

inductive threaded_read ::
  "'n httplib \<Rightarrow> 'u verdict \<Rightarrow> (bool \<Rightarrow> headers \<Rightarrow> readable_record list throws) \<Rightarrow> string \<Rightarrow> headers \<Rightarrow>
   'n bucket \<times> 'u \<Rightarrow> bool \<times> error \<Rightarrow> 'n bucket \<times> 'u \<Rightarrow> bool"
  for lib decide build path hs where
  threaded_read:
    "hl_stream lib (cl_transport (bk_client b))
       \<lparr>rq_method = GET, rq_path = add_api_prefix (bk_client b) path, rq_headers = hs, rq_body = No_body\<rparr>
       (cl_net (bk_client b)) = Inr (stream, net) \<Longrightarrow>
     check_request lib (hs_result stream) (bk_client b\<lparr>cl_net := net\<rparr>) = Inr (verdict, c) \<Longrightarrow>
     (call_step decide (build False) False stream verdict)\<^sup>*\<^sup>* (call_init u) s \<Longrightarrow>
     rc_phase s = Returned stopped err \<Longrightarrow>
     threaded_read lib decide build path hs (b, u) (stopped, err) (b\<lparr>bk_client := c\<rparr>, dv_user (rc_d s))"

inductive threaded_query ::
  "'n httplib \<Rightarrow> 'u verdict \<Rightarrow> (bool \<Rightarrow> headers \<Rightarrow> readable_record list throws) \<Rightarrow> string \<Rightarrow> headers \<Rightarrow> bool \<Rightarrow>
   'n bucket \<times> 'u \<Rightarrow> error \<Rightarrow> 'n bucket \<times> 'u \<Rightarrow> bool"
  for lib decide build path hs continuous where
  tq_stopped:
    "threaded_read lib decide build path hs s (True, err) t \<Longrightarrow>
     threaded_query lib decide build path hs continuous s kOk t"
| tq_failed:
    "threaded_read lib decide build path hs s (False, err) t \<Longrightarrow> is_error err \<Longrightarrow> err_code err \<noteq> 204 \<Longrightarrow>
     threaded_query lib decide build path hs continuous s err t"
| tq_no_more:
    "threaded_read lib decide build path hs s (False, err) t \<Longrightarrow> err_code err = 204 \<Longrightarrow> \<not> continuous \<Longrightarrow>
     threaded_query lib decide build path hs continuous s kOk t"
| tq_again:
    "threaded_read lib decide build path hs s (False, err) t \<Longrightarrow>
     \<not> is_error err \<or> err_code err = 204 \<and> continuous \<Longrightarrow>
     threaded_query lib decide build path hs continuous t e t' \<Longrightarrow>
     threaded_query lib decide build path hs continuous s e t'"

inductive_cases threaded_readE: "threaded_read lib decide build path hs (b, u) r t"
inductive_cases threaded_queryE: "threaded_query lib decide build path hs continuous s e t"

section \<open>What the server sends\<close>

text \<open>
  The pages of a server whose requests fail, if they do, before the headers of the answer: then no
  task outlives its call.
\<close>

inductive serves_whole ::
  "'n httplib \<Rightarrow> (bool \<Rightarrow> headers \<Rightarrow> readable_record list throws) \<Rightarrow> string \<Rightarrow> headers \<Rightarrow>
   'n bucket \<Rightarrow> page list \<Rightarrow> 'n bucket \<Rightarrow> bool"
  for lib build path hs where
  whole_nothing: "serves_whole lib build path hs b [] b"
| whole_refused:
    "on_client (receive lib False path hs) b = Inr ((e, None, q), b1) \<Longrightarrow> is_error e \<Longrightarrow>
     serves_whole lib build path hs b1 pages b' \<Longrightarrow> serves_whole lib build path hs b (Refused e # pages) b'"
| whole_records:
    "on_client (receive lib False path hs) b = Inr ((kOk, Some hs', map Some chunks), b1) \<Longrightarrow>
     build False hs' = Inr rs \<Longrightarrow> list_all2 fn_size (map rr_read rs) ns \<Longrightarrow>
     \<forall>c \<in> set chunks. length c < 2 ^ 63 \<Longrightarrow> sum_list ns \<le> length (concat chunks) \<Longrightarrow>
     serves_whole lib build path hs b1 pages b' \<Longrightarrow>
     serves_whole lib build path hs b (Records (zip rs (split_sizes ns (concat chunks))) # pages) b'"

lemma serves_whole_serves: "serves_whole lib build path hs b pages b' \<Longrightarrow> serves lib build False path hs b pages b'"
proof (induction rule: serves_whole.induct)
  case (whole_records b hs' chunks b1 rs ns pages b')
  have "arrives build False (kOk, Some hs', map Some chunks) (Records (zip rs (split_sizes ns (concat chunks))))"
    using whole_records.hyps(2-5) by (intro arrives_records) auto
  from serves_page [OF whole_records.hyps(1) this whole_records.IH] show ?case .
qed (auto intro: serves_nothing serves_page arrives_refused)

text \<open>What arrives, and the stream of the HTTP library.\<close>

lemma feed_queue:
  "feed (\<lambda>chunk (hs, data). (True, hs, data @ [Some chunk])) cs (hs, data) = (True, hs, data @ map Some cs)"
  for data :: chunk_queue
  by (induction cs arbitrary: data) simp_all

lemma received_stream:
  assumes "on_client (receive lib False path hs) b = Inr ((err, response_headers, q), b1)"
  obtains stream net c where
    "hl_stream lib (cl_transport (bk_client b))
       \<lparr>rq_method = GET, rq_path = add_api_prefix (bk_client b) path, rq_headers = hs, rq_body = No_body\<rparr>
       (cl_net (bk_client b)) = Inr (stream, net)"
    "check_request lib (hs_result stream) (bk_client b\<lparr>cl_net := net\<rparr>) = Inr (err, c)"
    "b1 = b\<lparr>bk_client := c\<rparr>"
    "case response_headers of
       None \<Rightarrow> \<not> (\<exists>r. handled stream r)
     | Some hs' \<Rightarrow> (\<exists>r. handled stream r \<and> hs' = normalize_headers (hr_headers r)) \<and> q = map Some (hs_chunks stream)"
proof -
  from assms obtain c where run: "receive lib False path hs (bk_client b) = Inr ((err, response_headers, q), c)"
    and b1: "b1 = b\<lparr>bk_client := c\<rparr>"
    by (auto simp: on_client_def bind_throws_Inr_iff)
  from run obtain stream net where stream: "hl_stream lib (cl_transport (bk_client b))
       \<lparr>rq_method = GET, rq_path = add_api_prefix (bk_client b) path, rq_headers = hs, rq_body = No_body\<rparr>
       (cl_net (bk_client b)) = Inr (stream, net)"
    by (auto simp: receive_def http_get_stream_def bind_throws_Inr_iff)
  show thesis
  proof (cases "\<exists>r. handled stream r")
    case True
    then obtain r where r: "hs_head stream = Some r" "hr_status r = 200 \<or> hr_status r = 0" by (auto simp: handled_def)
    with run stream have "check_request lib (hs_result stream) (bk_client b\<lparr>cl_net := net\<rparr>) = Inr (err, c)"
      "response_headers = Some (normalize_headers (hr_headers r))" "q = map Some (hs_chunks stream)"
      by (auto simp: receive_def http_get_stream_def bind_throws_Inr_iff feed_queue)
    with stream b1 r show thesis by (intro that) (auto simp: handled_def)
  next
    case False
    with run stream have "check_request lib (hs_result stream) (bk_client b\<lparr>cl_net := net\<rparr>) = Inr (err, c)"
      "response_headers = None"
      by (cases "hs_head stream";
          auto simp: receive_def http_get_stream_def bind_throws_Inr_iff handled_def Let_def)+
    with stream b1 False show thesis by (intro that) auto
  qed
qed

section \<open>One read\<close>

text \<open>A read whose request was refused has queued nothing.\<close>

lemma refused_call:
  assumes "(call_step decide build False stream verdict)\<^sup>*\<^sup>* (call_init u) s"
    and "\<not> (\<exists>r. handled stream r)" and "is_error verdict"
  shows "rc_d s = no_delivery u \<and>
    (rc_phase s = Sent \<or> rc_phase s = Received verdict \<or> rc_phase s = Returned False verdict)"
  using assms(1)
proof (induction rule: rtranclp_induct)
  case (step s t)
  have idle: "\<not> deliver_step decide (no_delivery u) d" for d
    by (auto simp: no_delivery_def elim: deliver_stepE)
  from step(2,3) assms(2,3) idle show ?case
    by (auto elim!: call_stepE simp: no_delivery_def [of u] split: if_splits)
qed (simp add: call_init_def)

lemma refused_call_returns:
  assumes "\<not> (\<exists>r. handled stream r)" and "is_error verdict"
  shows "\<exists>s. (call_step decide build False stream verdict)\<^sup>*\<^sup>* (call_init u) s \<and>
    rc_phase s = Returned False verdict \<and> rc_d s = no_delivery u"
proof -
  let ?step = "call_step decide build False stream verdict"
  let ?s1 = "call_init u\<lparr>rc_phase := Received verdict\<rparr>"
  let ?s2 = "?s1\<lparr>rc_phase := Returned False verdict\<rparr>"
  have "?step (call_init u) ?s1" using assms(1) by (intro call_unhandled) (simp_all add: call_init_def)
  moreover have "?step ?s1 ?s2"
    using call_fails [of ?s1 verdict decide build False stream verdict] assms(2)
    by (simp add: call_init_def no_delivery_def)
  ultimately have "?step\<^sup>*\<^sup>* (call_init u) ?s2" by (meson converse_rtranclp_into_rtranclp rtranclp.rtrancl_refl)
  then show ?thesis by (intro exI [of _ ?s2]) (simp add: call_init_def)
qed

lemma threaded_refused:
  assumes "on_client (receive lib False path hs) b = Inr ((e, None, q), b1)" and "is_error e"
  shows "threaded_read lib decide build path hs (b, u) r t \<longleftrightarrow> r = (False, e) \<and> t = (b1, u)"
proof -
  obtain stream net c where stream: "hl_stream lib (cl_transport (bk_client b))
       \<lparr>rq_method = GET, rq_path = add_api_prefix (bk_client b) path, rq_headers = hs, rq_body = No_body\<rparr>
       (cl_net (bk_client b)) = Inr (stream, net)"
    "check_request lib (hs_result stream) (bk_client b\<lparr>cl_net := net\<rparr>) = Inr (e, c)"
    and b1: "b1 = b\<lparr>bk_client := c\<rparr>" and none: "\<not> (\<exists>r. handled stream r)"
    using received_stream [OF assms(1)] by auto
  have user: "dv_user (no_delivery u) = u" by (simp add: no_delivery_def)
  show ?thesis
  proof
    assume "threaded_read lib decide build path hs (b, u) r t"
    then show "r = (False, e) \<and> t = (b1, u)"
      using stream b1 user refused_call [OF _ none assms(2)] by (elim threaded_readE) fastforce
  next
    assume "r = (False, e) \<and> t = (b1, u)"
    moreover obtain s where "(call_step decide (build False) False stream e)\<^sup>*\<^sup>* (call_init u) s"
      "rc_phase s = Returned False e" "rc_d s = no_delivery u"
      using refused_call_returns [OF none assms(2), of decide "build False" u] by blast
    from threaded_read.intros [where build = build, OF stream this(1,2)] this(3)
    have "threaded_read lib decide build path hs (b, u) (False, e) (b1, u)" by (simp add: b1 user)
    ultimately show "threaded_read lib decide build path hs (b, u) r t" by simp
  qed
qed

text \<open>A read that is answered is the delivery of its page, whatever the interleaving.\<close>

lemma threaded_page:
  assumes "on_client (receive lib False path hs) b = Inr ((kOk, Some hs', map Some chunks), b1)"
    and "build False hs' = Inr rs" and "list_all2 fn_size (map rr_read rs) ns"
    and "\<forall>c \<in> set chunks. length c < 2 ^ 63" and "sum_list ns \<le> length (concat chunks)"
    and "deliver_all decide (zip rs (split_sizes ns (concat chunks))) (False, u) = (stopped, u')"
  shows "threaded_read lib decide build path hs (b, u) r t \<longleftrightarrow> r = (stopped, kOk) \<and> t = (b1, u')"
proof -
  obtain stream net c where stream: "hl_stream lib (cl_transport (bk_client b))
       \<lparr>rq_method = GET, rq_path = add_api_prefix (bk_client b) path, rq_headers = hs, rq_body = No_body\<rparr>
       (cl_net (bk_client b)) = Inr (stream, net)"
    "check_request lib (hs_result stream) (bk_client b\<lparr>cl_net := net\<rparr>) = Inr (kOk, c)"
    and b1: "b1 = b\<lparr>bk_client := c\<rparr>" and arrived: "(\<exists>r. handled stream r \<and> hs' = normalize_headers (hr_headers r)) \<and>
      map Some chunks = map Some (hs_chunks stream)"
    by (rule received_stream [OF assms(1)]) simp
  then obtain h where h: "handled stream h" "hs' = normalize_headers (hr_headers h)" by blast
  have chunks: "hs_chunks stream = chunks" using arrived [THEN conjunct2] by (simp add: inj_map_eq_map)
  have answered: "answered (build False) stream kOk rs"
    using h assms(2) unfolding answered_def by (intro conjI exI [of _ h]) simp_all
  note result = answered_call_result [OF _ answered assms(3) assms(4) [folded chunks] assms(5) [folded chunks],
      of decide u, unfolded chunks assms(6)]
  show ?thesis
  proof
    assume "threaded_read lib decide build path hs (b, u) r t"
    then show "r = (stopped, kOk) \<and> t = (b1, u')"
      using stream b1 result by (elim threaded_readE) fastforce
  next
    assume r: "r = (stopped, kOk) \<and> t = (b1, u')"
    obtain s stopped' where s: "(call_step decide (build False) False stream kOk)\<^sup>*\<^sup>* (call_init u) s"
      "rc_phase s = Returned stopped' kOk"
      using call_can_return [OF rtranclp.rtrancl_refl answered assms(3) assms(4) [folded chunks]
          assms(5) [folded chunks], of decide u] by blast
    from threaded_read.intros [where build = build, OF stream this] result [OF s] r b1
    show "threaded_read lib decide build path hs (b, u) r t" by simp
  qed
qed

section \<open>The query\<close>

text \<open>The loop after a read whose outcome is determined.\<close>

lemma threaded_query_step:
  assumes "\<And>r t. threaded_read lib decide build path hs s r t \<longleftrightarrow> r = (stopped, err) \<and> t = s1"
  shows "threaded_query lib decide build path hs continuous s e t \<longleftrightarrow>
    (if stopped then e = kOk \<and> t = s1
     else if is_error err then
       (if err_code err = 204 then
          (if continuous then threaded_query lib decide build path hs continuous s1 e t else e = kOk \<and> t = s1)
        else e = err \<and> t = s1)
     else threaded_query lib decide build path hs continuous s1 e t)"
    (is "?query \<longleftrightarrow> ?spec")
proof
  assume ?query
  then show ?spec
  proof cases
    case (tq_stopped err')
    then show ?thesis by (simp add: assms)
  next
    case tq_failed
    then show ?thesis by (simp add: assms)
  next
    case (tq_no_more err')
    then show ?thesis by (simp add: assms is_error_def)
  next
    case (tq_again err' t')
    then show ?thesis by (auto simp: assms)
  qed
next
  assume spec: ?spec
  have read: "threaded_read lib decide build path hs s (stopped, err) s1" by (simp add: assms)
  show ?query
  proof (cases stopped)
    case True
    with spec tq_stopped [of lib decide build path hs s err s1] read show ?thesis by simp
  next
    case False
    then have read: "threaded_read lib decide build path hs s (False, err) s1" using read by simp
    show ?thesis
      using spec False tq_failed [OF read] tq_no_more [OF read] tq_again [OF read]
      by (cases "is_error err"; cases "err_code err = 204"; cases continuous) simp_all
  qed
qed

lemma threaded_query_pages:
  assumes "serves_whole lib build path hs b pages b2"
  shows "run_pages decide continuous pages u = Ended e u' \<Longrightarrow>
    (\<exists>b'. threaded_query lib decide build path hs continuous (b, u) e (b', u')) \<and>
    (\<forall>e1 b1 u1. threaded_query lib decide build path hs continuous (b, u) e1 (b1, u1) \<longrightarrow> e1 = e \<and> u1 = u')"
  using assms
proof (induction arbitrary: u)
  case (whole_refused b err q b1 pages b')
  note step = threaded_query_step [OF threaded_refused [OF whole_refused.hyps(1,2), where decide = decide and build = build and u = u],
      of continuous]
  show ?case using whole_refused.IH [of u] whole_refused.prems whole_refused.hyps(2)
    by (auto simp: step split: if_splits)
next
  case (whole_records b hs' chunks b1 rs ns pages b')
  obtain stopped u1 where all:
    "deliver_all decide (zip rs (split_sizes ns (concat chunks))) (False, u) = (stopped, u1)" by fastforce
  note step = threaded_query_step [OF threaded_page [where build = build, OF whole_records.hyps(1-5) all], of continuous]
  show ?case using whole_records.IH [of u1] whole_records.prems
    by (cases stopped) (simp_all add: step all)
qed simp

section \<open>Property\<close>

text \<open>
  C7: A whole query from another thread: on a server whose pages end it, and whose requests fail, if
  they do, before their headers, the query can return, and however the network, the caller and
  the worker thread interleave in each of its reads, it returns the error and has the effect of
  the specification, which are those of the same query made on the worker thread.
\<close>

theorem threaded_query_agrees:
  assumes "serves_whole lib build path hs b pages b2"
    and "run_pages decide continuous pages u = Ended e u'"
  shows "(\<exists>b'. threaded_query lib decide build path hs continuous (b, u) e (b', u')) \<and>
    (\<forall>e1 b1 u1. threaded_query lib decide build path hs continuous (b, u) e1 (b1, u1) \<longrightarrow> e1 = e \<and> u1 = u') \<and>
    (\<exists>b'. poll_loop (read_record_inline lib build False path hs (reading_callback decide)) continuous (b, u) =
       Some (Inr (e, b', u')))"
proof -
  have "case run_pages decide continuous pages u of
      Ended e u' \<Rightarrow> \<exists>b'. poll_loop (read_record_inline lib build False path hs (reading_callback decide)) continuous (b, u) =
        Some (Inr (e, b', u'))
    | Goes_on u' \<Rightarrow> True \<and> poll_loop (read_record_inline lib build False path hs (reading_callback decide)) continuous (b, u) =
        poll_loop (read_record_inline lib build False path hs (reading_callback decide)) continuous (b2, u')"
    by (rule poll_loop_pages [OF serves_whole_serves [OF assms(1)]]) simp_all
  with threaded_query_pages [OF assms] assms(2) show ?thesis by simp
qed

lemma last_reply_whole:
  "serves_whole (answering last_reply) (build_records_v1 kBatched)
     (bk_path (sample_bucket None) @ ''/'' @ ''e'' @ ''/batch?q='' @ show_nat (unat 1)) [] (sample_bucket None)
     [Records (zip [last_record] (split_sizes [1] (concat [''a''])))] (sample_bucket None)"
proof (rule whole_records [where build = "build_records_v1 kBatched", OF _ last_reply_record])
  show "on_client (receive (answering last_reply) False
      (bk_path (sample_bucket None) @ ''/'' @ ''e'' @ ''/batch?q='' @ show_nat (unat 1)) []) (sample_bucket None) =
    Inr ((kOk, Some [(''x-reduct-last'', ''true''), (''x-reduct-time-0'', ''1,t'')], map Some [''a'']), sample_bucket None)"
    using last_reply_page by simp
qed (simp_all add: fn_size_def last_record_def whole_nothing)

theorem threaded_query_agrees_witness:
  "\<exists>b'. threaded_query (answering last_reply) keep_all (build_records_v1 kBatched)
     (bk_path (sample_bucket None) @ ''/'' @ ''e'' @ ''/batch?q='' @ show_nat (unat 1)) [] False
     (sample_bucket None, []) kOk (b', [''a''])"
proof -
  have "run_pages keep_all False [Records (zip [last_record] (split_sizes [1] (concat [''a''])))] [] = Ended kOk [''a'']"
    by (simp add: keep_all_def last_record_def)
  from threaded_query_agrees [OF last_reply_whole this] show ?thesis by blast
qed

end
