(* ===== verification/Single_Record.thy ===== *)
theory Single_Record
  imports Bucket_Read
begin

text \<open>
  Writing and reading one record (bucket.cc, \<^verbatim>\<open>Write\<close> and the record of \<^verbatim>\<open>Read\<close> and \<^verbatim>\<open>Head\<close>): the
  request that \<^verbatim>\<open>Write\<close> sends, and what the reader makes of a response that repeats its headers.
  The names of headers are not case sensitive and \<^verbatim>\<open>HttpClient\<close> puts them into lower case; a label
  is a header, so that its key comes back in lower case.
\<close>

section \<open>The request\<close>

definition write_request :: "'n bucket \<Rightarrow> time \<Rightarrow> string \<Rightarrow> write_options \<Rightarrow> string \<Rightarrow> http_request" where
  "write_request b now entry_name options data =
     \<lparr>rq_method = POST,
      rq_path = add_api_prefix (bk_client b) (record_path (bk_path b) entry_name
        (case wo_timestamp options of Some t \<Rightarrow> t | None \<Rightarrow> now)),
      rq_headers = make_headers_from_labels options,
      rq_body = Provider_body (length data)
        (content_provider (wr_callback (wr_write_all data new_writable_record)))
        (c_string (if wo_content_type options = [] then ''application/octet-stream'' else wo_content_type options))\<rparr>"

lemma checked_run:
  "checked lib d f res c =
     bind_throws (check_request lib res c)
       (\<lambda>(err, c'). Inr (if is_error err then err_result d err else ok_result (f (response_of res)), c'))"
  by (simp add: checked_def bind_io_def ret_io_def case_prod_unfold)

lemma write_all_sends:
  "write_record lib now entry_name options (wr_write_all data) b =
     bind_throws (hl_send lib (cl_transport (bk_client b)) (write_request b now entry_name options data)
         (cl_net (bk_client b)))
       (\<lambda>(res, net). bind_throws (check_request lib res (bk_client b\<lparr>cl_net := net\<rparr>))
          (\<lambda>(err, c). Inr (if is_error err then err else kOk, b\<lparr>bk_client := c\<rparr>)))"
proof -
  let ?callback = "wr_callback (wr_write_all data new_writable_record)"
  have "wr_content_length (wr_write_all data new_writable_record) = Some (length data)"
    by (simp add: wr_write_all_def)
  then have "write_record lib now entry_name options (wr_write_all data) b =
      error_of (on_client (post_chunked lib
        (record_path (bk_path b) entry_name (case wo_timestamp options of Some t \<Rightarrow> t | None \<Rightarrow> now))
        (if wo_content_type options = [] then ''application/octet-stream'' else wo_content_type options)
        (length data) (make_headers_from_labels options) ?callback)) b"
    by (simp add: write_record_def Let_def get_run)
  then show ?thesis
    by (simp only: write_request_def error_of_def on_client_def post_chunked_def send_def bind_io_def ret_io_def
        checked_run bind_throws_assoc case_prod_unfold bind_throws.simps fst_conv snd_conv
        if_distrib [where f = res_error] result_simps http_client.select_convs http_client.simps)
qed

section \<open>The response\<close>

text \<open>Names of headers in lower case.\<close>

definition lower_key :: "string \<times> string \<Rightarrow> string \<times> string" where
  "lower_key kv = (map cto_lower (fst kv), snd kv)"

lemma normalize_distinct:
  assumes "distinct (map fst (map lower_key hs))"
  shows "normalize_headers hs = map lower_key hs"
proof -
  have "fold (\<lambda>(k, v). umap_assign (map cto_lower k) v) hs m = m @ map lower_key hs"
    if "distinct (map fst (m @ map lower_key hs))" for m
    using that
  proof (induction hs arbitrary: m)
    case (Cons kv hs)
    obtain k v where kv: "kv = (k, v)" by (cases kv)
    have "map_of m (map cto_lower k) = None"
      using Cons.prems by (auto simp: kv lower_key_def map_of_eq_None_iff)
    then have "umap_assign (map cto_lower k) v m = m @ [lower_key kv]"
      by (simp add: umap_assign_def kv lower_key_def)
    then show ?case using Cons.IH [of "m @ [lower_key kv]"] Cons.prems by (simp add: kv)
  qed simp
  from this [of "[]"] assms show ?thesis by (simp add: normalize_headers_def)
qed

definition label_of :: "string \<times> string \<Rightarrow> string \<times> string" where
  "label_of kv = (substr_from (fst kv) (length kHeaderLabelPrefix), snd kv)"

lemma single_labels_filter: "single_labels hs = omap_of_list (map label_of (filter is_label_header hs))"
proof -
  have "fold (\<lambda>kv. if is_label_header kv
          then omap_emplace (substr_from (fst kv) (length kHeaderLabelPrefix)) (snd kv) else id) hs m =
      fold (\<lambda>(k, v). omap_emplace k v) (map label_of (filter is_label_header hs)) m" for m
    by (induction hs arbitrary: m) (simp_all add: label_of_def)
  then show ?thesis by (simp add: single_labels_def omap_of_list_def)
qed

text \<open>The headers of the labels, and the labels read from them.\<close>

definition label_header :: "string \<times> string \<Rightarrow> string \<times> string" where
  "label_header kv = (kHeaderLabelPrefix @ fst kv, snd kv)"

lemma label_headers: "omap_ok (wo_labels options) \<Longrightarrow> make_headers_from_labels options = map label_header (wo_labels options)"
proof -
  assume "omap_ok (wo_labels options)"
  then have "distinct (map fst (wo_labels options))" by (rule omap_distinct)
  then have "distinct (map fst ([] @ map label_header (wo_labels options)))"
    by (simp add: label_header_def comp_def distinct_map inj_on_def)
  from umap_emplace_fresh [OF this] show ?thesis
    by (simp add: make_headers_from_labels_def fold_map comp_def label_header_def case_prod_unfold)
qed

lemma lower_label_header: "lower_key (label_header kv) = label_header (lower_key kv)"
  by (simp add: lower_key_def label_header_def header_names cto_lower_def char_class_simps)

lemma label_of_header: "label_of (label_header kv) = kv" "is_label_header (label_header kv)"
  by (simp_all add: label_of_def label_header_def is_label_header_def substr_from_def starts_with_def)

section \<open>Property\<close>

lemma distinct_apart:
  "distinct (map fst xs) \<Longrightarrow> \<forall>kv \<in> set xs. is_label_header kv \<Longrightarrow> \<forall>kv \<in> set ys. \<not> is_label_header kv \<Longrightarrow>
     distinct (map fst ys) \<Longrightarrow> distinct (map fst (xs @ ys))"
  by (force simp: is_label_header_def)

text \<open>
  What the headers of a response to \<^verbatim>\<open>Read\<close> say of a stored record, apart from its labels, and
  other headers of the response.
\<close>

definition record_headers :: "time \<Rightarrow> nat \<Rightarrow> string \<Rightarrow> headers" where
  "record_headers ts n content_type =
     [(kHeaderTime, show_int (to_microseconds ts)), (''content-length'', show_nat n), (''content-type'', content_type)]"

definition other_headers :: "headers \<Rightarrow> bool" where
  "other_headers others \<longleftrightarrow> distinct (map fst others) \<and>
     (\<forall>kv \<in> set others. \<not> is_label_header kv \<and> fst kv \<notin> {kHeaderTime, ''content-length'', ''content-type''})"

lemma no_label_names:
  "\<not> is_label_header (kHeaderTime, v)" "\<not> is_label_header (''content-length'', v)"
  "\<not> is_label_header (''content-type'', v)" "\<not> is_label_header (kHeaderLast, v)"
  by (simp_all add: is_label_header_def header_names starts_with_def)

lemma label_headers_lookup:
  "\<not> is_label_header (k, v) \<Longrightarrow> map_of (map label_header labels) k = None"
  by (auto simp: map_of_eq_None_iff label_header_def is_label_header_def starts_with_def)

lemma filter_label_headers:
  "filter is_label_header (map label_header labels) = map label_header labels"
  by (simp add: filter_id_conv label_of_header)

lemma microseconds_shown:
  assumes "us_time ts" and "0 \<le> ts"
  shows "from_microseconds (show_int (to_microseconds ts)) = Inr ts"
proof -
  have "0 \<le> to_microseconds ts" using assms(2) by (simp add: to_microseconds_def trunc_div_nonneg)
  then have "show_int (to_microseconds ts) = show_nat (unat (us_word ts))"
    using unat_us_word [of ts] assms by (simp add: us_time_def show_int_def)
  then show ?thesis by (simp add: from_microseconds_show time_of_us_word assms(1))
qed

lemma single_record_read:
  assumes "omap_ok labels" and "distinct (map fst (map lower_key labels))"
    and "us_time ts" and "0 \<le> ts" and "n < 2 ^ 31"
    and perm: "mset (map lower_key hs) =
      mset (map lower_key (map label_header labels) @ record_headers ts n content_type @ others)"
    and others: "other_headers others"
  shows "parse_and_build_single_record head (normalize_headers hs) =
    Inr \<lparr>rr_entry = [], rr_timestamp = ts, rr_size = of_nat n, rr_last = (umap_get others kHeaderLast = ''1''),
      rr_labels = omap_of_list (map lower_key labels), rr_content_type = content_type, rr_read = Read_single head\<rparr>"
proof -
  let ?labels = "map label_header (map lower_key labels)"
  let ?all = "?labels @ record_headers ts n content_type @ others"
  have perm': "mset (map lower_key hs) = mset ?all" using perm by (simp add: lower_label_header comp_def)
  have "distinct (map fst ?labels)"
    using assms(2) by (simp add: label_header_def comp_def distinct_map inj_on_def)
  moreover have "\<forall>kv \<in> set ?labels. is_label_header kv" by (simp add: label_of_header(2))
  moreover have "\<forall>kv \<in> set (record_headers ts n content_type @ others). \<not> is_label_header kv"
    using others by (simp add: record_headers_def other_headers_def no_label_names)
  moreover have "distinct (map fst (record_headers ts n content_type @ others))"
    using others by (auto simp: record_headers_def other_headers_def header_names)
  ultimately have distinct: "distinct (map fst ?all)" by (rule distinct_apart)
  then have "distinct (map fst (map lower_key hs))" using perm' by (metis mset_eq_imp_distinct_iff mset_map)
  then have norm: "normalize_headers hs = map lower_key hs" and lookup: "map_of (map lower_key hs) = map_of ?all"
    using map_of_perm [OF _ perm'] normalize_distinct by auto
  have look: "umap_get (map lower_key hs) k = umap_get (record_headers ts n content_type @ others) k"
    if "\<not> is_label_header (k, [])" for k
    using label_headers_lookup [OF that, of "map lower_key labels"]
    by (simp add: umap_get_def lookup map_add_def del: map_map split: option.split)
  have get: "umap_get (map lower_key hs) kHeaderTime = show_int (to_microseconds ts)"
    "umap_get (map lower_key hs) ''content-length'' = show_nat n"
    "umap_get (map lower_key hs) ''content-type'' = content_type"
    "umap_get (map lower_key hs) kHeaderLast = umap_get others kHeaderLast"
    using no_label_names by (simp_all add: look) (simp_all add: umap_get_def record_headers_def header_names)
  have "filter is_label_header others = []" using others by (auto simp: other_headers_def filter_empty_conv)
  then have "filter is_label_header ?all = ?labels"
    using no_label_names by (simp add: filter_label_headers record_headers_def del: map_map)
  then have "mset (filter is_label_header (map lower_key hs)) = mset ?labels"
    by (metis perm' mset_filter)
  then have "mset (map label_of (filter is_label_header (map lower_key hs))) = mset (map label_of ?labels)"
    by (metis mset_map)
  also have "map label_of ?labels = map lower_key labels" by (simp add: label_of_header comp_def)
  finally have "single_labels (map lower_key hs) = omap_of_list (map lower_key labels)"
    unfolding single_labels_filter
    using assms(2) by (intro omap_of_list_perm) (metis mset_eq_imp_distinct_iff mset_map, simp)
  with get show ?thesis
    using microseconds_shown [OF assms(3,4)] stoi_show_nat [OF assms(5)]
    by (simp add: norm parse_and_build_single_record_def del: map_map)
qed

lemma lower_labels_kept:
  assumes "omap_ok labels" and "\<forall>kv \<in> set labels. lower_key kv = kv"
  shows "omap_of_list (map lower_key labels) = labels"
  using omap_of_list_id [OF assms(1)] assms(2) by (simp add: map_idI)


definition sample_options :: write_options where
  "sample_options = \<lparr>wo_timestamp = Some 5000, wo_labels = [(''Kind'', ''a''), (''x'', ''b'')], wo_content_type = []\<rparr>"

definition sample_response :: headers where
  "sample_response = [(''X-Reduct-Label-x'', ''b''), (''Content-Length'', ''3''), (''Content-Type'', ''application/octet-stream''),
       (''X-Reduct-Label-Kind'', ''a''), (''Server'', ''s''), (''X-Reduct-Time'', ''5'')]"


end
