(* ===== verification/Write_Query.thy ===== *)
theory Write_Query
  imports Delivery Query_Threads Bucket_Batch Single_Record
begin

text \<open>
  From one end to the other: a batch that \<^verbatim>\<open>WriteBatch\<close> sends to a server of version 1.18 or later
  (bucket.cc, batch_v2.cc, http_client.cc), and a query whose answer repeats it. The property
  composes the upload, the protocol in both directions, the queue of chunks, the callbacks and the
  loop of the query.
\<close>

section \<open>What WriteBatch sends\<close>

definition batch_request :: "'n bucket \<Rightarrow> batch \<Rightarrow> batch_v2_request \<Rightarrow> http_request" where
  "batch_request bk b req =
     \<lparr>rq_method = POST,
      rq_path = add_api_prefix (bk_client bk) (bk_io_path bk @ ''/write''),
      rq_headers = bq_headers req,
      rq_body = Provider_body (unat (batch_size b)) (content_provider (batch_callback (bq_ordered req) b))
        (c_string ''application/octet-stream'')\<rparr>"

text \<open>What \<^verbatim>\<open>WriteBatch\<close> makes of the answer.\<close>

definition batch_answer ::
  "'n httplib \<Rightarrow> batch_v2_request \<Rightarrow> 'n bucket \<Rightarrow> http_result \<times> 'n \<Rightarrow> (batch_record_errors result \<times> 'n bucket) throws" where
  "batch_answer lib req bk answer =
     bind_throws (check_request lib (fst answer) (bk_client bk\<lparr>cl_net := snd answer\<rparr>)) (\<lambda>(err, c).
       if is_error err then Inr (err_result [] err, bk\<lparr>bk_client := c\<rparr>)
       else let hs = snd (body_and_headers (response_of (fst answer)))
            in bind_throws (fold_throws (record_error_step (response_entries hs req) (response_start_ts hs req)) hs [])
                 (\<lambda>errors. Inr (ok_result errors, bk\<lparr>bk_client := c\<rparr>)))"

lemma post_chunked_run:
  "post_chunked lib path mime n hs callback c =
     bind_throws (hl_send lib (cl_transport c)
         \<lparr>rq_method = POST, rq_path = add_api_prefix c path, rq_headers = hs,
          rq_body = Provider_body n (content_provider callback) (c_string mime)\<rparr> (cl_net c))
       (\<lambda>(res, net). bind_throws (check_request lib res (c\<lparr>cl_net := net\<rparr>))
          (\<lambda>(err, c'). Inr (if is_error err then err_result ([], []) err
             else ok_result (body_and_headers (response_of res)), c')))"
  by (simp add: post_chunked_def send_def bind_io_def checked_run bind_throws_assoc case_prod_unfold
      cong: if_cong)

lemma write_batch_run:
  assumes "supports_batch_protocol_v2 bk = Inr (True, bk)" and "b = fill empty_batch" and "batch_records b \<noteq> []"
    and "build_batch_v2_request srt [] b kWrite True = ok_result req" and "bq_ordered req \<noteq> []"
  shows "write_batch srt lib fill bk =
    bind_throws (hl_send lib (cl_transport (bk_client bk)) (batch_request bk b req) (cl_net (bk_client bk)))
      (batch_answer lib req bk)"
proof -
  let ?send = "hl_send lib (cl_transport (bk_client bk)) (batch_request bk b req) (cl_net (bk_client bk))"
  note run = write_batch_def process_records_batch_def Let_def assms(1,4) assms(2) [symmetric] bind_run get_io_def
    process_batch_v2_records_def send_batch_v2_def post_chunked_run on_client_def bind_io_def ret_io_def throws_io_def
    batch_answer_def result_simps
  have send: "\<lparr>rq_method = POST, rq_path = add_api_prefix (bk_client bk) (bk_io_path bk @ ''/write''),
      rq_headers = bq_headers req,
      rq_body = Provider_body (unat (batch_size b)) (content_provider (batch_callback (bq_ordered req) b))
        (c_string ''application/octet-stream'')\<rparr> = batch_request bk b req"
    by (simp add: batch_request_def)
  show ?thesis
  proof (cases ?send)
    case (Inr answer)
    then show ?thesis
    proof (cases "check_request lib (fst answer) (bk_client bk\<lparr>cl_net := snd answer\<rparr>)")
      case (Inr verdict)
      with \<open>?send = Inr answer\<close> assms(3,5) show ?thesis
        by (cases "is_error (fst verdict)") (simp_all add: run send bind_throws_assoc case_prod_unfold)
    qed (use assms(3,5) in \<open>simp add: run send case_prod_unfold\<close>)
  qed (use assms(3,5) in \<open>simp add: run send case_prod_unfold\<close>)
qed

section \<open>The query whose answer repeats the request\<close>

text \<open>
  What a query delivers of a batch: the records that the receiver makes of the headers, in the order
  of the request, each with its payload. The last one is marked when the server says so.
\<close>

definition record_contents ::
  "bool \<Rightarrow> readable_record list \<Rightarrow> nat list \<Rightarrow> batch \<Rightarrow> (readable_record \<times> string) list" where
  "record_contents flag rs order b = zip (mark_last flag rs) (payloads_in_order b order)"

definition batch_contents :: "bool \<Rightarrow> nat list \<Rightarrow> batch \<Rightarrow> (readable_record \<times> string) list" where
  "batch_contents flag order b =
     record_contents flag (delivered False [] Map.empty (map ((!) (batch_records b)) order)) order b"

lemma record_contents_last:
  assumes "order \<noteq> []" and "length rs = length order"
  shows "fst (deliver_all decide (record_contents True rs order b) st)"
proof (rule deliver_all_last)
  have len: "length (mark_last True rs) = length (payloads_in_order b order)"
    and ne: "payloads_in_order b order \<noteq> []" "rs \<noteq> []" "mark_last True rs \<noteq> []"
    using assms by (auto simp: payloads_in_order_def mark_last_def set_back_last_def)
  have "last (record_contents True rs order b) = (last (mark_last True rs), last (payloads_in_order b order))"
    unfolding record_contents_def by (rule last_zip [OF ne(3,1) len])
  then show "rr_last (fst (last (record_contents True rs order b)))" by (simp add: last_mark_last ne(2))
  show "record_contents True rs order b \<noteq> []" using ne by (simp add: record_contents_def zip_eq_Nil_iff)
qed

text \<open>
  A query of the records of an entry that a server answers with the headers \<open>hs\<close> and the body in
  \<open>chunks\<close>: the server opens it, and marks the answer as the last one or answers the next read with 204.
\<close>

definition query_path :: "bool \<Rightarrow> 'n bucket \<Rightarrow> string \<Rightarrow> u64 \<Rightarrow> string \<times> headers" where
  "query_path v2 bk entry_name query_id =
     (if v2 then (bk_io_path bk @ ''/read'', [(kHeaderQueryId, show_nat (unat query_id))])
      else (bk_path bk @ ''/'' @ entry_name @ ''/batch?q='' @ show_nat (unat query_id), []))"

definition query_answered ::
  "'n httplib \<Rightarrow> 'j json_ops \<Rightarrow> bool \<Rightarrow> string \<Rightarrow> time option \<Rightarrow> time option \<Rightarrow> query_options \<Rightarrow>
   'n bucket \<Rightarrow> 'n bucket \<Rightarrow> string \<times> headers \<Rightarrow> headers \<Rightarrow> string list \<Rightarrow> bool" where
  "query_answered lib J v2 entry_name start stop options bk bk1 address hs chunks \<longleftrightarrow>
     (\<exists>query_id bk2 no_more rest bk3.
        supports_batch_protocol_v2 bk = Inr (v2, bk) \<and>
        open_query lib J v2 entry_name start stop options bk = Inr (ok_result query_id, bk1) \<and>
        address = query_path v2 bk1 entry_name query_id \<and>
        on_client (receive lib False (fst address) (snd address)) bk1 = Inr ((kOk, Some hs, map Some chunks), bk2) \<and>
        (\<forall>c \<in> set chunks. length c < 2 ^ 63) \<and>
        (umap_get hs kHeaderLast = ''true'' \<or>
         on_client (receive lib False (fst address) (snd address)) bk2 = Inr ((no_more, None, rest), bk3) \<and>
         err_code no_more = 204))"

lemma query_answered_more:
  assumes "supports_batch_protocol_v2 bk = Inr (v2, bk)"
    and "open_query lib J v2 entry_name start stop options bk = Inr (ok_result query_id, bk1)"
    and "address = query_path v2 bk1 entry_name query_id"
    and "on_client (receive lib False (fst address) (snd address)) bk1 = Inr ((kOk, Some hs, map Some chunks), bk2)"
    and "\<forall>c \<in> set chunks. length c < 2 ^ 63"
    and "on_client (receive lib False (fst address) (snd address)) bk2 = Inr ((mk_error 204 msg, None, rest), bk3)"
  shows "query_answered lib J v2 entry_name start stop options bk bk1 address hs chunks"
  using assms unfolding query_answered_def mk_error_def by (metis error.select_convs(1))

text \<open>The records of either protocol.\<close>

definition response_records :: "header_sort \<Rightarrow> bool \<Rightarrow> bool \<Rightarrow> headers \<Rightarrow> readable_record list throws" where
  "response_records srt v2 = (if v2 then parse_and_build_batched_records_v2 srt else build_records_v1 kBatched)"

text \<open>The request is built, and its body arrives.\<close>

lemma write_request_built:
  assumes "std_sort srt" and "sendable [] b" and "batch_records b \<noteq> []"
    and "req = res_value (build_batch_v2_request srt [] b kWrite True)"
  shows "build_batch_v2_request srt [] b kWrite True = ok_result req"
    and "bq_ordered req = sort_records srt b [] True" and "bq_ordered req \<noteq> []"
proof -
  obtain es s hs where "build_batch_v2_request srt [] b kWrite True =
      ok_result \<lparr>bq_ordered = sort_records srt b [] True, bq_entries = es, bq_start_ts = s, bq_headers = hs\<rparr>"
    using build_request_eq [OF assms(1) sendable_addressable [OF assms(2)] assms(3) refl] by blast
  then show "build_batch_v2_request srt [] b kWrite True = ok_result req"
    and order: "bq_ordered req = sort_records srt b [] True"
    by (simp_all add: assms(4))
  then show "bq_ordered req \<noteq> []" using sort_records_Nil [OF assms(1)] assms(3) by auto
qed

lemma batch_body_sent:
  assumes "std_sort srt" and "batch_ok b" and "total_bytes b < 2 ^ 64" and "order = sort_records srt b d v2"
    and "n = unat (batch_size b)"
    and "(upload_step (content_provider (batch_callback order b)) n)\<^sup>*\<^sup>* (0, []) (n, sent)"
  shows "sent = ordered_payload b order"
proof -
  have "body_source (batch_callback order b) (ordered_payload b order)"
    unfolding assms(4) by (rule batch_source [OF assms(1-3)])
  moreover have "n = length (ordered_payload b order)"
    using ordered_payload_total [OF assms(2)] sort_records_perm [OF assms(1)] unat_batch_size [OF assms(2,3)]
      assms(4,5) by metis
  ultimately show ?thesis using body_source.run_complete assms(6) by metis
qed

text \<open>
  The answer of the server is a page with the contents of the batch, and a query, on the worker or
  from another thread, hands them to the callback.
\<close>

lemma run_batch_pages:
  assumes "order \<noteq> []" and "length rs = length order" and "flag \<or> err_code e = 204"
  shows "run_pages decide False (Records (record_contents flag rs order b) # (if flag then [] else [Refused e])) u =
    Ended kOk (snd (deliver_all decide (record_contents flag rs order b) (False, u)))"
  using record_contents_last [OF assms(1,2), of decide b "(False, u)"] assms(3) by (cases flag) (auto split: prod.split)

lemma stored_batch_queried:
  assumes "batch_ok b" and valid: "\<forall>i \<in> set order. i < length (batch_records b)" and "order \<noteq> []"
    and rs: "response_records srt v2 False hs = Inr (mark_last flag rs)" and flag: "flag = (umap_get hs kHeaderLast = ''true'')"
    and sizes: "list_all2 fn_size (map rr_read rs) (map (\<lambda>i. br_size (batch_records b ! i)) order)"
    and body: "concat chunks = ordered_payload b order"
    and "\<not> qo_head_only options" and "\<not> qo_continuous options"
    and answered: "query_answered lib J v2 entry_name start stop options bk bk1 address hs chunks"
  shows "let u' = snd (deliver_all decide (record_contents flag rs order b) (False, u))
    in (\<exists>bk'. query_entry srt lib J entry_name start stop options (reading_callback decide) (bk, u) =
          Some (Inr (kOk, bk', u'))) \<and>
       (\<forall>e bk' u1. threaded_query lib decide (response_records srt v2) (fst address) (snd address) False
          (bk1, u) e (bk', u1) \<longrightarrow> e = kOk \<and> u1 = u')"
proof -
  obtain query_id bk2 no_more rest bk3 where query:
      "supports_batch_protocol_v2 bk = Inr (v2, bk)"
      "open_query lib J v2 entry_name start stop options bk = Inr (ok_result query_id, bk1)"
      "address = query_path v2 bk1 entry_name query_id"
      "on_client (receive lib False (fst address) (snd address)) bk1 = Inr ((kOk, Some hs, map Some chunks), bk2)"
      "\<forall>c \<in> set chunks. length c < 2 ^ 63"
    and last: "flag \<or> on_client (receive lib False (fst address) (snd address)) bk2 = Inr ((no_more, None, rest), bk3) \<and>
      err_code no_more = 204"
    using answered unfolding query_answered_def flag by blast
  let ?pages = "if flag then [] else [Refused no_more]" and ?fin = "if flag then bk2 else bk3"
  let ?ns = "map (\<lambda>i. br_size (batch_records b ! i)) order"
  note split = payloads_split [OF assms(1) valid]
  have rest: "serves_whole lib (response_records srt v2) (fst address) (snd address) bk2 ?pages ?fin"
    using last by (auto simp: is_error_def intro: whole_nothing whole_refused)
  have ns: "list_all2 fn_size (map rr_read (mark_last flag rs)) ?ns" using sizes by (simp only: mark_last_reads)
  have "sum_list ?ns \<le> length (concat chunks)" by (simp add: body split(2))
  from whole_records [where build = "response_records srt v2", OF query(4) rs ns query(5) this rest]
  have served: "serves_whole lib (response_records srt v2) (fst address) (snd address) bk1
      (Records (record_contents flag rs order b) # ?pages) ?fin"
    by (simp only: body split(1) record_contents_def)
  have "length rs = length order" using list_all2_lengthD [OF sizes] by simp
  moreover have "flag \<or> err_code no_more = 204" using last by blast
  ultimately have run: "run_pages decide False (Records (record_contents flag rs order b) # ?pages) u =
      Ended kOk (snd (deliver_all decide (record_contents flag rs order b) (False, u)))"
    by (rule run_batch_pages [OF assms(3)])
  have pages: "query_serves srt lib v2 entry_name (res_value (ok_result query_id)) (qo_head_only options) bk1
      (Records (record_contents flag rs order b) # ?pages) ?fin"
    using serves_whole_serves [OF served] assms(8)
    by (simp add: query_serves_def query(3) query_path_def response_records_def result_simps split: if_splits)
  have "\<exists>bk'. query_entry srt lib J entry_name start stop options (reading_callback decide) (bk, u) =
      Some (Inr (kOk, bk', snd (deliver_all decide (record_contents flag rs order b) (False, u))))"
    using query_runs_pages_run [OF query(1,2) pages, of decide u] assms(9)
    by (simp add: run Let_def result_simps del: run_pages.simps)
  with threaded_query_pages [OF served run] show ?thesis unfolding Let_def by blast
qed

section \<open>Property\<close>


text \<open>
  A server that has stored the batch: it opens the query 1, answers the first read with the batch, its
  body in two chunks, and the others with 204.
\<close>

definition stored_headers :: headers where
  "stored_headers = [(''x-reduct-start-ts'', ''1''), (''x-reduct-1-1'', ''2,''), (''content-type'', ''application/octet-stream''),
     (''x-reduct-0-0'', ''3,''), (''x-reduct-last'', ''false''), (''x-reduct-entries'', ''a,b'')]"

lemma stored_headers_last: "False = (umap_get stored_headers kHeaderLast = ''true'')"
  by (simp add: stored_headers_def umap_get_def header_names)

lemma stored_headers_read:
  "filter is_v2_header stored_headers = [(''x-reduct-start-ts'', ''1''), (''x-reduct-1-1'', ''2,''), (''x-reduct-0-0'', ''3,''),
     (''x-reduct-entries'', ''a,b'')]"
proof -
  have "''x-reduct-0-0'' = header_key_v2 0 0" "''x-reduct-1-1'' = header_key_v2 1 1"
    by (simp_all add: header_key_v2_def header_names show_nat.simps digit_char_def char_of_def bit_simps)
  then have "is_v2_header (''x-reduct-0-0'', v)" "is_v2_header (''x-reduct-1-1'', v)" for v
    using header_key_parse [of 0 0] header_key_parse [of 1 1] by (simp_all add: is_v2_header_def)
  moreover have "is_v2_header (''x-reduct-start-ts'', v)" "is_v2_header (''x-reduct-entries'', v)" for v
    by (simp_all add: is_v2_header_def header_names)
  ultimately show ?thesis using not_v2_headers by (simp add: stored_headers_def header_names)
qed

definition stored_reply :: "headers \<Rightarrow> string list \<Rightarrow> nat \<Rightarrow> http_stream" where
  "stored_reply hs chunks reads =
     (if reads = 0 then
        let r = \<lparr>hr_status = 200, hr_headers = hs, hr_body = []\<rparr>
        in \<lparr>hs_head = Some r, hs_chunks = chunks, hs_result = Http_response r\<rparr>
      else
        let r = \<lparr>hr_status = 204, hr_headers = [(''x-reduct-error'', ''no more'')], hr_body = []\<rparr>
        in \<lparr>hs_head = Some r, hs_chunks = [], hs_result = Http_response r\<rparr>)"

definition storing :: "headers \<Rightarrow> string list \<Rightarrow> nat httplib" where
  "storing hs chunks =
     \<lparr>hl_send = (\<lambda>tr rq net. Inr (Http_response \<lparr>hr_status = 200, hr_headers = [], hr_body = []\<rparr>, net)),
      hl_stream = (\<lambda>tr rq net. Inr (stored_reply hs chunks net, net + 1)),
      hl_find = map_of, hl_canceled = ''canceled''\<rparr>"

abbreviation store_two :: "nat httplib" where
  "store_two \<equiv> storing stored_headers [''abch'', ''i'']"

definition reading_bucket :: "string \<Rightarrow> nat \<Rightarrow> nat bucket" where
  "reading_bucket version reads = build_bucket ''http://localhost:8383'' ''x''
     \<lparr>ho_api_token = [], ho_ssl_verification = True, ho_connection_timeout = None, ho_request_timeout = None\<rparr>
     (Some version) reads"

definition fill_two :: "batch \<Rightarrow> batch" where
  "fill_two b = add_record ''b'' 2000 ''hi'' [] [] (add_record ''a'' 1000 ''abc'' [] [] b)"

lemma two_entries_ok: "batch_ok two_entries" "total_bytes two_entries < 2 ^ 64" "no_empty_record two_entries"
proof -
  show "batch_ok two_entries" unfolding two_entries_def by (intro built_ok built.intros)
qed (simp_all add: no_empty_record_def two_entries_def add_ops_defs batch_simps empty_batch_def total_bytes_def)

lemma stored_first:
  "on_client (receive store_two False ''/io/x/read'' [(kHeaderQueryId, ''1'')]) (reading_bucket ''1.18'' 0) =
     Inr ((kOk, Some stored_headers, map Some [''abch'', ''i'']), reading_bucket ''1.18'' 1)"
  by code_simp

lemma stored_then:
  "on_client (receive store_two False ''/io/x/read'' [(kHeaderQueryId, ''1'')]) (reading_bucket ''1.18'' 1) =
     Inr ((mk_error 204 ''no more'', None, []), reading_bucket ''1.18'' 2)"
  by code_simp

lemma stored_request:
  "build_batch_v2_request isort [] two_entries kWrite True =
     ok_result \<lparr>bq_ordered = [0, 1], bq_entries = [''a'', ''b''], bq_start_ts = 1,
       bq_headers = [(''x-reduct-entries'', ''a,b''), (''x-reduct-start-ts'', ''1''), (''x-reduct-0-0'', ''3,''),
         (''x-reduct-1-1'', ''2,'')]\<rparr>"
  by code_simp

lemma uploaded_at_once:
  assumes "std_sort srt" and "batch_ok b" and "total_bytes b < 2 ^ 64" and "order = sort_records srt b d v2"
    and "ordered_payload b order = payload" and "payload \<noteq> []" and "length payload = n" and "n \<le> kMaxChunkSize"
  shows "(upload_step (content_provider (batch_callback order b)) n)\<^sup>*\<^sup>* (0, []) (n, payload)"
proof -
  have "content_provider (batch_callback order b) 0 n = Inr (Some payload)"
    using body_source.provider_serves [OF batch_source [OF assms(1-3), of d v2], folded assms(4), unfolded assms(5), of 0 n]
      assms(6-8) by (cases payload) auto
  then have "upload_step (content_provider (batch_callback order b)) n (0, []) (0 + length payload, [] @ payload)"
    using assms(6,7) by (intro upload_chunk [where n = n]) auto
  then show ?thesis using assms(7) by auto
qed

lemma two_entries_uploaded:
  "(upload_step (content_provider (batch_callback [0, 1] two_entries)) 5)\<^sup>*\<^sup>* (0, []) (5, ''abchi'')"
proof (rule uploaded_at_once [OF isort.std_sort_axioms two_entries_ok(1,2)])
  show "[0, 1] = sort_records isort two_entries [] True" "ordered_payload two_entries [0, 1] = ''abchi''" by code_simp+
qed (simp_all add: kMaxChunkSize_def)

lemma stored_opened:
  "open_query store_two id_json True ''a'' None None default_query_options (reading_bucket ''1.18'' 0) =
     Inr (ok_result 1, reading_bucket ''1.18'' 0)"
  by code_simp

lemma two_entries_read:
  "snd (deliver_all keep_all (batch_contents False (sort_records isort two_entries [] True) two_entries) (False, [])) =
     [''abc'', ''hi'']"
  by code_simp


end
