(* ===== verification/Write_Query_V1.thy ===== *)
theory Write_Query_V1
  imports Write_Query
begin

text \<open>
  The way of a batch on servers before version 1.18: \<^verbatim>\<open>WriteBatch\<close> of one entry sends it with the
  headers of v1 (bucket.cc, batch_v1.cc), and a query of the entry reads it back. What the query
  does with the answer is shown in Write_Query for both protocols.
\<close>

section \<open>What WriteBatch sends\<close>

definition entry_batch_request :: "'n bucket \<Rightarrow> string \<Rightarrow> batch \<Rightarrow> nat list \<Rightarrow> http_request" where
  "entry_batch_request bk entry_name b order =
     \<lparr>rq_method = POST,
      rq_path = add_api_prefix (bk_client bk) (bk_path bk @ ''/'' @ entry_name @ ''/batch''),
      rq_headers = build_headers_v1 b kWrite order,
      rq_body = Provider_body (unat (batch_size b)) (content_provider (batch_callback order b))
        (c_string ''application/octet-stream'')\<rparr>"

definition entry_batch_answer ::
  "'n httplib \<Rightarrow> 'n bucket \<Rightarrow> http_result \<times> 'n \<Rightarrow> (batch_errors result \<times> 'n bucket) throws" where
  "entry_batch_answer lib bk answer =
     bind_throws (check_request lib (fst answer) (bk_client bk\<lparr>cl_net := snd answer\<rparr>)) (\<lambda>(err, c).
       if is_error err then Inr (err_result [] err, bk\<lparr>bk_client := c\<rparr>)
       else bind_throws (fold_throws batch_error_step_v1 (snd (body_and_headers (response_of (fst answer)))) [])
              (\<lambda>errors. Inr (ok_result errors, bk\<lparr>bk_client := c\<rparr>)))"

text \<open>All records belong to the entry of the call.\<close>

definition one_entry :: "string \<Rightarrow> batch \<Rightarrow> bool" where
  "one_entry entry_name b \<longleftrightarrow> (\<forall>r \<in> set (batch_records b). br_entry r \<in> {[], entry_name})"

lemma one_entry_unique:
  assumes "one_entry entry_name b" and "\<forall>i \<in> set order. i < length (batch_records b)"
  shows "length (remdups (map (\<lambda>i. record_entry (batch_records b ! i) entry_name) order)) \<le> 1"
proof -
  have "set (map (\<lambda>i. record_entry (batch_records b ! i) entry_name) order) \<subseteq> {entry_name}"
    using assms by (fastforce simp: one_entry_def record_entry_def)
  then have "card (set (map (\<lambda>i. record_entry (batch_records b ! i) entry_name) order)) \<le> 1"
    using card_mono [of "{entry_name}"] by simp
  then show ?thesis by (simp add: length_remdups_card_conv)
qed

lemma write_entry_batch_run:
  assumes "supports_batch_protocol_v2 bk = Inr (False, bk)" and "b = fill empty_batch" and "one_entry entry_name b"
    and "\<forall>i \<in> set order. i < length (batch_records b)" and order: "order = sort_records srt b entry_name False"
  shows "write_entry_batch srt lib entry_name fill bk =
    bind_throws (hl_send lib (cl_transport (bk_client bk)) (entry_batch_request bk entry_name b order) (cl_net (bk_client bk)))
      (entry_batch_answer lib bk)"
proof -
  let ?send = "hl_send lib (cl_transport (bk_client bk)) (entry_batch_request bk entry_name b order) (cl_net (bk_client bk))"
  have one: "(Suc 0 < length (remdups (map (\<lambda>i. record_entry (batch_records b ! i) entry_name) order))) = False"
    using one_entry_unique [OF assms(3,4)] by simp
  note run = write_entry_batch_def process_entry_batch_def Let_def assms(1) assms(2) [symmetric] bind_run get_io_def
    process_batch_v1_def order [symmetric] send_batch_v1_def post_chunked_run on_client_def bind_io_def ret_io_def
    throws_io_def entry_batch_answer_def result_simps one
  have send: "\<lparr>rq_method = POST, rq_path = add_api_prefix (bk_client bk) (bk_path bk @ ''/'' @ entry_name @ ''/batch''),
      rq_headers = build_headers_v1 b kWrite order,
      rq_body = Provider_body (unat (batch_size b)) (content_provider (batch_callback order b))
        (c_string ''application/octet-stream'')\<rparr> = entry_batch_request bk entry_name b order"
    by (simp add: entry_batch_request_def)
  show ?thesis
  proof (cases ?send)
    case (Inr answer)
    then show ?thesis
    proof (cases "check_request lib (fst answer) (bk_client bk\<lparr>cl_net := snd answer\<rparr>)")
      case (Inr verdict)
      with \<open>?send = Inr answer\<close> show ?thesis
        by (cases "is_error (fst verdict)") (simp_all add: run send [simplified] bind_throws_assoc case_prod_unfold)
    qed (simp add: run send [simplified] case_prod_unfold)
  qed (simp add: run send [simplified] case_prod_unfold)
qed

section \<open>Property\<close>

definition entry_batch_contents :: "bool \<Rightarrow> nat list \<Rightarrow> batch \<Rightarrow> (readable_record \<times> string) list" where
  "entry_batch_contents flag order b =
     record_contents flag (map (received_v1 False) (map ((!) (batch_records b)) order)) order b"

lemma received_v1_fn_sizes:
  assumes "no_empty_record b" and "\<forall>i \<in> set order. i < length (batch_records b)"
  shows "list_all2 fn_size (map rr_read (map (received_v1 False) (map ((!) (batch_records b)) order)))
    (map (\<lambda>i. br_size (batch_records b ! i)) order)"
  unfolding received_v1_reads
  using assms by (auto simp: list_all2_conv_all_nth no_empty_record_def fn_size_def)

text \<open>
  C2: The same on servers before 1.18, for a batch of one entry that the format of v1 carries: what
  \<^verbatim>\<open>WriteBatch\<close> has uploaded, in whatever pieces, comes back through \<^verbatim>\<open>Query\<close> when a server answers
  with the time headers of the request in any order and among others and with the body cut into any
  chunks. The callback sees the records in the order of their times, each with its payload.
\<close>

theorem entry_batch_is_queried:
  assumes "std_sort srt"
    and "b = fill empty_batch" and "batch_ok b" and "total_bytes b < 2 ^ 64" and "sendable_v1 b"
    and "no_empty_record b" and "batch_records b \<noteq> []" and "one_entry entry_name b"
    and "supports_batch_protocol_v2 bw = Inr (False, bw)"
    and "order = sort_records srt b entry_name False"
    and "rq_body (entry_batch_request bw entry_name b order) = Provider_body n prov mime"
    and "(upload_step prov n)\<^sup>*\<^sup>* (0, []) (n, sent)"
    and "query_answered lib' J False entry_name start stop options bk bk1 address hs chunks"
    and "\<not> qo_head_only options" and "\<not> qo_continuous options"
    and "mset (filter is_time_header hs) = mset (rq_headers (entry_batch_request bw entry_name b order))"
    and "concat chunks = sent" and "flag = (umap_get hs kHeaderLast = ''true'')"
  shows "write_entry_batch srt lib entry_name fill bw =
      bind_throws (hl_send lib (cl_transport (bk_client bw)) (entry_batch_request bw entry_name b order)
        (cl_net (bk_client bw))) (entry_batch_answer lib bw) \<and>
    (let u' = snd (deliver_all decide (entry_batch_contents flag order b) (False, u))
      in (\<exists>bk'. query_entry srt' lib' J entry_name start stop options (reading_callback decide) (bk, u) =
            Some (Inr (kOk, bk', u'))) \<and>
         (\<forall>e bk' u1. threaded_query lib' decide (response_records srt' False) (fst address) (snd address) False
            (bk1, u) e (bk', u1) \<longrightarrow> e = kOk \<and> u1 = u'))"
proof (rule conjI)
  have valid: "\<forall>i \<in> set order. i < length (batch_records b)"
    unfolding assms(10) by (rule sort_records_valid [OF assms(1)])
  show "write_entry_batch srt lib entry_name fill bw =
      bind_throws (hl_send lib (cl_transport (bk_client bw)) (entry_batch_request bw entry_name b order)
        (cl_net (bk_client bw))) (entry_batch_answer lib bw)"
    by (rule write_entry_batch_run [where b = b and fill = fill, OF assms(9,2,8) valid assms(10)])
  have prov: "n = unat (batch_size b)" "prov = content_provider (batch_callback order b)"
    using assms(11) by (simp_all add: entry_batch_request_def)
  have body: "concat chunks = ordered_payload b order"
    using batch_body_sent [OF assms(1,3,4,10) prov(1) assms(12) [unfolded prov(2)]] assms(17) by simp
  have "mset (filter is_time_header hs) = mset (build_headers_v1 b kWrite (sort_records srt b entry_name False))"
    using assms(16) by (simp add: entry_batch_request_def assms(10))
  then have rs: "response_records srt' False False hs =
      Inr (mark_last flag (map (received_v1 False) (map ((!) (batch_records b)) order)))"
    using v1_request_read_back [OF assms(1,5), of hs entry_name False]
    by (simp add: response_records_def build_records_v1_def assms(10,18))
  have ne: "order \<noteq> []" using assms(7,10) sort_records_Nil [OF assms(1)] by auto
  show "let u' = snd (deliver_all decide (entry_batch_contents flag order b) (False, u))
      in (\<exists>bk'. query_entry srt' lib' J entry_name start stop options (reading_callback decide) (bk, u) =
            Some (Inr (kOk, bk', u'))) \<and>
         (\<forall>e bk' u1. threaded_query lib' decide (response_records srt' False) (fst address) (snd address) False
            (bk1, u) e (bk', u1) \<longrightarrow> e = kOk \<and> u1 = u')"
    unfolding entry_batch_contents_def
    by (rule stored_batch_queried [OF assms(3) valid ne rs assms(18) received_v1_fn_sizes [OF assms(6) valid] body
          assms(14,15,13)])
qed

text \<open>A server before 1.18 that has stored the batch \<open>sample_v1\<close>, its answer marked as the last one.\<close>

definition stored_headers_v1 :: headers where
  "stored_headers_v1 = [(''content-type'', ''application/octet-stream''), (''x-reduct-time-2'', ''2,,''),
     (''x-reduct-last'', ''true''), (''x-reduct-time-1'', ''3,text/plain,k=v'')]"

definition fill_v1 :: "batch \<Rightarrow> batch" where
  "fill_v1 b = add_record_at 1000 ''abc'' ''text/plain'' [(''k'', ''v'')] (add_record_at 2000 ''hi'' [] [] b)"

abbreviation store_v1 :: "nat httplib" where
  "store_v1 \<equiv> storing stored_headers_v1 [''ab'', ''chi'']"

lemma stored_v1_queried:
  "query_answered store_v1 id_json False ''e'' None None default_query_options (reading_bucket ''1.17'' 0)
     (reading_bucket ''1.17'' 0) (query_path False (reading_bucket ''1.17'' 0) ''e'' 1) stored_headers_v1 [''ab'', ''chi'']"
proof -
  have path: "query_path False (reading_bucket ''1.17'' 0) ''e'' 1 = (''/b/x/e/batch?q=1'', [])"
    and v1: "supports_batch_protocol_v2 (reading_bucket ''1.17'' 0) = Inr (False, reading_bucket ''1.17'' 0)"
    and opened: "open_query store_v1 id_json False ''e'' None None default_query_options (reading_bucket ''1.17'' 0) =
      Inr (ok_result 1, reading_bucket ''1.17'' 0)"
    and first: "on_client (receive store_v1 False ''/b/x/e/batch?q=1'' []) (reading_bucket ''1.17'' 0) =
      Inr ((kOk, Some stored_headers_v1, map Some [''ab'', ''chi'']), reading_bucket ''1.17'' 1)"
    and second: "on_client (receive store_v1 False ''/b/x/e/batch?q=1'' []) (reading_bucket ''1.17'' 1) =
      Inr ((mk_error 204 ''no more'', None, []), reading_bucket ''1.17'' 2)"
    by code_simp+
  show ?thesis
    using first second by (intro query_answered_more [OF v1 opened refl]) (simp_all add: path mk_error_def)
qed

lemma sample_v1_written:
  "rq_body (entry_batch_request (reading_bucket ''1.17'' 0) ''e'' sample_v1 [1, 0]) =
     Provider_body 5 (content_provider (batch_callback [1, 0] sample_v1)) ''application/octet-stream''"
  "mset (filter is_time_header stored_headers_v1) =
     mset (rq_headers (entry_batch_request (reading_bucket ''1.17'' 0) ''e'' sample_v1 [1, 0]))"
  "sort_records isort sample_v1 ''e'' False = [1, 0]" "ordered_payload sample_v1 [1, 0] = ''abchi''"
proof -
  have hs: "build_headers_v1 sample_v1 kWrite [1, 0] = [(''x-reduct-time-1'', ''3,text/plain,k=v''), (''x-reduct-time-2'', ''2,,'')]"
    and size: "unat (batch_size sample_v1) = 5" and mime: "c_string ''application/octet-stream'' = ''application/octet-stream''"
    by code_simp+
  show "sort_records isort sample_v1 ''e'' False = [1, 0]" "ordered_payload sample_v1 [1, 0] = ''abchi''" by code_simp+
  show "rq_body (entry_batch_request (reading_bucket ''1.17'' 0) ''e'' sample_v1 [1, 0]) =
     Provider_body 5 (content_provider (batch_callback [1, 0] sample_v1)) ''application/octet-stream''"
    by (simp add: entry_batch_request_def size mime)
  show "mset (filter is_time_header stored_headers_v1) =
     mset (rq_headers (entry_batch_request (reading_bucket ''1.17'' 0) ''e'' sample_v1 [1, 0]))"
    by (simp add: entry_batch_request_def hs [simplified] stored_headers_v1_def is_time_header_def header_names starts_with_def)
qed

lemma sample_v1_read:
  "snd (deliver_all keep_all (entry_batch_contents True [1, 0] sample_v1) (False, [])) = [''abc'', ''hi'']"
  by code_simp

theorem entry_batch_is_queried_witness:
  "\<exists>bk'. query_entry isort store_v1 id_json ''e'' None None default_query_options (reading_callback keep_all)
     (reading_bucket ''1.17'' 0, []) = Some (Inr (kOk, bk', [''abc'', ''hi'']))"
proof -
  have fill: "sample_v1 = fill_v1 empty_batch" by (simp add: sample_v1_def fill_v1_def)
  note ok = built_ok [OF sample_v1_built]
  have small: "total_bytes sample_v1 < 2 ^ 64" and one: "one_entry ''e'' sample_v1" and ne: "batch_records sample_v1 \<noteq> []"
    and no_empty: "no_empty_record sample_v1"
    by (simp_all add: total_bytes_def one_entry_def no_empty_record_def sample_v1_def add_ops_defs batch_simps empty_batch_def)
  have v1: "supports_batch_protocol_v2 (reading_bucket ''1.17'' 0) = Inr (False, reading_bucket ''1.17'' 0)" by code_simp
  have options: "\<not> qo_head_only default_query_options" "\<not> qo_continuous default_query_options" by code_simp+
  have last: "True = (umap_get stored_headers_v1 kHeaderLast = ''true'')"
    by (simp add: stored_headers_v1_def umap_get_def header_names)
  have sent: "(upload_step (content_provider (batch_callback [1, 0] sample_v1)) 5)\<^sup>*\<^sup>* (0, []) (5, ''abchi'')"
    by (rule uploaded_at_once [OF isort.std_sort_axioms ok small sample_v1_written(3) [symmetric] sample_v1_written(4)])
      (simp_all add: kMaxChunkSize_def)
  have "(\<exists>bk'. query_entry isort store_v1 id_json ''e'' None None default_query_options (reading_callback keep_all)
      (reading_bucket ''1.17'' 0, []) = Some (Inr (kOk, bk',
        snd (deliver_all keep_all (entry_batch_contents True [1, 0] sample_v1) (False, [])))))"
    using entry_batch_is_queried [where fill = fill_v1 and lib = store_v1 and decide = keep_all and u = "[]",
        OF isort.std_sort_axioms fill ok small sample_v1_sendable no_empty ne one v1 sample_v1_written(3) [symmetric]
        sample_v1_written(1) sent stored_v1_queried options sample_v1_written(2) _ last]
    by (simp add: Let_def)
  then show ?thesis by (simp only: sample_v1_read)
qed

end
