(* ===== verification/Query_Json.thy ===== *)
theory Query_Json
  imports Serialisation
begin

text \<open>
  The body of a query request (serialisation.cc, \<^verbatim>\<open>QueryOptionsToJsonString\<close>) as the finite map that
  it stands for: a JSON object that the code builds with \<^verbatim>\<open>operator[]\<close> is abstracted to its members,
  and the property gives the members of every query.
\<close>

section \<open>The members of an object\<close>

definition members :: "'j json_ops \<Rightarrow> 'j \<Rightarrow> string \<Rightarrow> 'j option" where
  "members J j k =
     (if j_contains J j k then (case j_at J j k of Inr v \<Rightarrow> Some v | Inl e \<Rightarrow> None) else None)"

definition represents :: "'j json_ops \<Rightarrow> ('j \<Rightarrow> bool) \<Rightarrow> 'j \<Rightarrow> (string \<Rightarrow> 'j option) \<Rightarrow> bool" where
  "represents J obj j m \<longleftrightarrow> obj j \<and> members J j = m"

context json_laws begin

lemma represents_null: "represents J is_obj (j_null J) (\<lambda>k. None)"
  by (simp add: represents_def members_def built fun_eq_iff)

lemma members_set: "is_obj j \<Longrightarrow> members J (j_set J k v j) = (members J j)(k \<mapsto> v)"
  by (simp add: members_def built fun_eq_iff)

lemma represents_set: "represents J is_obj j m \<Longrightarrow> represents J is_obj (j_set J k v j) (m(k \<mapsto> v))"
  by (auto simp: represents_def members_set obj_set)

lemma represents_optional:
  "represents J is_obj j m \<Longrightarrow> m k = None \<Longrightarrow>
     represents J is_obj (set_optional J k f x j) (m(k := map_option f x))"
  using represents_set [of j m k] by (cases x) (auto simp: set_optional_def fun_upd_idem)

end

section \<open>The members of a query\<close>

text \<open>A text that is sent as the JSON it stands for.\<close>

definition parsed :: "'j json_ops \<Rightarrow> string option \<Rightarrow> 'j option" where
  "parsed J source = (case source of None \<Rightarrow> None | Some t \<Rightarrow> (case j_parse J t of Inr v \<Rightarrow> Some v | Inl e \<Rightarrow> None))"

definition unparsable :: "'j json_ops \<Rightarrow> string option \<Rightarrow> bool" where
  "unparsable J source \<longleftrightarrow> (case source of None \<Rightarrow> False | Some t \<Rightarrow> (case j_parse J t of Inr v \<Rightarrow> False | Inl e \<Rightarrow> True))"

definition query_members ::
  "'j json_ops \<Rightarrow> string \<Rightarrow> string list \<Rightarrow> time option \<Rightarrow> time option \<Rightarrow> query_options \<Rightarrow> string \<Rightarrow> 'j option" where
  "query_members J type entries start stop options =
     (\<lambda>k. None)
       (''query_type'' := Some (j_string J type),
        ''entries'' := Some (j_strings J entries),
        ''start'' := map_option (\<lambda>t. j_int J (to_microseconds t)) start,
        ''stop'' := map_option (\<lambda>t. j_int J (to_microseconds t)) stop,
        ''ttl'' := map_option (\<lambda>ms. j_int J (trunc_div ms 1000)) (qo_ttl options),
        ''continuous'' := (if qo_continuous options then Some (j_bool J True) else None),
        ''when'' := parsed J (qo_when options),
        ''strict'' := map_option (j_bool J) (qo_strict options),
        ''ext'' := parsed J (qo_ext options))"

context json_laws begin

lemma represents_parsed:
  assumes "represents J is_obj j m" and "m k = None" and "\<not> unparsable J source"
  shows "\<exists>j'. set_parsed J k source j = Inr j' \<and> represents J is_obj j' (m(k := parsed J source))"
  using assms represents_set [OF assms(1), of k]
  by (cases source) (auto simp: set_parsed_def parsed_def unparsable_def fun_upd_idem split: sum.splits)

lemma query_represents:
  assumes "\<not> unparsable J (qo_when options)" and "\<not> unparsable J (qo_ext options)"
  shows "\<exists>j. query_options_to_json J type entries start stop options = Inr (ok_result j) \<and>
    represents J is_obj j (query_members J type entries start stop options)"
proof -
  let ?m1 = "(\<lambda>k. None)(''query_type'' := Some (j_string J type), ''entries'' := Some (j_strings J entries))"
  let ?m2 = "?m1(''start'' := map_option (\<lambda>t. j_int J (to_microseconds t)) start)"
  let ?m3 = "?m2(''stop'' := map_option (\<lambda>t. j_int J (to_microseconds t)) stop)"
  let ?m4 = "?m3(''ttl'' := map_option (\<lambda>ms. j_int J (trunc_div ms 1000)) (qo_ttl options))"
  let ?m5 = "?m4(''continuous'' := (if qo_continuous options then Some (j_bool J True) else None))"
  let ?m6 = "?m5(''when'' := parsed J (qo_when options))"
  let ?m7 = "?m6(''strict'' := map_option (j_bool J) (qo_strict options))"
  define j1 where "j1 = j_set J ''entries'' (j_strings J entries) (j_set J ''query_type'' (j_string J type) (j_null J))"
  have r1: "represents J is_obj j1 ?m1"
    unfolding j1_def by (intro represents_set represents_null)
  define j2 where "j2 = set_optional J ''start'' (\<lambda>t. j_int J (to_microseconds t)) start j1"
  have r2: "represents J is_obj j2 ?m2" unfolding j2_def by (rule represents_optional [OF r1]) simp
  define j3 where "j3 = set_optional J ''stop'' (\<lambda>t. j_int J (to_microseconds t)) stop j2"
  have r3: "represents J is_obj j3 ?m3" unfolding j3_def by (rule represents_optional [OF r2]) simp
  define j4 where "j4 = set_optional J ''ttl'' (\<lambda>ms. j_int J (trunc_div ms 1000)) (qo_ttl options) j3"
  have r4: "represents J is_obj j4 ?m4" unfolding j4_def by (rule represents_optional [OF r3]) simp
  define j5 where "j5 = (if qo_continuous options then j_set J ''continuous'' (j_bool J True) j4 else j4)"
  have r5: "represents J is_obj j5 ?m5"
    using r4 represents_set [OF r4] by (simp add: j5_def fun_upd_idem)
  obtain j6 where j6: "set_parsed J ''when'' (qo_when options) j5 = Inr j6" and r6: "represents J is_obj j6 ?m6"
    using represents_parsed [OF r5 _ assms(1), of "''when''"] by auto
  define j7 where "j7 = set_optional J ''strict'' (j_bool J) (qo_strict options) j6"
  have r7: "represents J is_obj j7 ?m7" unfolding j7_def by (rule represents_optional [OF r6]) simp
  obtain j8 where j8: "set_parsed J ''ext'' (qo_ext options) j7 = Inr j8"
    and r8: "represents J is_obj j8 (?m7(''ext'' := parsed J (qo_ext options)))"
    using represents_parsed [OF r7 _ assms(2), of "''ext''"] by auto
  have "query_options_to_json J type entries start stop options = Inr (ok_result j8)"
    unfolding query_options_to_json_def Let_def j1_def [symmetric] j2_def [symmetric] j3_def [symmetric]
      j4_def [symmetric] j5_def [symmetric] j6 bind_throws.simps j7_def [symmetric] j8 by simp
  with r8 show ?thesis by (auto simp: query_members_def)
qed

end

lemma set_parsed_fails: "unparsable J source \<Longrightarrow> \<exists>e. set_parsed J k source j = Inl e"
  by (auto simp: unparsable_def set_parsed_def split: option.splits sum.splits)

lemma try_result_fails: "try_result d (Inl e) = Inr r \<Longrightarrow> err_code (res_error r) = - 1"
  by (auto simp: try_result_def mk_error_def split: if_splits)

lemma query_unparsable:
  assumes "unparsable J (qo_when options) \<or> unparsable J (qo_ext options)"
    and "query_options_to_json J type entries start stop options = Inr r"
  shows "err_code (res_error r) = - 1"
proof -
  have fails: "\<exists>e. bind_throws (set_parsed J ''when'' (qo_when options) j) (\<lambda>j6.
      bind_throws (set_parsed J ''ext'' (qo_ext options) (f j6)) g) = Inl e" for j f g
  proof (cases "set_parsed J ''when'' (qo_when options) j")
    case (Inr j6)
    then have "unparsable J (qo_ext options)" using assms(1) set_parsed_fails [of J "qo_when options" "''when''" j] by auto
    then show ?thesis using Inr set_parsed_fails [of J "qo_ext options" "''ext''" "f j6"] by auto
  qed simp
  with assms(2) show ?thesis
    unfolding query_options_to_json_def Let_def by (metis try_result_fails)
qed

section \<open>Property\<close>

text \<open>
  C31: What a query asks for: the JSON that is sent has the type and the entries, the bounds of the
  interval in microseconds, the time to live in whole seconds, the condition and the extension
  as the JSON that their texts stand for, and the flags, each of them exactly when the caller has
  set it, and nothing else (the poll interval and the choice of metadata stay with the client).
  A condition or an extension that is not JSON is an error, and no request is made from it.
\<close>

theorem query_json_members:
  assumes "json_laws J obj" and "query_options_to_json J type entries start stop options = Inr r"
  shows "if unparsable J (qo_when options) \<or> unparsable J (qo_ext options) then err_code (res_error r) = - 1
    else res_error r = kOk \<and> members J (res_value r) = query_members J type entries start stop options"
proof (cases "unparsable J (qo_when options) \<or> unparsable J (qo_ext options)")
  case True
  then show ?thesis using query_unparsable [OF True assms(2)] by simp
next
  case False
  with json_laws.query_represents [OF assms(1), of options type entries start stop] assms(2)
  show ?thesis by (auto simp: represents_def)
qed

theorem query_json_members_witness:
  "\<exists>j. query_options_to_json (value_json (\<lambda>s. Inr (JInt 1)) (\<lambda>j. Inr [])) ''QUERY'' [''e''] (Some 5000) None
       (default_query_options\<lparr>qo_when := Some ''1'', qo_ttl := Some 2500\<rparr>) = Inr (ok_result j) \<and>
     members (value_json (\<lambda>s. Inr (JInt 1)) (\<lambda>j. Inr [])) j ''when'' = Some (JInt 1) \<and>
     members (value_json (\<lambda>s. Inr (JInt 1)) (\<lambda>j. Inr [])) j ''ttl'' = Some (JInt 2) \<and>
     members (value_json (\<lambda>s. Inr (JInt 1)) (\<lambda>j. Inr [])) j ''start'' = Some (JInt 5) \<and>
     members (value_json (\<lambda>s. Inr (JInt 1)) (\<lambda>j. Inr [])) j ''stop'' = None"
proof -
  let ?J = "value_json (\<lambda>s. Inr (JInt 1)) (\<lambda>j. Inr [])"
  let ?options = "default_query_options\<lparr>qo_when := Some ''1'', qo_ttl := Some 2500\<rparr>"
  have parse: "\<not> unparsable ?J (qo_when ?options)" "\<not> unparsable ?J (qo_ext ?options)" by code_simp+
  obtain j where j: "query_options_to_json ?J ''QUERY'' [''e''] (Some 5000) None ?options = Inr (ok_result j)"
    using value_json.query_represents [OF parse] by blast
  have spec: "query_members ?J ''QUERY'' [''e''] (Some 5000) None ?options ''when'' = Some (JInt 1)"
    "query_members ?J ''QUERY'' [''e''] (Some 5000) None ?options ''ttl'' = Some (JInt 2)"
    "query_members ?J ''QUERY'' [''e''] (Some 5000) None ?options ''start'' = Some (JInt 5)"
    "query_members ?J ''QUERY'' [''e''] (Some 5000) None ?options ''stop'' = None"
    by code_simp+
  have "members ?J j = query_members ?J ''QUERY'' [''e''] (Some 5000) None ?options"
    using query_json_members [OF value_json.json_laws_axioms j] parse by simp
  with j show ?thesis unfolding spec [symmetric] by (intro exI [of _ j]) simp
qed

end
