(* ===== verification/Http_Url.thy ===== *)
theory Http_Url
  imports Http_Client
begin

text \<open>
  Where the requests go (http_client.cc, the constructor and \<^verbatim>\<open>AddApiPrefix\<close>): the URL of a client is
  cut into the address that \<^verbatim>\<open>httplib\<close> connects to and a path, and every request is made for the
  path, the prefix of the API and its own path. The property puts the pieces together again.
\<close>

section \<open>Cutting\<close>

lemma take_drop_url: "fst (split_url url) @ snd (split_url url) = url"
  by (simp add: split_url_def substr_def substr_from_def split: option.split)

lemma find_sub_separator:
  assumes "CHR '':'' \<notin> set scheme"
  shows "find_sub ''://'' (scheme @ ''://'' @ rest) = Some (length scheme)"
  using assms
proof (induction scheme)
  case Nil
  show ?case by (subst find_sub.simps) simp
next
  case (Cons c scheme)
  then have "c \<noteq> CHR '':''" by auto
  with Cons show ?case by (subst find_sub.simps) simp
qed

lemma split_url_parts:
  assumes "CHR '':'' \<notin> set scheme" and "CHR ''/'' \<notin> set host" and "path = [] \<or> hd path = CHR ''/''"
  shows "split_url (scheme @ ''://'' @ host @ path) = (scheme @ ''://'' @ host, path)"
proof (cases path)
  case Nil
  have "drop (length scheme + 3) (scheme @ ''://'' @ host) = host" by simp
  then have "path_start (scheme @ ''://'' @ host) = None"
    unfolding path_start_def find_sub_separator [OF assms(1)] using assms(2)
    by (simp add: find_from_def find_char_None)
  then show ?thesis by (simp add: split_url_def Nil)
next
  case (Cons c rest)
  with assms(3) have path: "path = CHR ''/'' # rest" by simp
  have "drop (length scheme + 3) (scheme @ ''://'' @ host @ path) = host @ CHR ''/'' # rest" by (simp add: path)
  moreover have "find_char (CHR ''/'') (host @ CHR ''/'' # rest) = Some (length host)"
    using assms(2) by (induction host) auto
  ultimately have "path_start (scheme @ ''://'' @ host @ path) = Some (length scheme + 3 + length host)"
    unfolding path_start_def find_sub_separator [OF assms(1)] by (simp add: find_from_def)
  moreover define base where "base = scheme @ ''://'' @ host"
  ultimately have "path_start (base @ path) = Some (length base)" by simp
  then have "split_url (base @ path) = (base, path)" by (simp add: split_url_def substr_def substr_from_def)
  then show ?thesis by (simp add: base_def)
qed

section \<open>Property\<close>

text \<open>
  C32: The pieces of a URL are put together again in every request: for a URL with a scheme, a host
  (with or without a port) and a path, the client connects to scheme and host, and what it asks
  for is the path of the URL, where one slash at its end is dropped, the prefix of the API and
  the path of the request; so the address of a request is that of the URL with these two after
  it. The same prefix is used by every request of the client, whatever it has learned.
\<close>

theorem requests_go_under_url:
  assumes "url = scheme @ ''://'' @ host @ path" and "CHR '':'' \<notin> set scheme" and "CHR ''/'' \<notin> set host"
    and "path = [] \<or> hd path = CHR ''/''"
    and "cl_api_prefix c = cl_api_prefix (build_http_client url options net)"
  shows "tr_base_url (cl_transport (build_http_client url options net)) = scheme @ ''://'' @ host \<and>
    send lib m p hs body c =
      bind_throws (hl_send lib (cl_transport c)
          \<lparr>rq_method = m,
           rq_path = (if ends_with path ''/'' then butlast path else path) @ ''/api/v1'' @ p,
           rq_headers = hs, rq_body = body\<rparr> (cl_net c))
        (\<lambda>(res, net'). Inr (res, c\<lparr>cl_net := net'\<rparr>)) \<and>
    (scheme @ ''://'' @ host) @ (if ends_with path ''/'' then butlast path else path) =
      (if ends_with path ''/'' then butlast url else url)"
proof -
  have split: "split_url url = (scheme @ ''://'' @ host, path)"
    using split_url_parts [OF assms(2-4)] by (simp add: assms(1))
  have prefix: "cl_api_prefix c = (if ends_with path ''/'' then butlast path else path) @ ''/api/v1''"
    by (simp add: assms(5) build_http_client_def split api_prefix_def kApiPrefix_def substr_def butlast_conv_take)
  have base: "tr_base_url (cl_transport (build_http_client url options net)) = scheme @ ''://'' @ host"
    by (simp add: build_http_client_def split)
  have address: "(scheme @ ''://'' @ host) @ (if ends_with path ''/'' then butlast path else path) =
      (if ends_with path ''/'' then butlast url else url)"
    using assms(1) by (auto simp: ends_with_def butlast_append)
  show ?thesis
    unfolding base address send_def add_api_prefix_def prefix by simp
qed

definition proxy_options :: http_options where
  "proxy_options = \<lparr>ho_api_token = [], ho_ssl_verification = True, ho_connection_timeout = None,
     ho_request_timeout = None\<rparr>"

theorem requests_go_under_url_witness:
  "tr_base_url (cl_transport (build_http_client ''http://h:8383/proxy/'' proxy_options ())) = ''http://h:8383''"
proof -
  have "tr_base_url (cl_transport (build_http_client ''http://h:8383/proxy/'' proxy_options ())) =
      ''http'' @ ''://'' @ ''h:8383''"
    by (rule requests_go_under_url [where path = "''/proxy/''" and
          c = "build_http_client ''http://h:8383/proxy/'' proxy_options ()", THEN conjunct1]) simp_all
  then show ?thesis by simp
qed

end
