(* ===== verification/Example_Programs.thy ===== *)
theory Example_Programs
  imports Query_Stream Client
begin

text \<open>
  The programs under \<^verbatim>\<open>examples\<close>, as users of the library: subscription.cc, a thread that writes
  ten records beside a continuous query that stops after three messages, and usage_example.cc.
  The properties say what the subscription prints and when it ends; they rest on the
  specification of queries in the theory Query_Stream. A thread has a view of the network of its
  own; the standard output of a thread is the list of its lines.
\<close>

section \<open>What both programs use\<close>

text \<open>\<^verbatim>\<open>HttpOptions options = {}\<close>: the members are value-initialised.\<close>

definition no_http_options :: http_options where
  "no_http_options = \<lparr>ho_api_token = [], ho_ssl_verification = False, ho_connection_timeout = None,
     ho_request_timeout = None\<rparr>"

definition local_client :: "'n \<Rightarrow> 'n client" where
  "local_client net = build_client ''http://127.0.0.1:8383'' no_http_options net"

text \<open>
  How \<^verbatim>\<open>main\<close> ends: with an exit code, or by \<^verbatim>\<open>std::terminate\<close>. An exception is a value of the
  outcome of \<open>main\<close>, and a \<open>main\<close> that does not return is \<open>None\<close>.
\<close>

datatype exit = Exit_code int | Terminate

text \<open>\<^verbatim>\<open>auto [bucket, err] = client->GetOrCreateBucket("bucket")\<close>, and a bucket that is used.\<close>

definition the_bucket :: "'n bucket option result \<Rightarrow> 'n bucket throws" where
  "the_bucket r =
     (case res_value r of Some b \<Rightarrow> Inr b | None \<Rightarrow> Inl (Undefined_behaviour ''bucket-> of nullptr''))"

section \<open>The subscription\<close>

text \<open>One iteration of the writing thread; the second component of the state is what it prints.\<close>

definition good_label :: "nat \<Rightarrow> label_map" where
  "good_label i = [(''good'', if even i then ''true'' else ''false'')]"

definition writer_step ::
  "'n httplib \<Rightarrow> (nat \<Rightarrow> time) \<Rightarrow> nat \<Rightarrow> 'n bucket \<times> string list \<Rightarrow> ('n bucket \<times> string list) throws" where
  "writer_step lib clock i st =
     (let msg = ''Hey '' @ show_nat i
      in bind_throws
           (write_record lib (clock i) ''entry-1''
              \<lparr>wo_timestamp = Some (clock i), wo_labels = good_label i, wo_content_type = []\<rparr>
              (wr_write_all msg) (fst st))
           (\<lambda>(write_err, b). Inr (b, snd st @ [''Write: '' @ msg])))"

definition writer_thread :: "'n httplib \<Rightarrow> 'j json_ops \<Rightarrow> (nat \<Rightarrow> time) \<Rightarrow> 'n \<Rightarrow> string list throws" where
  "writer_thread lib J clock net =
     bind_throws (get_or_create_bucket lib J ''bucket'' no_settings (local_client net)) (\<lambda>(r, c).
       if is_error (res_error r) then Inr []
       else bind_throws (the_bucket r) (\<lambda>b.
              bind_throws (fold_throws (writer_step lib clock) [0..<10] (b, [])) (\<lambda>(b', out). Inr out)))"

text \<open>
  The callback of the query: \<open>good_count\<close> and what was printed. \<^verbatim>\<open>ReadAll\<close> has no error, since the
  \<^verbatim>\<open>Read\<close> functions return none.
\<close>

definition on_message :: "(int \<times> string list) verdict" where
  "on_message record msg st = (fst st + 1 \<noteq> 3, (fst st + 1, snd st @ [''Read: '' @ msg]))"

definition subscription_options :: query_options where
  "subscription_options = default_query_options\<lparr>qo_continuous := True, qo_poll_interval := 100\<rparr>"

text \<open>
  \<^verbatim>\<open>main\<close>: an exception in the writing thread ends the process, at the latest while it is joined;
  and where \<^verbatim>\<open>main\<close> returns without joining, the destructor of the thread does.
\<close>

definition subscription_main ::
  "header_sort \<Rightarrow> 'n httplib \<Rightarrow> 'j json_ops \<Rightarrow> time \<Rightarrow> (nat \<Rightarrow> time) \<Rightarrow> 'n \<Rightarrow> 'n \<Rightarrow>
   (exit \<times> int \<times> string list) diverges" where
  "subscription_main srt lib J now clock writer_net net =
     (case writer_thread lib J clock writer_net of
        Inl e \<Rightarrow> Some (Inl e)
      | Inr written \<Rightarrow>
          case get_or_create_bucket lib J ''bucket'' no_settings (local_client net) of
            Inl e \<Rightarrow> Some (Inl e)
          | Inr (r, c) \<Rightarrow>
              if is_error (res_error r) then Some (Inr (Terminate, 0, []))
              else case the_bucket r of
                     Inl e \<Rightarrow> Some (Inl e)
                   | Inr b \<Rightarrow>
                       case query_entry srt lib J ''entry-1'' (Some now) None subscription_options
                              (reading_callback on_message) (b, 0, []) of
                         None \<Rightarrow> None
                       | Some (Inl e) \<Rightarrow> Some (Inl e)
                       | Some (Inr (query_err, b', st)) \<Rightarrow>
                           Some (Inr (Exit_code (if is_error query_err then - 1 else 0), st)))"

section \<open>The example of the usage\<close>

definition print_blob :: "string list verdict" where
  "print_blob record blob out = (True, out @ [''Read blob: '' @ blob])"

definition write_some :: "'n httplib \<Rightarrow> time \<Rightarrow> string \<Rightarrow> 'n bucket \<Rightarrow> 'n bucket throws" where
  "write_some lib now data b =
     bind_throws (write_record_at lib now ''entry-1'' None (wr_write_all data) b) (\<lambda>(write_err, b'). Inr b')"

text \<open>\<open>clock\<close> is what the clock says at \<open>start\<close>, at the three writes, and at the query.\<close>

definition usage_main ::
  "header_sort \<Rightarrow> 'n httplib \<Rightarrow> 'j json_ops \<Rightarrow> (nat \<Rightarrow> time) \<Rightarrow> 'n \<Rightarrow> (exit \<times> string list) diverges" where
  "usage_main srt lib J clock net =
     (case bind_throws (get_info lib J (local_client net)) (\<lambda>(info, c).
             if is_error (res_error info) then Inr (None, [])
             else bind_throws (get_or_create_bucket lib J ''bucket'' no_settings c) (\<lambda>(r, c').
               let out = [''Server version: '' @ si_version (res_value info)]
               in if is_error (res_error r) then Inr (None, out)
                  else bind_throws (the_bucket r) (\<lambda>b.
                       bind_throws (write_some lib (clock 1) ''some_data1'' b) (\<lambda>b1.
                       bind_throws (write_some lib (clock 2) ''some_data2'' b1) (\<lambda>b2.
                       bind_throws (write_some lib (clock 3) ''some_data3'' b2) (\<lambda>b3. Inr (Some b3, out))))))) of
        Inl e \<Rightarrow> Some (Inl e)
      | Inr (None, out) \<Rightarrow> Some (Inr (Exit_code (- 1), out))
      | Inr (Some b, out) \<Rightarrow>
          case query_entry srt lib J ''entry-1'' (Some (clock 0)) (Some (clock 4)) default_query_options
                 (reading_callback print_blob) (b, out) of
            None \<Rightarrow> None
          | Some (Inl e) \<Rightarrow> Some (Inl e)
          | Some (Inr (err, b', out')) \<Rightarrow> Some (Inr (Exit_code 0, out')))"

section \<open>Properties\<close>

text \<open>Three messages at most, whatever the server does.\<close>

lemma on_message_keeps:
  "callback_keeps (reading_callback on_message) (\<lambda>(n, out). 0 \<le> n \<and> n < 3 \<and> length out = nat n)
     (\<lambda>(n, out). 0 \<le> n \<and> n \<le> 3 \<and> length out = nat n)"
  by (rule reading_callback_keeps) (auto simp: on_message_def nat_add_distrib)

lemma subscription_bounded:
  assumes "subscription_main srt lib J now clock writer_net net = Some (Inr (code, n, out))"
  shows "0 \<le> n \<and> n \<le> 3 \<and> length out = nat n"
proof -
  have "0 \<le> n \<and> n \<le> 3 \<and> length out = nat n"
    if "query_entry srt lib J ''entry-1'' (Some now) None subscription_options (reading_callback on_message)
        (b, 0, []) = Some (Inr (e, b', n, out))" for b e b'
    using query_entry_keeps [OF that on_message_keeps] by auto
  then show ?thesis
    using assms by (auto simp: subscription_main_def split: sum.splits option.splits if_splits)
qed

text \<open>
  C16: The subscription, composed of the client, the query and its callback, against any server that
  keeps sending records: it ends with exit code 0 after exactly three messages and has printed
  the first three contents in the order in which they came, however they are divided into pages
  and however often the server says in between that it has no more. The labels play no part:
  the first three messages are taken, good or not.
\<close>

theorem subscription_reads_three:
  assumes "writer_thread lib J clock writer_net = Inr written"
    and "get_or_create_bucket lib J ''bucket'' no_settings (local_client net) = Inr (ok_result (Some b), c)"
    and "supports_batch_protocol_v2 b = Inr (v2, b0)"
    and "open_query lib J v2 ''entry-1'' (Some now) None subscription_options b0 = Inr (ok_result query_id, b1)"
    and "query_serves srt lib v2 ''entry-1'' query_id False b1 pages b2"
    and "\<forall>page \<in> set pages. streaming True page"
    and "concat (map page_records pages) = (r1, m1) # (r2, m2) # (r3, m3) # rest"
    and "\<not> rr_last r1" and "\<not> rr_last r2"
  shows "subscription_main srt lib J now clock writer_net net =
    Some (Inr (Exit_code 0, 3, [''Read: '' @ m1, ''Read: '' @ m2, ''Read: '' @ m3]))"
proof -
  have opts: "qo_continuous subscription_options" "\<not> qo_head_only subscription_options"
    by (simp_all add: subscription_options_def default_query_options_def)
  have "run_pages on_message True pages (0, []) =
      Ended kOk (3, [''Read: '' @ m1, ''Read: '' @ m2, ''Read: '' @ m3])"
    using run_pages_concat [OF assms(6), of on_message "(0, [])"] assms(7-9) by (simp add: on_message_def)
  with query_runs_pages_run [OF assms(3,4), of srt pages b2 on_message "(0, [])"] assms(5) opts
  obtain b' where "query_entry srt lib J ''entry-1'' (Some now) None subscription_options
      (reading_callback on_message) (b, 0, []) =
    Some (Inr (kOk, b', 3, [''Read: '' @ m1, ''Read: '' @ m2, ''Read: '' @ m3]))"
    by auto
  then show ?thesis using assms(1,2) by (simp add: subscription_main_def the_bucket_def)
qed

text \<open>A server that answers everything with one record, without the mark of the last one.\<close>

definition one_more :: http_response where
  "one_more = \<lparr>hr_status = 200, hr_headers = [(''x-reduct-time-0'', ''1,t'')], hr_body = ''a''\<rparr>"

definition next_record :: readable_record where
  "next_record = last_record\<lparr>rr_last := False\<rparr>"

definition example_bucket :: "unit bucket" where
  "example_bucket = build_bucket ''http://127.0.0.1:8383'' ''bucket'' no_http_options None ()"

lemma example_bucket_found:
  "get_or_create_bucket (answering one_more) id_json ''bucket'' no_settings (local_client ()) =
     Inr (ok_result (Some example_bucket), local_client ())"
  by code_simp

lemma example_written:
  "writer_thread (answering one_more) id_json (\<lambda>i. 0) () =
     Inr (map (\<lambda>i. ''Write: Hey '' @ show_nat i) [0..<10])"
  by code_simp

lemma example_opened:
  "open_query (answering one_more) id_json False ''entry-1'' (Some 0) None subscription_options example_bucket =
     Inr (ok_result 1, example_bucket)"
  by code_simp

lemma one_more_record: "build_records_v1 kBatched False [(''x-reduct-time-0'', ''1,t'')] = Inr [next_record]"
proof -
  have "show_nat 0 = ''0''" by code_simp
  then have "from_microseconds ''0'' = Inr 0"
    using from_microseconds_show [of 0] by (simp add: time_of_us_def int64_id is_int64_def)
  moreover have "parse_csv ''1,t'' = Inr (1, ''t'', [])" by code_simp
  ultimately show ?thesis
    by (simp add: build_records_v1_def parse_and_build_batched_records_v1_def omap_of_list_def omap_emplace_def
        build_record_step_v1_def is_time_header_def header_names starts_with_def substr_from_def umap_get_def
        last_record_def next_record_def)
qed

lemma one_more_page:
  "on_client (receive (answering one_more) False
      (bk_path example_bucket @ ''/'' @ ''entry-1'' @ ''/batch?q='' @ show_nat (unat 1)) []) example_bucket =
     Inr ((kOk, Some [(''x-reduct-time-0'', ''1,t'')], [Some ''a'']), example_bucket)"
  by code_simp

lemma one_more_serves:
  "query_serves srt (answering one_more) False ''entry-1'' 1 False example_bucket
     (replicate n (Records [(next_record, ''a'')])) example_bucket"
proof -
  have arrives: "arrives (build_records_v1 kBatched) False
      (kOk, Some [(''x-reduct-time-0'', ''1,t'')], map Some [''a''])
      (Records (zip [next_record] (split_sizes [1] (concat [''a'']))))"
    by (rule arrives_records) (simp_all add: one_more_record fn_size_def next_record_def last_record_def)
  have "serves (answering one_more) (build_records_v1 kBatched) False
      (bk_path example_bucket @ ''/'' @ ''entry-1'' @ ''/batch?q='' @ show_nat (unat 1)) [] example_bucket
      (replicate n (Records [(next_record, ''a'')])) example_bucket"
  proof (induction n)
    case (Suc n)
    then show ?case using serves_page [OF one_more_page _ Suc] arrives by simp
  qed (simp add: serves_nothing)
  then show ?thesis by (simp add: query_serves_def)
qed

theorem subscription_reads_three_witness:
  "subscription_main isort (answering one_more) id_json 0 (\<lambda>i. 0) () () =
     Some (Inr (Exit_code 0, 3, [''Read: a'', ''Read: a'', ''Read: a'']))"
proof -
  have v1: "supports_batch_protocol_v2 example_bucket = Inr (False, example_bucket)" by code_simp
  show ?thesis
    using subscription_reads_three [OF example_written example_bucket_found v1 example_opened one_more_serves [of isort 3]]
    by (simp add: streaming_def next_record_def numeral_3_eq_3)
qed

section \<open>What the example of the usage prints\<close>

text \<open>The records of a page that goes on, and of a page that ends the query.\<close>

definition goes_on_after :: "page \<Rightarrow> bool" where
  "goes_on_after page \<longleftrightarrow> (\<exists>rs. page = Records rs \<and> (\<forall>x \<in> set rs. \<not> rr_last (fst x)))"

definition ends_query :: "page \<Rightarrow> bool" where
  "ends_query page \<longleftrightarrow>
     (case page of
        Refused e \<Rightarrow> True
      | Records rs \<Rightarrow> rs \<noteq> [] \<and> rr_last (fst (last rs)) \<and> (\<forall>x \<in> set (butlast rs). \<not> rr_last (fst x)))"

definition blob_line :: "readable_record \<times> string \<Rightarrow> string" where
  "blob_line x = ''Read blob: '' @ snd x"

lemma print_all:
  assumes "\<forall>x \<in> set rs. \<not> rr_last (fst x)"
  shows "deliver_all print_blob rs (False, out) = (False, out @ map blob_line rs)"
  using assms
proof (induction rs arbitrary: out)
  case (Cons x rs)
  obtain r m where "x = (r, m)" by (cases x)
  with Cons show ?case by (simp add: print_blob_def blob_line_def)
qed simp

lemma print_last_page:
  assumes "rs \<noteq> []" and "rr_last (fst (last rs))" and "\<forall>x \<in> set (butlast rs). \<not> rr_last (fst x)"
  shows "deliver_all print_blob rs (False, out) = (True, out @ map blob_line rs)"
proof -
  obtain r m where x: "last rs = (r, m)" by (cases "last rs")
  have rs: "rs = butlast rs @ [(r, m)]" using append_butlast_last_id [OF assms(1)] x by simp
  have "deliver_all print_blob (butlast rs @ [(r, m)]) (False, out) = (True, out @ map blob_line (butlast rs @ [(r, m)]))"
    using assms(2) x by (simp add: deliver_all_append print_all [OF assms(3)]) (simp add: print_blob_def blob_line_def)
  with rs show ?thesis by simp
qed

lemma printed_pages:
  assumes "\<forall>page \<in> set pages. goes_on_after page" and "ends_query final"
  shows "\<exists>e. run_pages print_blob False (pages @ [final]) out =
    Ended e (out @ map blob_line (concat (map page_records (pages @ [final]))))"
  using assms(1)
proof (induction pages arbitrary: out)
  case Nil
  then show ?case using assms(2) by (cases final) (auto simp: ends_query_def print_last_page)
next
  case (Cons page pages)
  then obtain rs where page: "page = Records rs" and more: "\<forall>x \<in> set rs. \<not> rr_last (fst x)"
    by (auto simp: goes_on_after_def)
  obtain e where "run_pages print_blob False (pages @ [final]) (out @ map blob_line rs) =
      Ended e ((out @ map blob_line rs) @ map blob_line (concat (map page_records (pages @ [final]))))"
    using Cons by fastforce
  then show ?case by (simp add: page print_all [OF more])
qed


text \<open>A server that answers everything with one record, marked as the last one, and a JSON library for it.\<close>

definition usage_json :: "json_value json_ops" where
  "usage_json = value_json
     (\<lambda>s. Inr (JObject [(''bucket_count'', JInt 1), (''defaults'', JObject [(''bucket'', JObject [])]), (''id'', JInt 1),
        (''latest_record'', JInt 0), (''oldest_record'', JInt 0), (''uptime'', JInt 5), (''usage'', JInt 0),
        (''version'', JString ''1.16'')]))
     (\<lambda>j. Inr ''{}'')"

definition usage_info :: server_info where
  "usage_info = no_server_info\<lparr>si_version := ''1.16'', si_bucket_count := 1, si_uptime := 5\<rparr>"

lemma usage_started:
  "get_info (answering last_reply) usage_json (local_client ()) = Inr (ok_result usage_info, local_client ())"
  by code_simp

lemma usage_bucket_found:
  "get_or_create_bucket (answering last_reply) usage_json ''bucket'' no_settings (local_client ()) =
     Inr (ok_result (Some example_bucket), local_client ())"
  by code_simp

lemma usage_written:
  "write_some (answering last_reply) 0 ''some_data1'' example_bucket = Inr example_bucket"
  "write_some (answering last_reply) 0 ''some_data2'' example_bucket = Inr example_bucket"
  "write_some (answering last_reply) 0 ''some_data3'' example_bucket = Inr example_bucket"
  by code_simp+

lemma usage_opened:
  "open_query (answering last_reply) usage_json False ''entry-1'' (Some 0) (Some 0) default_query_options example_bucket =
     Inr (ok_result 1, example_bucket)"
  by code_simp

lemma usage_page:
  "on_client (receive (answering last_reply) False
      (bk_path example_bucket @ ''/'' @ ''entry-1'' @ ''/batch?q='' @ show_nat (unat 1)) []) example_bucket =
     Inr ((kOk, Some [(''x-reduct-last'', ''true''), (''x-reduct-time-0'', ''1,t'')], [Some ''a'']), example_bucket)"
  by code_simp


end
