(* ===== verification/Spec2Isabelle.thy ===== *)
theory Spec2Isabelle
  imports Delivery Batch_V2_Update Label_Survival Entry_Names Collisions Batch_V2_Process Batch_Spec Batch_Errors Upload_Bounds Callbacks Read_Threads Worker Sessions
    Write_Query_V1 Single_Record Query_Json Http_Url Example_Programs
begin

text \<open>
  A verification library for the C++ client of ReductStore, a time series database for blobs
  (sources under \<^verbatim>\<open>src/src/reduct\<close>).

  \<^bold>\<open>The program.\<close> A \<^verbatim>\<open>Client\<close> (client.cc) makes the requests about the server: information, buckets,
  access tokens, replications and lifecycle tasks, and returns \<^verbatim>\<open>Bucket\<close>s. A \<^verbatim>\<open>Bucket\<close> (bucket.cc) owns an \<^verbatim>\<open>HttpClient\<close> (internal/http_client.cc) and a worker
  thread. A caller fills a \<^verbatim>\<open>Batch\<close> (bucket.h) and hands it over; one of two protocols turns it
  into headers and one body: v1 (internal/batch_v1.cc: one entry, a header per time) or v2
  (internal/batch_v2.cc: many entries, indices and time deltas). The body is pulled from
  \<^verbatim>\<open>Batch::Slice\<close> in chunks. In the other direction the headers of a response become
  \<^verbatim>\<open>ReadableRecord\<close>s, whose \<^verbatim>\<open>Read\<close> functions take their bytes from a queue that the network
  fills while the worker thread runs the user's callbacks. Settings, replications, queries and
  links travel as JSON (internal/serialisation.cc), times of tokens and tasks as ISO 8601 text
  (internal/time_parse.h).

  \<^bold>\<open>Theories and sources.\<close>
  \<^item> Prelude, Cpp_String, Cpp_Number, Containers, Effects: what the sources use of C++. Exceptions
    are values of a sum type with undefined behaviour apart; \<^verbatim>\<open>uint64_t\<close> is \<^typ>\<open>64 word\<close>; \<^verbatim>\<open>stoi\<close> and
    its kin parse prefixes and throw; \<^verbatim>\<open>std::map\<close> is a sorted list and \<^verbatim>\<open>std::unordered_map\<close> a list in
    some order, both behind the locale \<open>cpp_map\<close>; stateful code is a function from a state to an
    exception or a value with a new state.
  \<^item> Result: \<^verbatim>\<open>Error\<close> and \<^verbatim>\<open>Result\<close>. Batch: \<^verbatim>\<open>IBucket::Batch\<close> with \<^verbatim>\<open>Slice\<close>; Batch_Spec:
    the list of records that it implements. Records and Sort_Spec: times,
    label texts, \<^verbatim>\<open>SortRecords\<close> (\<^verbatim>\<open>std::sort\<close> is the parameter \<open>srt\<close> under the locale \<open>std_sort\<close>).
    Entry_Codec, Headers: names of entries and headers.
  \<^item> Batch_V2_Parse, Batch_V2_Build, Batch_V2_Process: internal/batch_v2.cc. Batch_V1:
    internal/batch_v1.cc. Batch_Type: the types they share. Batch_V2_Update: what the requests of
    every type say. Label_Survival: the label values that both carry;
    Entry_Names: the entry names that v2 carries; Collisions: records of one microsecond.
  \<^item> Http_Client, Upload: internal/http_client.cc and \<^verbatim>\<open>WritableRecord\<close>. The library \<^verbatim>\<open>httplib\<close> is the
    argument \<open>lib\<close>; the locale \<open>body_source\<close> is the contract of a content provider. Upload_Bounds:
    what an upload sends and when it ends.
  \<^item> Readable, Reader, Read_All: \<^verbatim>\<open>ReadableRecord\<close>, its three \<^verbatim>\<open>Read\<close> functions by iterations, and the
    system of the network and a reading thread as a step relation; the locale \<open>sized_reader\<close> is the
    contract that the readers of both protocols meet.
  \<^item> Json, Serialisation: the JSON library as the argument \<open>J\<close> with the laws of the locale
    \<open>json_laws\<close>, and internal/serialisation.cc.
  \<^item> Bucket_Base, Bucket_Batch, Bucket_Read, Bucket_Query, Bucket_Link, Bucket_Attachments: bucket.cc.
    Callbacks: the worker thread against the inline execution. Read_Threads: a call of
    \<^verbatim>\<open>ReadRecord\<close> from another thread beside the worker. Worker: the loop of the worker thread and
    the destructor. Batch_Errors: the maps of errors. Query_Stream: queries as sequences of pages, the
    specification that \<^verbatim>\<open>Query\<close> implements; Query_Threads: a query from another thread, read by read.
    Write_Query, Write_Query_V1: \<^verbatim>\<open>WriteBatch\<close> and a query, from one end to the other.
    Single_Record, Query_Json, Http_Url: what is sent for a record, a query and a URL.
  \<^item> Example_Programs: examples/subscription.cc and examples/usage_example.cc, the library's users.
  \<^item> Civil_Time, Time_Parse: the calendar and the time formats of the C library, and
    internal/time_parse.h with \<^verbatim>\<open>ToIso8601Utc\<close>. Lifecycle, Tokens: the structures of client.h with
    their JSON. Client, Client_Admin: client.cc, method by method.
  \<^item> Keeps, Client_Invariant, Bucket_Invariant, Sessions: the rules for code that keeps a property of
    the state; the locale \<open>client_invariant\<close>, the contract between the HTTP client and whoever
    uses it, interpreted for the accepted versions and for the fixed members; and the step
    relations \<open>client_step\<close> and \<open>bucket_step\<close>, one rule per method, whose sequences are sessions.

  \<^bold>\<open>What is shown.\<close> Round trips: Batch_V2_Roundtrip and Batch_V1_Roundtrip (request headers read back
  as the records sent), Batch_V2_Update (which records the headers of writes, updates and removals
  name, and what an update changes), Delivery (down to the bytes of every record, for any cutting into chunks and
  any interleaving), Serialisation. Safety and liveness of reading: Read_All (records get
  consecutive pieces of the body, no undefined step, the reading can be finished) and Callbacks (the
  tasks of the worker thread simulate that system; their outcome is the one of the inline call).
  Read_Threads: the caller and the worker refine that simulation, so that an answered call can
  return and answers like the inline call, while a call that fails in the body leaves tasks behind
  that use its variables. Query_Stream: a query is the run of its callback over the pages that
  the server sends, for both protocols, and Query_Threads: so is a query from another thread, whatever
  the interleaving. Write_Query composes all of it: what \<^verbatim>\<open>WriteBatch\<close> uploads is what the callback of a
  query sees when the server answers with the headers of the request among others and with its body;
  Write_Query_V1 shows the same of the older protocol. Example_Programs: the subscription ends after three messages. Single_Record: what
  \<^verbatim>\<open>Read\<close> gives for what \<^verbatim>\<open>Write\<close> sent. Query_Json: the members of the JSON of a query. Http_Url: where
  the requests go. Worker: the thread ends after at most three steps of its own.
  Functional behaviour: errors of a batch reach their records (Batch_V2_Process), when a query
  returns (Bucket_Query), the choice of the protocol and attachments (Bucket_Batch,
  Bucket_Attachments), validation of links (Bucket_Link), the requests that \<^verbatim>\<open>CreateToken\<close> and
  \<^verbatim>\<open>GetOrCreateBucket\<close> send (Client, Client_Admin). Invariants of sessions: Sessions (what no call
  changes, which versions can be learned, when the tests of the version cannot throw). Refinement:
  Batch_Spec. Bounds and termination of uploads: Upload_Bounds. The type of the results: Batch_Errors.
  Some theorems state where the code leaves
  its contract: entry names with percent signs (Entry_Names), label values with commas, quotes or
  blanks (Label_Survival), records of one entry in the same microsecond (Collisions), a quoted label in v1, a body that is too short in v1, records of size zero, the
  textual order of v1, the name of a renamed bucket, versions with a patch number, texts after the
  seconds of a time.

  \<^bold>\<open>Bounds.\<close> Sizes are below 2^63, so that no sum of \<^verbatim>\<open>size_t\<close> wraps; times are those that
  \<^verbatim>\<open>int64_t\<close> nanoseconds hold (libstdc++, 64-bit Linux). There is no fuel: loops that may not end
  (\<^verbatim>\<open>Read\<close>, the query loop) are step relations or partial functions whose value \<open>None\<close> is
  not returning.

  \<^bold>\<open>What is not modelled.\<close> Sleeping; the concurrent queue of tasks, which is first in, first
  out here; what a task of a call that is over does to the freed frame; locks (the members of \<^verbatim>\<open>HttpClient\<close> are read and written by one call after the other); what the two threads of
  the subscription see of each other through the server, and its standard error; tests and build files. \<^verbatim>\<open>fmt::format\<close> is concatenation with decimal printing.
\<close>

end
